(* ===== verification/Go_Lib.thy ===== *)
theory Go_Lib
  imports Main
begin

text \<open>
  The prelude: the parts of the Go language and of its standard library that the program
  uses (\<^verbatim>\<open>strings\<close>, \<^verbatim>\<open>bytes\<close>, \<^verbatim>\<open>strconv\<close>, \<^verbatim>\<open>net.SplitHostPort\<close>), the error-carrying
  loops the components share, and their lemmas.

  A Go \<^verbatim>\<open>string\<close> and a \<^verbatim>\<open>[]byte\<close> are both sequences of bytes, and both are a HOL
  \<^typ>\<open>string\<close> here (a \<^typ>\<open>char\<close> is one byte, so \<^verbatim>\<open>string(b)\<close> and \<^verbatim>\<open>[]byte(s)\<close> are the
  identity and \<^term>\<open>length\<close> is \<^verbatim>\<open>len\<close>).  The functions that look at letters or white
  space (\<^verbatim>\<open>TrimSpace\<close>, \<^verbatim>\<open>ToLower\<close>) are those of Go on ASCII text; a byte from
  0x80 on is left as it is, where Go would apply the Unicode tables.  Go's \<^verbatim>\<open>int\<close> is the
  64-bit one.
\<close>

named_theorems go_lib \<open>rewriting with the string functions of the prelude\<close>

section \<open>Errors as values\<close>

definition sum_bind :: "'e + 'a \<Rightarrow> ('a \<Rightarrow> 'e + 'b) \<Rightarrow> 'e + 'b" where
  "sum_bind m f = (case m of Inl e \<Rightarrow> Inl e | Inr x \<Rightarrow> f x)"

lemma sum_bind_simps [simp]:
  "sum_bind (Inl e) f = Inl e" "sum_bind (Inr x) f = f x"
  by (simp_all add: sum_bind_def)

lemma sum_bind_cong [fundef_cong]:
  "m = n \<Longrightarrow> (\<And>x. n = Inr x \<Longrightarrow> f x = g x) \<Longrightarrow> sum_bind m f = sum_bind n g"
  by (auto simp: sum_bind_def split: sum.split)

lemma sum_bind_Inr [simp]: "sum_bind m f = Inr y \<longleftrightarrow> (\<exists>x. m = Inr x \<and> f x = Inr y)"
  by (cases m) auto

lemma sum_bind_Inl [simp]: "sum_bind m f = Inl e \<longleftrightarrow> m = Inl e \<or> (\<exists>x. m = Inr x \<and> f x = Inl e)"
  by (cases m) auto

text \<open>\<open>check b e\<close> is the statement \<^verbatim>\<open>if !b { return e }\<close>.\<close>

definition check :: "bool \<Rightarrow> 'e \<Rightarrow> 'e + unit" where
  "check b e = (if b then Inr () else Inl e)"

lemma check_simps [simp]:
  "check True e = Inr ()" "check False e = Inl e"
  "check b e = Inr u \<longleftrightarrow> b" "check b e = Inl e' \<longleftrightarrow> \<not> b \<and> e' = e"
  by (auto simp: check_def)

text \<open>A loop over a slice that returns at the first error, threading a state.\<close>

fun fold_sum :: "('a \<Rightarrow> 's \<Rightarrow> 'e + 's) \<Rightarrow> 'a list \<Rightarrow> 's \<Rightarrow> 'e + 's" where
  "fold_sum f [] s = Inr s"
| "fold_sum f (x # xs) s = sum_bind (f x s) (fold_sum f xs)"

text \<open>A loop that rewrites every element in place and stops at the first error.\<close>

fun traverse :: "('a \<Rightarrow> 'e + 'b) \<Rightarrow> 'a list \<Rightarrow> 'e + 'b list" where
  "traverse f [] = Inr []"
| "traverse f (x # xs) = sum_bind (f x) (\<lambda>y. sum_bind (traverse f xs) (\<lambda>ys. Inr (y # ys)))"

lemma fold_sum_append:
  "fold_sum f (xs @ ys) s = sum_bind (fold_sum f xs s) (fold_sum f ys)"
proof (induction xs arbitrary: s)
  case (Cons x xs)
  then show ?case by (cases "f x s") auto
qed simp

lemma fold_sum_invariant:
  assumes "fold_sum f xs s = Inr t" and "I s"
    and "\<And>x s t. x \<in> set xs \<Longrightarrow> f x s = Inr t \<Longrightarrow> I s \<Longrightarrow> I t"
  shows "I t"
  using assms
proof (induction xs arbitrary: s)
  case (Cons x xs)
  then obtain u where "f x s = Inr u" "fold_sum f xs u = Inr t" by auto
  with Cons show ?case by (metis list.set_intros)
qed simp

text \<open>What holds of the state right after \<open>x\<close> was processed and is stable holds at the end.\<close>

lemma fold_sum_reaches:
  assumes "fold_sum f xs s = Inr t" and "x \<in> set xs"
    and "\<And>s t. f x s = Inr t \<Longrightarrow> P t"
    and "\<And>y s t. f y s = Inr t \<Longrightarrow> P s \<Longrightarrow> P t"
  shows "P t"
  using assms(1,2)
proof (induction xs arbitrary: s)
  case (Cons y ys)
  then obtain u where u: "f y s = Inr u" "fold_sum f ys u = Inr t" by auto
  show ?case
  proof (cases "x = y")
    case True
    with u assms(3) have "P u" by blast
    with u(2) show ?thesis by (rule fold_sum_invariant) (use assms(4) in blast)
  next
    case False
    with Cons u show ?thesis by auto
  qed
qed simp

lemma fold_sum_map: "fold_sum f (map g xs) s = fold_sum (\<lambda>x. f (g x)) xs s"
proof (induction xs arbitrary: s)
  case (Cons x xs)
  then show ?case by (cases "f (g x) s") auto
qed simp

text \<open>A nested loop succeeds as the flat loop over all its inner elements does.\<close>

lemma fold_sum_concat:
  assumes "\<And>x s t. x \<in> set xs \<Longrightarrow> f x s = Inr t \<longleftrightarrow> P x \<and> fold_sum g (h x) s = Inr t"
  shows "fold_sum f xs s = Inr t \<longleftrightarrow> list_all P xs \<and> fold_sum g (concat (map h xs)) s = Inr t"
  using assms
proof (induction xs arbitrary: s)
  case (Cons x xs)
  then show ?case by (auto simp: fold_sum_append)
qed simp

lemma traverse_Inr:
  "traverse f xs = Inr ys \<longleftrightarrow> list_all2 (\<lambda>x y. f x = Inr y) xs ys"
  by (induction xs arbitrary: ys) (auto simp: list_all2_Cons1)

lemma traverse_set:
  "traverse f xs = Inr ys \<Longrightarrow> y \<in> set ys \<Longrightarrow> \<exists>x \<in> set xs. f x = Inr y"
  by (induction xs arbitrary: ys) auto

text \<open>A loop that rewrites every element and threads a state.\<close>

fun traverse_st :: "('a \<Rightarrow> 's \<Rightarrow> 'e + 'b \<times> 's) \<Rightarrow> 'a list \<Rightarrow> 's \<Rightarrow> 'e + 'b list \<times> 's" where
  "traverse_st f [] s = Inr ([], s)"
| "traverse_st f (x # xs) s =
     sum_bind (f x s) (\<lambda>(y, s). sum_bind (traverse_st f xs s) (\<lambda>(ys, s). Inr (y # ys, s)))"

lemma traverse_st_Inr:
  assumes "\<And>x s y t. f x s = Inr (y, t) \<longleftrightarrow> P x \<and> y = g x \<and> t = s \<union> h x"
  shows "traverse_st f xs s = Inr (ys, t) \<longleftrightarrow> list_all P xs \<and> ys = map g xs \<and> t = s \<union> \<Union> (set (map h xs))"
proof (induction xs arbitrary: s ys t)
  case (Cons x xs)
  show ?case by (auto simp: assms Cons.IH Un_assoc)
qed auto

lemma traverse_map:
  assumes "\<And>x y. f x = Inr y \<longleftrightarrow> P x \<and> y = g x"
  shows "traverse f xs = Inr ys \<longleftrightarrow> list_all P xs \<and> ys = map g xs"
  by (induction xs arbitrary: ys) (auto simp: assms)

lemma fold_sum_check: "fold_sum (\<lambda>x u. check (P x) (e x)) xs () = Inr u \<longleftrightarrow> list_all P xs"
  by (induction xs) auto

text \<open>A loop that enters every element into a map, refusing a second entry of a key.\<close>

lemma fold_sum_map_of:
  assumes "\<And>x m s y. f x (m, s) = Inr y \<longleftrightarrow>
    P x \<and> m (key x) = None \<and> y = (m(key x \<mapsto> val x), s \<union> h x)"
  shows "fold_sum f xs (m, s) = Inr y \<longleftrightarrow>
    list_all P xs \<and> distinct (map key xs) \<and> (\<forall>x \<in> set xs. m (key x) = None)
    \<and> y = (m ++ map_of (map (\<lambda>x. (key x, val x)) xs), s \<union> \<Union> (set (map h xs)))"
proof (induction xs arbitrary: m s)
  case (Cons x xs)
  let ?m = "map_of (map (\<lambda>x. (key x, val x)) xs)"
  have step: "fold_sum f (x # xs) (m, s) = Inr y \<longleftrightarrow>
      P x \<and> m (key x) = None \<and> fold_sum f xs (m(key x \<mapsto> val x), s \<union> h x) = Inr y"
    by (auto simp: assms)
  show ?case
  proof (cases "key x \<in> key ` set xs")
    case True
    then have "\<not> (\<forall>z \<in> set xs. (m(key x \<mapsto> val x)) (key z) = None)" by auto
    with True show ?thesis unfolding step Cons.IH by auto
  next
    case False
    then have "?m (key x) = None" by (auto simp: map_of_eq_None_iff)
    then have upd: "m(key x \<mapsto> val x) ++ ?m = m ++ ?m(key x \<mapsto> val x)"
      by (auto simp: map_add_def split: option.split)
    have free: "(\<forall>z \<in> set xs. (m(key x \<mapsto> val x)) (key z) = None) \<longleftrightarrow> (\<forall>z \<in> set xs. m (key z) = None)"
      using False by (auto simp: image_iff)
    have entries: "map_of (map (\<lambda>x. (key x, val x)) (x # xs)) = ?m(key x \<mapsto> val x)"
      by (simp add: fun_upd_def)
    show ?thesis
      unfolding step Cons.IH upd free entries using False
      by (simp add: Un_assoc del: map_add_upd fun_upd_apply) blast
  qed
qed auto

section \<open>Strings\<close>

definition is_space :: "char \<Rightarrow> bool" where
  "is_space c \<longleftrightarrow> c = CHR '' '' \<or> c = CHR 0x09 \<or> c = CHR 0x0A \<or> c = CHR 0x0B
     \<or> c = CHR 0x0C \<or> c = CHR 0x0D"

definition TrimSpace :: "string \<Rightarrow> string" where
  "TrimSpace s = rev (dropWhile is_space (rev (dropWhile is_space s)))"

definition lower_char :: "char \<Rightarrow> char" where
  "lower_char c = (if 65 \<le> (of_char c :: nat) \<and> (of_char c :: nat) \<le> 90
     then char_of ((of_char c :: nat) + 32) else c)"

definition ToLower :: "string \<Rightarrow> string" where
  "ToLower s = map lower_char s"

text \<open>\<^verbatim>\<open>bytes.EqualFold\<close> against an ASCII text.  Two letters outside ASCII fold to an ASCII
  one, the long s (U+017F) and the Kelvin sign (U+212A), written here as their UTF-8 bytes.\<close>

fun simple_fold :: "string \<Rightarrow> string" where
  "simple_fold [] = []"
| "simple_fold (c # s) =
     (if c = CHR 0xC5 \<and> s \<noteq> [] \<and> hd s = CHR 0xBF then CHR ''s'' # simple_fold (tl s)
      else if c = CHR 0xE2 \<and> take 2 s = [CHR 0x84, CHR 0xAA] then CHR ''k'' # simple_fold (drop 2 s)
      else lower_char c # simple_fold s)"

definition EqualFold :: "string \<Rightarrow> string \<Rightarrow> bool" where
  "EqualFold s t \<longleftrightarrow> simple_fold s = ToLower t"

definition HasPrefix :: "string \<Rightarrow> string \<Rightarrow> bool" where
  "HasPrefix s p \<longleftrightarrow> take (length p) s = p"

definition HasSuffix :: "string \<Rightarrow> string \<Rightarrow> bool" where
  "HasSuffix s p \<longleftrightarrow> length p \<le> length s \<and> drop (length s - length p) s = p"

definition TrimSuffix :: "string \<Rightarrow> string \<Rightarrow> string" where
  "TrimSuffix s p = (if HasSuffix s p then take (length s - length p) s else s)"

text \<open>\<^verbatim>\<open>strings.Split\<close> and \<^verbatim>\<open>strings.SplitN(s, sep, 2)\<close> for a one-byte separator.\<close>

fun Split :: "char \<Rightarrow> string \<Rightarrow> string list" where
  "Split c [] = [[]]"
| "Split c (x # xs) =
     (if x = c then [] # Split c xs
      else (case Split c xs of [] \<Rightarrow> [[x]] | p # ps \<Rightarrow> (x # p) # ps))"

definition SplitN2 :: "char \<Rightarrow> string \<Rightarrow> string list" where
  "SplitN2 c s = (if c \<in> set s
     then [takeWhile (\<lambda>x. x \<noteq> c) s, tl (dropWhile (\<lambda>x. x \<noteq> c) s)] else [s])"

text \<open>\<^verbatim>\<open>IndexByte\<close>, \<^verbatim>\<open>LastIndexByte\<close> and \<^verbatim>\<open>bytes.Index\<close>; \<open>None\<close> is Go's \<open>-1\<close>.\<close>

definition IndexByte :: "string \<Rightarrow> char \<Rightarrow> nat option" where
  "IndexByte s c = (if c \<in> set s then Some (length (takeWhile (\<lambda>x. x \<noteq> c) s)) else None)"

definition LastIndexByte :: "string \<Rightarrow> char \<Rightarrow> nat option" where
  "LastIndexByte s c =
     (if c \<in> set s then Some (length s - 1 - length (takeWhile (\<lambda>x. x \<noteq> c) (rev s))) else None)"

fun Index :: "string \<Rightarrow> string \<Rightarrow> nat option" where
  "Index [] p = (if p = [] then Some 0 else None)"
| "Index (x # xs) p =
     (if take (length p) (x # xs) = p then Some 0 else map_option Suc (Index xs p))"

subsection \<open>Lemmas\<close>

lemma is_space_lower [simp]: "is_space (lower_char c) \<longleftrightarrow> is_space c"
proof (cases "65 \<le> (of_char c :: nat) \<and> (of_char c :: nat) \<le> 90")
  case True
  have ne: "\<not> is_space x" if "33 \<le> (of_char x :: nat)" for x
    using that by (auto simp: is_space_def)
  have "\<not> is_space c" using True by (intro ne) simp
  moreover have "\<not> is_space (lower_char c)"
    using True by (intro ne) (simp add: lower_char_def)
  ultimately show ?thesis by simp
qed (auto simp: lower_char_def)

lemma lower_char_idem [simp]: "lower_char (lower_char c) = lower_char c"
  by (simp add: lower_char_def)

lemma length_ToLower [simp]: "length (ToLower s) = length s"
  by (simp add: ToLower_def)

lemma ToLower_idem [simp]: "ToLower (ToLower s) = ToLower s"
  by (simp add: ToLower_def comp_def)

lemma ToLower_append [simp]: "ToLower (s @ t) = ToLower s @ ToLower t"
  by (simp add: ToLower_def)

lemma ToLower_Nil [simp]: "ToLower [] = []" "ToLower s = [] \<longleftrightarrow> s = []"
  by (simp_all add: ToLower_def)

lemma TrimSpace_Nil [simp]: "TrimSpace [] = []"
  by (simp add: TrimSpace_def)

lemma dropWhile_map_comm:
  "(\<And>x. P (f x) = P x) \<Longrightarrow> dropWhile P (map f xs) = map f (dropWhile P xs)"
  by (induction xs) auto

lemma TrimSpace_ToLower [go_lib]: "TrimSpace (ToLower s) = ToLower (TrimSpace s)"
  by (simp add: TrimSpace_def ToLower_def dropWhile_map_comm rev_map)

lemma TrimSpace_id: "s = [] \<or> (\<not> is_space (hd s) \<and> \<not> is_space (last s)) \<Longrightarrow> TrimSpace s = s"
proof (cases "s = []")
  case False
  assume "s = [] \<or> (\<not> is_space (hd s) \<and> \<not> is_space (last s))"
  with False have "dropWhile is_space s = s" "dropWhile is_space (rev s) = rev s"
    by (auto simp: dropWhile_eq_self_iff hd_rev)
  then show ?thesis by (simp add: TrimSpace_def)
qed simp

lemma TrimSpace_no_space: "list_all (\<lambda>c. \<not> is_space c) s \<Longrightarrow> TrimSpace s = s"
  by (rule TrimSpace_id) (auto simp: list_all_iff)

lemma dropWhile_ends:
  "dropWhile P xs \<noteq> [] \<Longrightarrow> \<not> P (hd (dropWhile P xs))"
  by (rule hd_dropWhile)

lemma last_dropWhile: "dropWhile P xs \<noteq> [] \<Longrightarrow> last (dropWhile P xs) = last xs"
  by (metis dropWhile_eq_drop drop_eq_Nil last_drop leI)

lemma TrimSpace_ends:
  "TrimSpace s = [] \<or> (\<not> is_space (hd (TrimSpace s)) \<and> \<not> is_space (last (TrimSpace s)))"
proof (cases "TrimSpace s = []")
  case False
  let ?l = "dropWhile is_space s" and ?t = "dropWhile is_space (rev (dropWhile is_space s))"
  have t: "?t \<noteq> []" using False by (simp add: TrimSpace_def)
  then have "?l \<noteq> []" by (metis dropWhile.simps(1) rev.simps(1))
  have "\<not> is_space (last (TrimSpace s))"
    using t hd_dropWhile [OF t] by (simp add: TrimSpace_def last_rev)
  moreover have "hd (TrimSpace s) = hd ?l"
    using t \<open>?l \<noteq> []\<close> by (simp add: TrimSpace_def hd_rev last_dropWhile last_rev)
  ultimately show ?thesis using hd_dropWhile [OF \<open>?l \<noteq> []\<close>] by simp
qed simp

lemma TrimSpace_idem [simp]: "TrimSpace (TrimSpace s) = TrimSpace s"
  by (rule TrimSpace_id) (use TrimSpace_ends in blast)

lemma HasSuffix_append [simp]: "HasSuffix (s @ p) p"
  by (simp add: HasSuffix_def)

lemma TrimSuffix_append [simp]: "TrimSuffix (s @ p) p = s"
  by (simp add: TrimSuffix_def)

lemma HasSuffix_iff: "HasSuffix s p \<longleftrightarrow> (\<exists>q. s = q @ p)"
  by (metis HasSuffix_append HasSuffix_def append_take_drop_id)

lemma set_TrimSpace: "set (TrimSpace s) \<subseteq> set s"
  by (metis TrimSpace_def set_dropWhileD set_rev subsetI)

lemma Split_nonempty [simp]: "Split c s \<noteq> []"
  by (cases s) (auto split: list.splits)

lemma Split_no_sep: "c \<notin> set s \<Longrightarrow> Split c s = [s]"
  by (induction s) auto

lemma Split_append: "c \<notin> set s \<Longrightarrow> Split c (s @ c # t) = s # Split c t"
  by (induction s) auto

lemma length_Split: "length (Split c s) = Suc (count_list s c)"
  by (induction s) (auto split: list.splits)

lemma SplitN2_append: "c \<notin> set s \<Longrightarrow> SplitN2 c (s @ c # t) = [s, t]"
  by (auto simp: SplitN2_def takeWhile_append dropWhile_append)

lemma SplitN2_no_sep: "c \<notin> set s \<Longrightarrow> SplitN2 c s = [s]"
  by (simp add: SplitN2_def)

lemma split_at_first: "c \<in> set s \<Longrightarrow> \<exists>p q. s = p @ c # q \<and> c \<notin> set p"
  by (meson split_list_first)

lemma Index_Some:
  "Index s p = Some i \<Longrightarrow> i + length p \<le> length s \<and> take (length p) (drop i s) = p"
proof (induction s p arbitrary: i rule: Index.induct)
  case (2 x xs p)
  show ?case
  proof (cases "take (length p) (x # xs) = p")
    case True
    then have "length p \<le> length (x # xs)"
      by (metis length_take min.cobounded1)
    with True 2 show ?thesis by auto
  next
    case False
    with 2 obtain j where "Index xs p = Some j" "i = Suc j" by auto
    with 2 False show ?thesis by auto
  qed
qed (auto split: if_splits)

lemma Index_least:
  "Index s p = Some i \<Longrightarrow> j < i \<Longrightarrow> take (length p) (drop j s) \<noteq> p"
proof (induction s p arbitrary: i j rule: Index.induct)
  case (2 x xs p)
  then show ?case by (cases j) (auto split: if_splits)
qed (auto split: if_splits)

lemma Index_None:
  "Index s p = None \<Longrightarrow> p \<noteq> [] \<and> take (length p) (drop j s) \<noteq> p"
proof (induction s p arbitrary: j rule: Index.induct)
  case (2 x xs p)
  then show ?case by (cases j) (auto split: if_splits)
qed (auto split: if_splits)

lemma Index_unique:
  assumes "take (length p) (drop i s) = p" and "\<And>j. j < i \<Longrightarrow> take (length p) (drop j s) \<noteq> p"
  shows "Index s p = Some i"
proof (cases "Index s p")
  case None
  with assms(1) Index_None show ?thesis by blast
next
  case (Some k)
  have "\<not> k < i" using assms(2) Index_Some [OF Some] by blast
  moreover have "\<not> i < k" using Index_least [OF Some] assms(1) by blast
  ultimately show ?thesis using Some by simp
qed

text \<open>Appending input can only add a match that reaches into the new part.\<close>

lemma Index_append_Some: "Index s p = Some i \<Longrightarrow> Index (s @ t) p = Some i"
proof (rule Index_unique)
  assume s: "Index s p = Some i"
  from Index_Some [OF s] show "take (length p) (drop i (s @ t)) = p" by simp
  fix j assume "j < i"
  with Index_Some [OF s] have "j + length p \<le> length s" by simp
  then have "take (length p) (drop j (s @ t)) = take (length p) (drop j s)" by simp
  with Index_least [OF s \<open>j < i\<close>] show "take (length p) (drop j (s @ t)) \<noteq> p" by argo
qed

lemma Index_take:
  assumes "Index s p = Some i" and "i + length p \<le> n"
  shows "Index (take n s) p = Some i"
proof (rule Index_unique)
  show "take (length p) (drop i (take n s)) = p"
    using Index_Some [OF assms(1)] assms(2) by (simp add: drop_take min_absorb1)
  fix j assume "j < i"
  then have "take (length p) (drop j (take n s)) = take (length p) (drop j s)"
    using assms(2) by (simp add: drop_take min_absorb1)
  with Index_least [OF assms(1) \<open>j < i\<close>] show "take (length p) (drop j (take n s)) \<noteq> p" by simp
qed

section \<open>Sums over a list\<close>

lemma list_all_update: "list_all P xs \<Longrightarrow> P y \<Longrightarrow> list_all P (xs[i := y])"
  using set_update_subset_insert [of xs i y] by (auto simp: list_all_iff)

lemma sum_list_map_update:
  fixes f :: "'a \<Rightarrow> 'b::comm_monoid_add"
  shows "i < length xs \<Longrightarrow> sum_list (map f (xs[i := y])) + f (xs ! i) = sum_list (map f xs) + f y"
proof (induction xs arbitrary: i)
  case (Cons x xs)
  then show ?case by (cases i) (auto simp: ac_simps)
qed simp

section \<open>Host and port texts\<close>

text \<open>\<^verbatim>\<open>net.SplitHostPort\<close> (\<open>None\<close> is its error) and \<^verbatim>\<open>net.JoinHostPort\<close>.\<close>

definition SplitHostPort :: "string \<Rightarrow> (string \<times> string) option" where
  "SplitHostPort a =
     (case LastIndexByte a CHR '':'' of
        None \<Rightarrow> None
      | Some i \<Rightarrow>
          let finish = (\<lambda>host j k.
                if CHR ''['' \<in> set (drop j a) then None
                else if CHR '']'' \<in> set (drop k a) then None
                else Some (host, drop (i + 1) a)) in
          if hd a = CHR ''['' then
            (case IndexByte a CHR '']'' of
               None \<Rightarrow> None
             | Some e \<Rightarrow>
                 if e + 1 = length a then None
                 else if e + 1 = i then finish (take (e - 1) (drop 1 a)) 1 (e + 1)
                 else None)
          else if CHR '':'' \<in> set (take i a) then None
          else finish (take i a) 0 0)"

definition JoinHostPort :: "string \<Rightarrow> string \<Rightarrow> string" where
  "JoinHostPort host port =
     (if CHR '':'' \<in> set host then ''['' @ host @ '']:'' @ port else host @ '':'' @ port)"

text \<open>A host without brackets and colons splits from its port.\<close>

lemma LastIndexByte_append: "c \<notin> set t \<Longrightarrow> LastIndexByte (s @ c # t) c = Some (length s)"
  by (simp add: LastIndexByte_def takeWhile_append)

lemma SplitHostPort_plain:
  assumes "set h \<inter> {CHR '':'', CHR ''['', CHR '']''} = {}" and "set q \<inter> {CHR '':'', CHR ''['', CHR '']''} = {}"
  shows "SplitHostPort (h @ CHR '':'' # q) = Some (h, q)"
proof -
  have "hd (h @ CHR '':'' # q) \<noteq> CHR ''[''" using assms(1) by (cases h) auto
  then show ?thesis
    using assms LastIndexByte_append [of "CHR '':''" q h] by (auto simp: SplitHostPort_def Let_def)
qed

lemma SplitHostPort_no_colon: "CHR '':'' \<notin> set a \<Longrightarrow> SplitHostPort a = None"
  by (simp add: SplitHostPort_def LastIndexByte_def)

section \<open>Big-endian numbers\<close>

definition byte :: "nat \<Rightarrow> char" where
  "byte n = char_of n"

text \<open>\<^verbatim>\<open>binary.BigEndian.Uint16\<close> and \<^verbatim>\<open>PutUint16\<close>; the caller checks the length.\<close>

definition be16 :: "string \<Rightarrow> nat" where
  "be16 b = 256 * of_char (b ! 0) + of_char (b ! 1)"

definition enc16 :: "nat \<Rightarrow> string" where
  "enc16 n = [byte (n div 256), byte n]"

lemma of_char_byte [simp]: "(of_char (byte n) :: nat) = n mod 256"
  by (simp add: byte_def)

lemma of_char_less: "(of_char c :: nat) < 256"
  by (cases c) (simp add: of_char_def horner_sum_simps)

lemma length_enc16 [simp]: "length (enc16 n) = 2"
  by (simp add: enc16_def)

lemma be16_enc16 [simp]: "n < 65536 \<Longrightarrow> be16 (enc16 n @ r) = n" "n < 65536 \<Longrightarrow> be16 (enc16 n) = n"
proof -
  assume "n < 65536"
  then have "n div 256 < 256" by (simp add: less_mult_imp_div_less)
  then show "be16 (enc16 n @ r) = n" "be16 (enc16 n) = n"
    by (simp_all add: be16_def enc16_def)
qed

lemma be16_less: "be16 b < 65536"
  unfolding be16_def using of_char_less [of "b ! 0"] of_char_less [of "b ! 1"] by linarith

section \<open>Decimal numbers\<close>

definition MaxInt :: int where
  "MaxInt = 9223372036854775807"

text \<open>The value of a 64-bit \<^verbatim>\<open>int\<close> expression whose mathematical value is \<open>i\<close>.\<close>

definition wrap64 :: "int \<Rightarrow> int" where
  "wrap64 i = (i + 9223372036854775808) mod 18446744073709551616 - 9223372036854775808"

lemma wrap64_id: "- MaxInt - 1 \<le> i \<Longrightarrow> i \<le> MaxInt \<Longrightarrow> wrap64 i = i"
  by (simp add: wrap64_def MaxInt_def)

definition is_digit :: "char \<Rightarrow> bool" where
  "is_digit c \<longleftrightarrow> 48 \<le> (of_char c :: nat) \<and> (of_char c :: nat) \<le> 57"

definition digit_val :: "char \<Rightarrow> nat" where
  "digit_val c = of_char c - 48"

definition digits_val :: "string \<Rightarrow> nat" where
  "digits_val s = foldl (\<lambda>a c. 10 * a + digit_val c) 0 s"

text \<open>\<^verbatim>\<open>strconv.Atoi\<close>: an optional sign and decimal digits, within the 64-bit \<^verbatim>\<open>int\<close>.\<close>

definition Atoi :: "string \<Rightarrow> int option" where
  "Atoi s =
     (let ng = (s \<noteq> [] \<and> hd s = CHR ''-'');
          ds = (if s \<noteq> [] \<and> (hd s = CHR ''-'' \<or> hd s = CHR ''+'') then tl s else s);
          v = (if ng then - int (digits_val ds) else int (digits_val ds))
      in if ds = [] \<or> \<not> list_all is_digit ds then None
         else if v < - MaxInt - 1 \<or> MaxInt < v then None else Some v)"

definition digit_char :: "nat \<Rightarrow> char" where
  "digit_char n = char_of (48 + n)"

fun itoa_nat :: "nat \<Rightarrow> string" where
  "itoa_nat n = (if n < 10 then [digit_char n] else itoa_nat (n div 10) @ [digit_char (n mod 10)])"

declare itoa_nat.simps [simp del]

text \<open>\<^verbatim>\<open>strconv.Itoa\<close>.\<close>

definition Itoa :: "int \<Rightarrow> string" where
  "Itoa i = (if i < 0 then CHR ''-'' # itoa_nat (nat (- i)) else itoa_nat (nat i))"

lemma digit_char_props:
  "n < 10 \<Longrightarrow> is_digit (digit_char n)" "n < 10 \<Longrightarrow> digit_val (digit_char n) = n"
  by (simp_all add: is_digit_def digit_val_def digit_char_def)

lemma digits_val_snoc [simp]: "digits_val (s @ [c]) = 10 * digits_val s + digit_val c"
  by (simp add: digits_val_def)

lemma digits_val_Nil [simp]: "digits_val [] = 0"
  by (simp add: digits_val_def)

lemma itoa_nat_props: "list_all is_digit (itoa_nat n) \<and> itoa_nat n \<noteq> [] \<and> digits_val (itoa_nat n) = n"
proof (induction n rule: itoa_nat.induct)
  case (1 n)
  then show ?case
    by (cases "n < 10") (simp_all add: itoa_nat.simps [of n] digit_char_props digits_val_def)
qed

lemma itoa_nat_digits [simp]: "list_all is_digit (itoa_nat n)" "itoa_nat n \<noteq> []"
  and digits_val_itoa_nat [simp]: "digits_val (itoa_nat n) = n"
  using itoa_nat_props by auto

lemma is_digit_not: "is_digit c \<Longrightarrow> \<not> is_space c"
  "is_digit c \<Longrightarrow> c \<noteq> CHR ''-''" "is_digit c \<Longrightarrow> c \<noteq> CHR ''+''"
  "is_digit c \<Longrightarrow> c \<noteq> CHR '':''" "is_digit c \<Longrightarrow> c \<noteq> CHR ''=''"
  by (auto simp: is_digit_def is_space_def)

lemma is_digit_lower: "is_digit c \<Longrightarrow> lower_char c = c"
  by (simp add: is_digit_def lower_char_def)

lemma digits_ToLower: "list_all is_digit s \<Longrightarrow> ToLower s = s"
  by (simp add: ToLower_def list_all_iff is_digit_lower map_idI)

lemma digits_TrimSpace: "list_all is_digit s \<Longrightarrow> TrimSpace s = s"
  by (rule TrimSpace_no_space) (simp add: list_all_iff is_digit_not)

lemma Atoi_digits:
  assumes "list_all is_digit s" "s \<noteq> []"
  shows "Atoi s = (if int (digits_val s) \<le> MaxInt then Some (int (digits_val s)) else None)"
proof -
  from assms have "is_digit (hd s)" by (cases s) auto
  then have "hd s \<noteq> CHR ''-''" "hd s \<noteq> CHR ''+''" by (auto dest: is_digit_not)
  with assms show ?thesis by (auto simp: Atoi_def Let_def MaxInt_def)
qed

lemma Atoi_itoa_nat: "int n \<le> MaxInt \<Longrightarrow> Atoi (itoa_nat n) = Some (int n)"
  by (simp add: Atoi_digits)

lemma itoa_nat_inj: "itoa_nat m = itoa_nat n \<longleftrightarrow> m = n"
  by (metis digits_val_itoa_nat)

end
