(* ===== verification/Conn.thy ===== *)
theory Conn
  imports Go_Lib
begin

text \<open>
  Byte streams.  A \<^verbatim>\<open>net.Conn\<close> on its reading side is the script of what arrives: segments of
  bytes, each with the error (if any) that the read which drains it returns; after the script
  comes the end of the stream.  \<open>byte_reader\<close> is the contract of \<^verbatim>\<open>io.Reader\<close> the relay relies
  on; its clients are the lemmas on any sequence of reads.  \<^verbatim>\<open>PrefixedConn\<close>
  (\<^verbatim>\<open>internal/server/transport/prefixed_conn.go\<close>) is a reader that replays inspected bytes.
\<close>

section \<open>Reading a connection\<close>

datatype io_error = EOF | ErrUnexpectedEOF | ErrTimeout | ErrReset

type_synonym conn = "(string \<times> io_error option) list"

type_synonym read_result = "string \<times> io_error option"

text \<open>\<^verbatim>\<open>conn.Read(b)\<close> for a buffer of \<open>k\<close> bytes: the bytes it stored, the error it returned.\<close>

definition Read :: "nat \<Rightarrow> conn \<Rightarrow> read_result \<times> conn" where
  "Read k c = (case c of
     [] \<Rightarrow> (([], Some EOF), [])
   | (b, e) # rest \<Rightarrow>
       if length b \<le> k then ((b, e), rest)
       else ((take k b, None), (drop k b, e) # rest))"

definition pending :: "conn \<Rightarrow> string" where
  "pending c = concat (map fst c)"

text \<open>The peer neither fails nor times out before its last byte.\<close>

definition no_error :: "conn \<Rightarrow> bool" where
  "no_error c \<longleftrightarrow> list_all (\<lambda>p. snd p = None) c"

fun reads :: "(nat \<Rightarrow> 's \<Rightarrow> read_result \<times> 's) \<Rightarrow> nat list \<Rightarrow> 's \<Rightarrow> read_result list \<times> 's" where
  "reads rd [] s = ([], s)"
| "reads rd (k # ks) s =
     (let (r, s) = rd k s; (rs, s) = reads rd ks s in (r # rs, s))"

definition delivered :: "read_result list \<Rightarrow> string" where
  "delivered rs = concat (map fst rs)"

lemma delivered_simps [simp]:
  "delivered [] = []" "delivered (r # rs) = fst r @ delivered rs"
  by (simp_all add: delivered_def)

section \<open>The contract of a reader\<close>

locale byte_reader =
  fixes rd :: "nat \<Rightarrow> 's \<Rightarrow> read_result \<times> 's"
    and todo :: "'s \<Rightarrow> string"
    and inv :: "'s \<Rightarrow> bool"
  assumes rd_bytes: "inv s \<Longrightarrow> rd k s = ((d, e), s') \<Longrightarrow> todo s = d @ todo s'"
    and rd_bound: "inv s \<Longrightarrow> rd k s = ((d, e), s') \<Longrightarrow> length d \<le> k"
    and rd_inv: "inv s \<Longrightarrow> rd k s = ((d, e), s') \<Longrightarrow> inv s'"
begin

lemma reads_bytes: "inv s \<Longrightarrow> reads rd ks s = (rs, s') \<Longrightarrow> todo s = delivered rs @ todo s'"
proof (induction ks arbitrary: s rs)
  case (Cons k ks)
  obtain d e t where r: "rd k s = ((d, e), t)" by (metis prod.exhaust)
  obtain rs' u where u: "reads rd ks t = (rs', u)" by fastforce
  from Cons.prems r u have "rs = (d, e) # rs'" "s' = u" by auto
  moreover from Cons.IH [OF rd_inv [OF Cons.prems(1) r]] u \<open>s' = u\<close>
  have "todo t = delivered rs' @ todo s'" by simp
  ultimately show ?case using rd_bytes [OF Cons.prems(1) r] by simp
qed simp

lemma reads_inv: "inv s \<Longrightarrow> reads rd ks s = (rs, s') \<Longrightarrow> inv s'"
proof (induction ks arbitrary: s rs)
  case (Cons k ks)
  obtain d e t where r: "rd k s = ((d, e), t)" by (metis prod.exhaust)
  with Cons show ?case by (auto split: prod.splits dest: rd_inv)
qed simp

text \<open>What reads of any sizes deliver is a prefix of the stream.\<close>

lemma reads_prefix:
  "inv s \<Longrightarrow> reads rd ks s = (rs, s') \<Longrightarrow> delivered rs = take (length (delivered rs)) (todo s)"
  by (simp add: reads_bytes)

end

interpretation tcp: byte_reader Read pending "\<lambda>_. True"
  by unfold_locales (auto simp: Read_def pending_def split: list.splits if_splits prod.splits)

lemma pending_simps [simp]: "pending [] = []" "pending ((b, e) # c) = b @ pending c"
  by (simp_all add: pending_def)

lemma no_error_simps [simp]: "no_error []" "no_error ((b, e) # c) \<longleftrightarrow> e = None \<and> no_error c"
  by (simp_all add: no_error_def)

section \<open>Reading a whole buffer\<close>

text \<open>A read without an error uses up a segment or fills its buffer.\<close>

lemma Read_progress:
  "Read k c = ((d, None), c') \<Longrightarrow> length c' < length c \<or> (length c' = length c \<and> length d = k)"
  by (auto simp: Read_def split: list.splits if_splits)

text \<open>\<^verbatim>\<open>io.ReadFull\<close> into a buffer of \<open>n\<close> bytes of which \<open>acc\<close> are already there.\<close>

function read_at_least :: "nat \<Rightarrow> string \<Rightarrow> conn \<Rightarrow> read_result \<times> conn" where
  "read_at_least n acc c =
     (if n \<le> length acc then ((acc, None), c) else
      (let (r, c') = Read (n - length acc) c; (d, e) = r; acc = acc @ d in
       (case e of
          None \<Rightarrow> read_at_least n acc c'
        | Some err \<Rightarrow>
            if n \<le> length acc then ((acc, None), c')
            else if acc \<noteq> [] \<and> err = EOF then ((acc, Some ErrUnexpectedEOF), c')
            else ((acc, Some err), c'))))"
  by pat_completeness auto
termination
  by (relation "measure (\<lambda>(n, acc, c). length c + (n - length acc))")
    (auto dest!: sym [of "(_, _)" "Read _ _"] Read_progress)

declare read_at_least.simps [simp del]

text \<open>\<open>io_ReadFull\<close> also gives the bytes that were stored when it fails, \<open>buf[:n]\<close>.\<close>

definition io_ReadFull :: "nat \<Rightarrow> conn \<Rightarrow> read_result \<times> conn" where
  "io_ReadFull n c = read_at_least n [] c"

definition ReadFull :: "nat \<Rightarrow> conn \<Rightarrow> (io_error + string) \<times> conn" where
  "ReadFull n c = (case io_ReadFull n c of
     ((b, None), c) \<Rightarrow> (Inr b, c) | ((b, Some e), c) \<Rightarrow> (Inl e, c))"

lemma Read_None_pending: "Read k c = ((d, e), c') \<Longrightarrow> pending c = d @ pending c' \<and> length d \<le> k"
  using tcp.rd_bytes tcp.rd_bound by blast

lemma read_at_least_bytes:
  "read_at_least n acc c = ((b, e), c') \<Longrightarrow> length acc \<le> n \<Longrightarrow>
     acc @ pending c = b @ pending c' \<and> length b \<le> n \<and> (e = None \<longleftrightarrow> length b = n)"
proof (induction n acc c rule: read_at_least.induct)
  case (1 n acc c)
  obtain d z c'' where r: "Read (n - length acc) c = ((d, z), c'')" by (metis prod.exhaust)
  note step = Read_None_pending [OF r]
  show ?case
  proof (cases "n \<le> length acc")
    case True
    with "1.prems" show ?thesis by (subst (asm) read_at_least.simps) simp
  next
    case False
    show ?thesis
    proof (cases z)
      case None
      with "1.prems" False r have "read_at_least n (acc @ d) c'' = ((b, e), c')"
        by (subst (asm) read_at_least.simps) (simp add: Let_def)
      moreover have "length (acc @ d) \<le> n" using step False by (auto simp: le_diff_conv2)
      ultimately show ?thesis
        using "1.IH" [OF False r [symmetric] refl refl refl refl] None step by simp
    next
      case (Some x)
      with "1.prems" False r step show ?thesis
        by (subst (asm) read_at_least.simps) (auto simp: Let_def split: if_splits)
    qed
  qed
qed

text \<open>A buffer is filled as soon as the peer sends that many bytes, however they are segmented.\<close>

lemma no_error_Read:
  assumes "no_error c" and "Read k c = ((d, e), c')"
  shows "no_error c'" and "e = None \<or> pending c = []"
  using assms by (auto simp: Read_def split: list.splits if_splits prod.splits)

lemma read_at_least_enough:
  "no_error c \<Longrightarrow> length acc \<le> n \<Longrightarrow> n \<le> length acc + length (pending c) \<Longrightarrow>
     \<exists>c'. read_at_least n acc c = ((take n (acc @ pending c), None), c') \<and> no_error c'"
proof (induction n acc c rule: read_at_least.induct)
  case (1 n acc c)
  show ?case
  proof (cases "n \<le> length acc")
    case True
    with "1.prems" show ?thesis by (simp add: read_at_least.simps)
  next
    case False
    obtain d e c'' where r: "Read (n - length acc) c = ((d, e), c'')" by (metis prod.exhaust)
    with "1.prems" False have e: "e = None" "no_error c''" using no_error_Read by fastforce+
    from Read_None_pending [OF r] "1.prems" False
    have "\<exists>c'. read_at_least n (acc @ d) c'' = ((take n ((acc @ d) @ pending c''), None), c') \<and> no_error c'"
      by (intro "1.IH" [OF False r [symmetric] refl refl refl refl e(1)]) (auto simp: e)
    with Read_None_pending [OF r] r e False show ?thesis
      by (subst read_at_least.simps) (simp add: Let_def)
  qed
qed

lemma io_ReadFull_bytes:
  "io_ReadFull n c = ((b, e), c') \<Longrightarrow> pending c = b @ pending c' \<and> (e = None \<longleftrightarrow> length b = n)"
  using read_at_least_bytes [of n "[]" c b e c'] by (simp add: io_ReadFull_def)

lemma ReadFull_Inr:
  "ReadFull n c = (Inr b, c') \<Longrightarrow> pending c = b @ pending c' \<and> length b = n"
  by (auto simp: ReadFull_def split: prod.splits option.splits dest!: io_ReadFull_bytes)

lemma ReadFull_enough:
  assumes "no_error c" and "pending c = b @ q" and "length b = n"
  obtains c' where "ReadFull n c = (Inr b, c')" "pending c' = q" "no_error c'"
proof -
  from assms read_at_least_enough [of c "[]" n] obtain c' where
    c': "ReadFull n c = (Inr b, c')" "no_error c'" by (auto simp: ReadFull_def io_ReadFull_def)
  with ReadFull_Inr [OF c'(1)] assms(2) that show ?thesis by simp
qed

end
