(* ===== verification/Config.thy ===== *)
theory Config
  imports Go_Lib
begin

text \<open>
  The configuration data of \<^verbatim>\<open>internal/config/config.go\<close>: one record per struct, its
  fields in the order of the source with the struct's abbreviation in front.  A Go
  \<^verbatim>\<open>map[string]T\<close> is a partial function, a \<^verbatim>\<open>time.Duration\<close> the number of its
  nanoseconds.
\<close>

section \<open>Transport types\<close>

type_synonym TransportType = string

definition TCP :: TransportType where "TCP = ''tcp''"
definition TCPMUX :: TransportType where "TCPMUX = ''tcpmux''"
definition WS :: TransportType where "WS = ''ws''"
definition WSS :: TransportType where "WSS = ''wss''"
definition WSMUX :: TransportType where "WSMUX = ''wsmux''"
definition WSSMUX :: TransportType where "WSSMUX = ''wssmux''"
definition QUIC :: TransportType where "QUIC = ''quic''"
definition UDP :: TransportType where "UDP = ''udp''"

lemmas transport_defs =
  TCP_def TCPMUX_def WS_def WSS_def WSMUX_def WSSMUX_def QUIC_def UDP_def

lemma transports_distinct: "distinct [TCP, TCPMUX, WS, WSS, WSMUX, WSSMUX, QUIC, UDP]"
  by (simp add: transport_defs)

section \<open>Durations\<close>

type_synonym Duration = int

definition Second :: Duration where "Second = 1000000000"
definition Minute :: Duration where "Minute = 60 * Second"

section \<open>Configuration records\<close>

record RuntimeConfig =
  rt_MemoryReleaseInterval :: string
  rt_AutoRestartInterval :: string
  rt_MemoryReleaseIntervalDuration :: Duration
  rt_AutoRestartIntervalDuration :: Duration

record ServerConfig =
  srv_Name :: string
  srv_BindAddr :: string
  srv_Transport :: TransportType
  srv_Token :: string
  srv_AllowMultiIP :: bool
  srv_Nodelay :: bool
  srv_Keepalive :: int
  srv_ChannelSize :: int
  srv_LogLevel :: string
  srv_Ports :: "string list"
  srv_PPROF :: bool
  srv_MuxSession :: int
  srv_MuxVersion :: int
  srv_MaxFrameSize :: int
  srv_MaxReceiveBuffer :: int
  srv_MaxStreamBuffer :: int
  srv_Sniffer :: bool
  srv_WebPort :: int
  srv_SnifferLog :: string
  srv_TLSCertFile :: string
  srv_TLSKeyFile :: string
  srv_Heartbeat :: int
  srv_MuxCon :: int
  srv_AcceptUDP :: bool
  srv_TCPCopyBuffer :: string
  srv_TCPCopyBufferBytes :: int

record SNIGatewayRouteConfig =
  sr_SNI :: string
  sr_Server :: string
  sr_Target :: string

type_synonym SNIGatewayRoute = SNIGatewayRouteConfig

record SNIGatewayConfig =
  sg_Name :: string
  sg_ListenAddr :: string
  sg_InspectTimeout :: int
  sg_DefaultAction :: string
  sg_Routes :: "SNIGatewayRouteConfig list"
  sg_RouteMap :: "string \<rightharpoonup> SNIGatewayRoute"

record HTTPGatewayRouteConfig =
  hr_Host :: string
  hr_Server :: string
  hr_Target :: string

type_synonym HTTPGatewayRoute = HTTPGatewayRouteConfig

record HTTPGatewayConfig =
  hg_Name :: string
  hg_ListenAddr :: string
  hg_InspectTimeout :: int
  hg_MaxHeaderBytes :: int
  hg_DefaultAction :: string
  hg_Routes :: "HTTPGatewayRouteConfig list"
  hg_RouteMap :: "string \<rightharpoonup> HTTPGatewayRoute"

record ClientConfig =
  cl_Name :: string
  cl_RemoteAddr :: string
  cl_Transport :: TransportType
  cl_Token :: string
  cl_ConnectionPool :: int
  cl_RetryInterval :: int
  cl_Nodelay :: bool
  cl_Keepalive :: int
  cl_LogLevel :: string
  cl_PPROF :: bool
  cl_MuxSession :: int
  cl_MuxVersion :: int
  cl_MaxFrameSize :: int
  cl_MaxReceiveBuffer :: int
  cl_MaxStreamBuffer :: int
  cl_Sniffer :: bool
  cl_WebPort :: int
  cl_SnifferLog :: string
  cl_DialTimeout :: int
  cl_AggressivePool :: bool
  cl_EdgeIP :: string
  cl_TunnelTCPBuffer :: string
  cl_TunnelTCPBufferBytes :: int
  cl_TCPCopyBuffer :: string
  cl_TCPCopyBufferBytes :: int

record Config =
  cf_Runtime :: RuntimeConfig
  cf_Servers :: "ServerConfig list"
  cf_Clients :: "ClientConfig list"
  cf_SNIGateways :: "SNIGatewayConfig list"
  cf_HTTPGateways :: "HTTPGatewayConfig list"

section \<open>Zero values\<close>

text \<open>What the TOML decoder starts from: Go's zero value of every field.\<close>

definition zero_server :: ServerConfig where
  "zero_server = \<lparr>srv_Name = [], srv_BindAddr = [], srv_Transport = [], srv_Token = [],
     srv_AllowMultiIP = False, srv_Nodelay = False, srv_Keepalive = 0, srv_ChannelSize = 0,
     srv_LogLevel = [], srv_Ports = [], srv_PPROF = False, srv_MuxSession = 0, srv_MuxVersion = 0,
     srv_MaxFrameSize = 0, srv_MaxReceiveBuffer = 0, srv_MaxStreamBuffer = 0,
     srv_Sniffer = False, srv_WebPort = 0, srv_SnifferLog = [], srv_TLSCertFile = [],
     srv_TLSKeyFile = [], srv_Heartbeat = 0, srv_MuxCon = 0, srv_AcceptUDP = False,
     srv_TCPCopyBuffer = [], srv_TCPCopyBufferBytes = 0\<rparr>"

definition zero_client :: ClientConfig where
  "zero_client = \<lparr>cl_Name = [], cl_RemoteAddr = [], cl_Transport = [], cl_Token = [],
     cl_ConnectionPool = 0, cl_RetryInterval = 0, cl_Nodelay = False, cl_Keepalive = 0,
     cl_LogLevel = [], cl_PPROF = False, cl_MuxSession = 0, cl_MuxVersion = 0,
     cl_MaxFrameSize = 0, cl_MaxReceiveBuffer = 0, cl_MaxStreamBuffer = 0,
     cl_Sniffer = False, cl_WebPort = 0, cl_SnifferLog = [], cl_DialTimeout = 0,
     cl_AggressivePool = False, cl_EdgeIP = [], cl_TunnelTCPBuffer = [],
     cl_TunnelTCPBufferBytes = 0, cl_TCPCopyBuffer = [], cl_TCPCopyBufferBytes = 0\<rparr>"

definition zero_config :: Config where
  "zero_config = \<lparr>cf_Runtime = \<lparr>rt_MemoryReleaseInterval = [], rt_AutoRestartInterval = [],
       rt_MemoryReleaseIntervalDuration = 0, rt_AutoRestartIntervalDuration = 0\<rparr>,
     cf_Servers = [], cf_Clients = [], cf_SNIGateways = [], cf_HTTPGateways = []\<rparr>"

end
