(* ===== verification/Sni.thy ===== *)
theory Sni
  imports Conn Config
begin

text \<open>
  \<^verbatim>\<open>internal/server/transport/sni.go\<close>: reading the TLS ClientHello of a connection and finding
  its server name.  Every index and slice expression of the source is written with the bound
  check of Go: \<open>IndexOutOfRange\<close> is the run-time panic.  The peer is what reading the connection
  yields under the inspection deadline (\<open>Inl\<close> when the deadline cannot be set).
\<close>

section \<open>The program\<close>

datatype sni_error =
  ReadErr io_error | NotHandshake nat | EmptyRecord | HelloTooLarge | NotClientHello nat
| HelloLenTooLarge nat | MalformedHello | NoExtensions | NoSNIExtension | EmptyHostName
| NoHostName | IndexOutOfRange

type_synonym peer = "Duration \<Rightarrow> io_error + conn"

definition maxClientHelloSize :: nat where "maxClientHelloSize = 64 * 1024"

definition NormalizeSNIHost :: "string \<Rightarrow> string" where
  "NormalizeSNIHost s = TrimSuffix (ToLower (TrimSpace s)) ''.''"

definition byte_at :: "string \<Rightarrow> nat \<Rightarrow> sni_error + nat" where
  "byte_at b i = (if i < length b then Inr (of_char (b ! i)) else Inl IndexOutOfRange)"

definition uint16_at :: "string \<Rightarrow> nat \<Rightarrow> sni_error + nat" where
  "uint16_at b i = (if i + 2 \<le> length b then Inr (be16 (drop i b)) else Inl IndexOutOfRange)"

definition slice :: "string \<Rightarrow> nat \<Rightarrow> nat \<Rightarrow> sni_error + string" where
  "slice b i j = (if i \<le> j \<and> j \<le> length b then Inr (take (j - i) (drop i b)) else Inl IndexOutOfRange)"

function name_loop :: "string \<Rightarrow> nat \<Rightarrow> nat \<Rightarrow> sni_error + string" where
  "name_loop b pos end' =
     (if pos + 3 \<le> end' then
        sum_bind (byte_at b pos) (\<lambda>nameType.
        sum_bind (uint16_at b (pos + 1)) (\<lambda>nameLen.
        let pos = pos + 3 in
        if pos + nameLen > end' then Inl MalformedHello
        else if nameType = 0 then
          (if nameLen = 0 then Inl EmptyHostName else slice b pos (pos + nameLen))
        else name_loop b (pos + nameLen) end'))
      else Inl NoHostName)"
  by pat_completeness auto
termination by (relation "measure (\<lambda>(b, pos, e). e - pos)") auto

definition parseServerNameExtension :: "string \<Rightarrow> sni_error + string" where
  "parseServerNameExtension b =
     (if length b < 2 then Inl MalformedHello else
      sum_bind (uint16_at b 0) (\<lambda>listLen.
      let pos = 2; end' = pos + listLen;
          end' = (if end' > length b then length b else end') in
      name_loop b pos end'))"

function ext_loop :: "string \<Rightarrow> nat \<Rightarrow> nat \<Rightarrow> sni_error + string" where
  "ext_loop b pos end' =
     (if pos + 4 \<le> end' then
        sum_bind (uint16_at b pos) (\<lambda>extType.
        sum_bind (uint16_at b (pos + 2)) (\<lambda>extLen.
        let pos = pos + 4 in
        if pos + extLen > end' then Inl MalformedHello
        else if extType = 0 then sum_bind (slice b pos (pos + extLen)) parseServerNameExtension
        else ext_loop b (pos + extLen) end'))
      else Inl NoSNIExtension)"
  by pat_completeness auto
termination by (relation "measure (\<lambda>(b, pos, e). e - pos)") auto

declare name_loop.simps [simp del] ext_loop.simps [simp del]

definition parseSNIFromClientHello :: "string \<Rightarrow> sni_error + string" where
  "parseSNIFromClientHello b =
     (if length b < 34 then Inl MalformedHello else
      let pos = 34 in
      if pos + 1 > length b then Inl MalformedHello else
      sum_bind (byte_at b pos) (\<lambda>sidLen.
      let pos = pos + 1 + sidLen in
      if pos + 2 > length b then Inl MalformedHello else
      sum_bind (uint16_at b pos) (\<lambda>csLen.
      let pos = pos + 2 + csLen in
      if pos + 1 > length b then Inl MalformedHello else
      sum_bind (byte_at b pos) (\<lambda>cmLen.
      let pos = pos + 1 + cmLen in
      if pos + 2 > length b then Inl NoExtensions else
      sum_bind (uint16_at b pos) (\<lambda>extTotal.
      let pos = pos + 2; end' = pos + extTotal;
          end' = (if end' > length b then length b else end') in
      ext_loop b pos end')))))"

record inspect =
  ins_conn :: conn
  ins_raw :: string
  ins_handshake :: string

definition readRecord :: "inspect \<Rightarrow> sni_error + inspect" where
  "readRecord s =
     (case ReadFull 5 (ins_conn s) of
        (Inl e, c) \<Rightarrow> Inl (ReadErr e)
      | (Inr header, c) \<Rightarrow>
          if (of_char (header ! 0) :: nat) \<noteq> 0x16 then Inl (NotHandshake (of_char (header ! 0))) else
          let recLen = be16 (drop 3 header) in
          if recLen = 0 then Inl EmptyRecord else
          if length (ins_raw s) + 5 + recLen > maxClientHelloSize then Inl HelloTooLarge else
          (case ReadFull recLen c of
             (Inl e, c) \<Rightarrow> Inl (ReadErr e)
           | (Inr body, c) \<Rightarrow>
               Inr \<lparr>ins_conn = c, ins_raw = ins_raw s @ header @ body,
                    ins_handshake = ins_handshake s @ body\<rparr>))"

lemma readRecord_bytes:
  assumes "readRecord s = Inr t"
  shows "ins_raw t @ pending (ins_conn t) = ins_raw s @ pending (ins_conn s)"
    and "length (ins_raw t) \<le> maxClientHelloSize"
    and "length (ins_handshake s) < length (ins_handshake t)"
  using assms
  by (auto simp: readRecord_def Let_def split: prod.splits sum.splits if_splits dest!: ReadFull_Inr)

text \<open>The loops \<^verbatim>\<open>for len(handshake) < n\<close>.\<close>

function read_until :: "nat \<Rightarrow> inspect \<Rightarrow> (sni_error \<times> string) + inspect" where
  "read_until n s =
     (if length (ins_handshake s) < n then
        (case readRecord s of Inl e \<Rightarrow> Inl (e, ins_raw s) | Inr s' \<Rightarrow> read_until n s')
      else Inr s)"
  by pat_completeness auto
termination
proof (relation "measure (\<lambda>(n, s). n - length (ins_handshake s))")
  fix n s t
  assume "length (ins_handshake s) < n" "readRecord s = Inr t"
  with readRecord_bytes(3) show "((n, t), n, s) \<in> measure (\<lambda>(n, s). n - length (ins_handshake s))"
    by fastforce
qed simp

declare read_until.simps [simp del]

definition with_raw :: "string \<Rightarrow> 'e + 'a \<Rightarrow> ('e \<times> string) + 'a" where
  "with_raw raw r = (case r of Inl e \<Rightarrow> Inl (e, raw) | Inr x \<Rightarrow> Inr x)"

definition effective_timeout :: "Duration \<Rightarrow> Duration" where
  "effective_timeout t = (if t \<le> 0 then Second else t)"

definition ReadTLSClientHelloSNI ::
  "peer \<Rightarrow> Duration \<Rightarrow> (sni_error \<times> string) + (string \<times> string \<times> conn)" where
  "ReadTLSClientHelloSNI p timeout =
     (case p (effective_timeout timeout) of
        Inl e \<Rightarrow> Inl (ReadErr e, [])
      | Inr c \<Rightarrow>
          sum_bind (with_raw [] (readRecord \<lparr>ins_conn = c, ins_raw = [], ins_handshake = []\<rparr>)) (\<lambda>s.
          sum_bind (read_until 4 s) (\<lambda>s.
          sum_bind (with_raw (ins_raw s) (byte_at (ins_handshake s) 0)) (\<lambda>t0.
          if t0 \<noteq> 1 then Inl (NotClientHello t0, ins_raw s) else
          sum_bind (with_raw (ins_raw s) (byte_at (ins_handshake s) 1)) (\<lambda>h1.
          sum_bind (with_raw (ins_raw s) (byte_at (ins_handshake s) 2)) (\<lambda>h2.
          sum_bind (with_raw (ins_raw s) (byte_at (ins_handshake s) 3)) (\<lambda>h3.
          let hsLen = h1 * 65536 + h2 * 256 + h3 in
          if hsLen > maxClientHelloSize then Inl (HelloLenTooLarge hsLen, ins_raw s) else
          sum_bind (read_until (4 + hsLen) s) (\<lambda>s.
          sum_bind (with_raw (ins_raw s) (slice (ins_handshake s) 4 (4 + hsLen))) (\<lambda>hello.
          sum_bind (with_raw (ins_raw s) (parseSNIFromClientHello hello)) (\<lambda>host.
          Inr (NormalizeSNIHost host, ins_raw s, ins_conn s)))))))))))"

definition PortFromTarget :: "string \<Rightarrow> int" where
  "PortFromTarget target =
     (let t = TrimSpace target;
          t = (case LastIndexByte t CHR '':'' of Some i \<Rightarrow> drop (i + 1) t | None \<Rightarrow> t) in
      case Atoi t of None \<Rightarrow> 0 | Some p \<Rightarrow> if p < 1 \<or> p > 65535 then 0 else p)"

end
