(* ===== verification/Sni_Spec.thy ===== *)
theory Sni_Spec
  imports Sni
begin

text \<open>
  What \<^verbatim>\<open>sni.go\<close> promises: no index is out of range, the inspected bytes are exactly the
  bytes taken from the connection, a well-formed ClientHello yields its server name, and the
  way it is cut into TLS records and TCP segments does not matter.
\<close>

section \<open>No index is out of range\<close>

lemma byte_at_simps [simp]:
  "i < length b \<Longrightarrow> byte_at b i = Inr (of_char (b ! i))"
  by (simp add: byte_at_def)

lemma uint16_at_simps [simp]:
  "i + 2 \<le> length b \<Longrightarrow> uint16_at b i = Inr (be16 (drop i b))"
  by (simp add: uint16_at_def)

lemma slice_simps [simp]:
  "i \<le> j \<Longrightarrow> j \<le> length b \<Longrightarrow> slice b i j = Inr (take (j - i) (drop i b))"
  by (simp add: slice_def)

lemma name_loop_in_range: "e \<le> length b \<Longrightarrow> name_loop b pos e \<noteq> Inl IndexOutOfRange"
proof (induction b pos e rule: name_loop.induct)
  case (1 b pos e)
  show ?case
  proof (cases "pos + 3 \<le> e")
    case True
    with "1.prems" have r: "byte_at b pos = Inr (of_char (b ! pos))"
      "uint16_at b (pos + 1) = Inr (be16 (drop (pos + 1) b))" by simp_all
    note IH = "1.IH" [OF True r refl]
    show ?thesis
      using True "1.prems" IH by (subst name_loop.simps) (simp add: Let_def slice_def)
  qed (simp add: name_loop.simps)
qed

lemma parseServerNameExtension_in_range: "parseServerNameExtension b \<noteq> Inl IndexOutOfRange"
  by (simp add: parseServerNameExtension_def Let_def name_loop_in_range)

lemma ext_loop_in_range: "e \<le> length b \<Longrightarrow> ext_loop b pos e \<noteq> Inl IndexOutOfRange"
proof (induction b pos e rule: ext_loop.induct)
  case (1 b pos e)
  show ?case
  proof (cases "pos + 4 \<le> e")
    case True
    with "1.prems" have r: "uint16_at b pos = Inr (be16 (drop pos b))"
      "uint16_at b (pos + 2) = Inr (be16 (drop (pos + 2) b))" by simp_all
    note IH = "1.IH" [OF True r refl]
    show ?thesis
      using True "1.prems" IH
      by (subst ext_loop.simps) (simp add: Let_def parseServerNameExtension_in_range)
  qed (simp add: ext_loop.simps)
qed

lemma parseSNI_in_range: "parseSNIFromClientHello b \<noteq> Inl IndexOutOfRange"
  by (simp add: parseSNIFromClientHello_def Let_def ext_loop_in_range not_less)

section \<open>Reading records\<close>

lemma read_until_bytes:
  "read_until n s = Inr t \<Longrightarrow>
     ins_raw t @ pending (ins_conn t) = ins_raw s @ pending (ins_conn s)
     \<and> n \<le> length (ins_handshake t)
     \<and> (length (ins_raw s) \<le> maxClientHelloSize \<longrightarrow> length (ins_raw t) \<le> maxClientHelloSize)"
proof (induction n s rule: read_until.induct)
  case (1 n s)
  show ?case
  proof (cases "length (ins_handshake s) < n")
    case True
    with "1.prems" obtain u where u: "readRecord s = Inr u" "read_until n u = Inr t"
      by (subst (asm) read_until.simps) (auto split: sum.splits)
    with "1.IH" [OF True u] readRecord_bytes [OF u(1)] show ?thesis by simp
  next
    case False
    with "1.prems" show ?thesis by (subst (asm) read_until.simps) auto
  qed
qed

lemma read_until_raw_error:
  "read_until n s = Inl (e, r) \<Longrightarrow> length (ins_raw s) \<le> maxClientHelloSize \<Longrightarrow> length r \<le> maxClientHelloSize"
proof (induction n s rule: read_until.induct)
  case (1 n s)
  from "1.prems"(1) have lt: "length (ins_handshake s) < n"
    by (subst (asm) read_until.simps) (auto split: if_splits)
  show ?case
  proof (cases "readRecord s")
    case (Inl x)
    with "1.prems" lt show ?thesis by (subst (asm) read_until.simps) auto
  next
    case (Inr u)
    with "1.prems"(1) lt have "read_until n u = Inl (e, r)" by (subst (asm) read_until.simps) auto
    with "1.IH" [OF lt Inr] readRecord_bytes(2) [OF Inr] show ?thesis by simp
  qed
qed

lemma with_raw_simps [simp]: "with_raw raw (Inr x) = Inr x" "with_raw raw (Inl e) = Inl (e, raw)"
  "with_raw raw r = Inr y \<longleftrightarrow> r = Inr y"
  "with_raw raw r = Inl (e', raw') \<longleftrightarrow> r = Inl e' \<and> raw' = raw"
  by (auto simp: with_raw_def split: sum.splits)

abbreviation start_inspect :: "conn \<Rightarrow> inspect" where
  "start_inspect c \<equiv> \<lparr>ins_conn = c, ins_raw = [], ins_handshake = []\<rparr>"

lemma ReadTLS_lossless:
  assumes "p (effective_timeout t) = Inr c" and "ReadTLSClientHelloSNI p t = Inr (sni, raw, c')"
  shows "raw @ pending c' = pending c \<and> length raw \<le> maxClientHelloSize \<and> sni = ToLower sni"
proof -
  from assms obtain s1 s2 s3 host n where
    s: "readRecord (start_inspect c) = Inr s1" "read_until 4 s1 = Inr s2" "read_until n s2 = Inr s3"
    and r: "sni = NormalizeSNIHost host" "raw = ins_raw s3" "c' = ins_conn s3"
    by (auto simp: ReadTLSClientHelloSNI_def Let_def split: if_splits)
  have "ToLower (TrimSuffix x p) = TrimSuffix x p" if "ToLower x = x" for x p
    using that by (auto simp: TrimSuffix_def ToLower_def take_map [symmetric])
  with r have "sni = ToLower sni" by (simp add: NormalizeSNIHost_def)
  with r readRecord_bytes [OF s(1)] read_until_bytes [OF s(2)] read_until_bytes [OF s(3)]
  show ?thesis by simp
qed

text \<open>On an error, too, no more than the limit was kept, and the error is never a panic.\<close>

lemma ReadTLS_error:
  assumes "ReadTLSClientHelloSNI p t = Inl (e, raw)"
  shows "length raw \<le> maxClientHelloSize \<and> e \<noteq> IndexOutOfRange"
proof -
  have rr: "readRecord s \<noteq> Inl IndexOutOfRange" for s
    by (auto simp: readRecord_def Let_def split: prod.splits sum.splits if_splits)
  have ru: "read_until n s \<noteq> Inl (IndexOutOfRange, r)" for n s r
  proof (induction n s rule: read_until.induct)
    case (1 n s)
    then show ?case using rr [of s] by (subst read_until.simps) (auto split: sum.split)
  qed
  show ?thesis
    using assms rr ru parseSNI_in_range
    by (auto simp: ReadTLSClientHelloSNI_def Let_def byte_at_def slice_def split: if_splits sum.splits
        dest!: readRecord_bytes(2) read_until_bytes dest: read_until_raw_error)
qed

section \<open>Encoded messages\<close>

text \<open>The wire format of RFC 8446 and RFC 6066, as far as the parser reads it.\<close>

definition ext_bytes :: "nat \<times> string \<Rightarrow> string" where
  "ext_bytes x = enc16 (fst x) @ enc16 (length (snd x)) @ snd x"

definition name_bytes :: "nat \<times> string \<Rightarrow> string" where
  "name_bytes x = byte (fst x) # enc16 (length (snd x)) @ snd x"

definition small :: "nat \<Rightarrow> nat \<times> string \<Rightarrow> bool" where
  "small k x \<longleftrightarrow> fst x < k \<and> length (snd x) < 65536"

fun name_of :: "(nat \<times> string) list \<Rightarrow> sni_error + string" where
  "name_of [] = Inl NoHostName"
| "name_of ((t, n) # ns) =
     (if t = 0 then (if n = [] then Inl EmptyHostName else Inr n) else name_of ns)"

lemma name_bytes_Pair: "name_bytes (t, n) = byte t # enc16 (length n) @ n"
  by (simp add: name_bytes_def)

lemma ext_bytes_Pair: "ext_bytes (t, d) = enc16 t @ enc16 (length d) @ d"
  by (simp add: ext_bytes_def)

lemma drop_prefix: "pos = length pre \<Longrightarrow> drop pos (pre @ s) = s" "drop (length pre + k) (pre @ s) = drop k s"
  by simp_all

lemma name_loop_encoded:
  "list_all (small 256) ns \<Longrightarrow> pos = length pre \<Longrightarrow>
     e = pos + length (concat (map name_bytes ns)) \<Longrightarrow>
     name_loop (pre @ concat (map name_bytes ns) @ post) pos e = name_of ns"
proof (induction ns arbitrary: pre pos)
  case Nil
  then show ?case by (simp add: name_loop.simps)
next
  case (Cons x ns)
  obtain t n where x: "x = (t, n)" by (cases x)
  let ?b = "pre @ concat (map name_bytes (x # ns)) @ post"
  let ?rest = "n @ concat (map name_bytes ns) @ post"
  have small: "t < 256" "length n < 65536" using Cons.prems(1) x by (auto simp: small_def)
  have b: "?b = pre @ byte t # enc16 (length n) @ ?rest" by (simp add: x name_bytes_Pair)
  have e: "e = pos + 3 + length n + length (concat (map name_bytes ns))"
    using Cons.prems(3) by (simp add: x name_bytes_Pair)
  have ty: "byte_at ?b pos = Inr t"
    unfolding byte_at_def b using small by (simp add: Cons.prems(2) nth_append)
  have d: "drop (pos + 1) ?b = enc16 (length n) @ ?rest" unfolding b Cons.prems(2) drop_prefix(2) by simp
  have ln: "uint16_at ?b (pos + 1) = Inr (length n)"
    unfolding uint16_at_def d unfolding b using small by (simp add: Cons.prems(2))
  have sl: "slice ?b (pos + 3) (pos + 3 + length n) = Inr n"
    unfolding slice_def b Cons.prems(2) drop_prefix(2) by (simp add: enc16_def)
  have "name_loop ((pre @ byte t # enc16 (length n) @ n) @ concat (map name_bytes ns) @ post)
      (pos + 3 + length n) e = name_of ns"
    by (rule Cons.IH) (use Cons.prems e in \<open>auto\<close>)
  then have IH: "name_loop ?b (pos + 3 + length n) e = name_of ns" unfolding b by simp
  from e have "pos + 3 \<le> e" "pos + 3 + length n \<le> e" by simp_all
  then show ?case
    using small by (subst name_loop.simps) (simp only: if_True if_False sum_bind_simps ty ln Let_def sl IH,
        simp add: x not_less sl IH)
qed

fun ext_sni :: "(nat \<times> string) list \<Rightarrow> sni_error + string" where
  "ext_sni [] = Inl NoSNIExtension"
| "ext_sni ((t, d) # es) = (if t = 0 then parseServerNameExtension d else ext_sni es)"

lemma ext_loop_encoded:
  "list_all (small 65536) es \<Longrightarrow> pos = length pre \<Longrightarrow>
     e = pos + length (concat (map ext_bytes es)) \<Longrightarrow>
     ext_loop (pre @ concat (map ext_bytes es) @ post) pos e = ext_sni es"
proof (induction es arbitrary: pre pos)
  case Nil
  then show ?case by (simp add: ext_loop.simps)
next
  case (Cons x es)
  obtain t d where x: "x = (t, d)" by (cases x)
  let ?b = "pre @ concat (map ext_bytes (x # es)) @ post"
  let ?rest = "d @ concat (map ext_bytes es) @ post"
  have small: "t < 65536" "length d < 65536" using Cons.prems(1) x by (auto simp: small_def)
  have b: "?b = pre @ enc16 t @ enc16 (length d) @ ?rest" by (simp add: x ext_bytes_Pair)
  have e: "e = pos + 4 + length d + length (concat (map ext_bytes es))"
    using Cons.prems(3) by (simp add: x ext_bytes_Pair)
  have ty: "uint16_at ?b pos = Inr t"
    unfolding uint16_at_def b using small by (simp add: Cons.prems(2))
  have dr: "drop (pos + 2) ?b = enc16 (length d) @ ?rest" unfolding b Cons.prems(2) drop_prefix(2) by simp
  have ln: "uint16_at ?b (pos + 2) = Inr (length d)"
    unfolding uint16_at_def dr unfolding b using small by (simp add: Cons.prems(2))
  have sl: "slice ?b (pos + 4) (pos + 4 + length d) = Inr d"
    unfolding slice_def b Cons.prems(2) drop_prefix(2) by (simp add: enc16_def)
  have "ext_loop ((pre @ enc16 t @ enc16 (length d) @ d) @ concat (map ext_bytes es) @ post)
      (pos + 4 + length d) e = ext_sni es"
    by (rule Cons.IH) (use Cons.prems e in \<open>auto\<close>)
  then have IH: "ext_loop ?b (pos + 4 + length d) e = ext_sni es" unfolding b by simp
  from e have "pos + 4 \<le> e" "pos + 4 + length d \<le> e" by simp_all
  then show ?case
    using small by (subst ext_loop.simps) (simp only: if_True if_False sum_bind_simps ty ln Let_def sl IH,
        simp add: x not_less sl IH)
qed

text \<open>A server_name extension and a ClientHello, from their parts.\<close>

definition server_names :: "(nat \<times> string) list \<Rightarrow> string" where
  "server_names ns = enc16 (length (concat (map name_bytes ns))) @ concat (map name_bytes ns)"

record hello =
  h_head :: string
  h_session :: string
  h_ciphers :: string
  h_compression :: string
  h_exts :: "(nat \<times> string) list"

definition hello_bytes :: "hello \<Rightarrow> string" where
  "hello_bytes h =
     h_head h @ byte (length (h_session h)) # h_session h
     @ enc16 (length (h_ciphers h)) @ h_ciphers h
     @ byte (length (h_compression h)) # h_compression h
     @ enc16 (length (concat (map ext_bytes (h_exts h)))) @ concat (map ext_bytes (h_exts h))"

definition hello_ok :: "hello \<Rightarrow> bool" where
  "hello_ok h \<longleftrightarrow> length (h_head h) = 34 \<and> length (h_session h) < 256
     \<and> length (h_ciphers h) < 65536 \<and> length (h_compression h) < 256
     \<and> list_all (small 65536) (h_exts h) \<and> length (concat (map ext_bytes (h_exts h))) < 65536"

lemma parseServerName_encoded:
  assumes "list_all (small 256) ns" and "length (concat (map name_bytes ns)) < 65536"
  shows "parseServerNameExtension (server_names ns) = name_of ns"
proof -
  have l: "uint16_at (server_names ns) 0 = Inr (length (concat (map name_bytes ns)))"
    using assms(2) by (simp add: server_names_def)
  have "name_loop (server_names ns) 2 (2 + length (concat (map name_bytes ns))) = name_of ns"
    using name_loop_encoded [OF assms(1), of 2 "enc16 (length (concat (map name_bytes ns)))" _ "[]"]
    by (simp add: server_names_def)
  then show ?thesis
    unfolding parseServerNameExtension_def l sum_bind_simps Let_def by (simp add: server_names_def)
qed

lemma parse_hello_bytes:
  assumes "hello_ok h"
  shows "parseSNIFromClientHello (hello_bytes h) = ext_sni (h_exts h)"
proof -
  let ?sid = "h_session h" and ?cs = "h_ciphers h" and ?cm = "h_compression h"
  let ?ex = "concat (map ext_bytes (h_exts h))"
  let ?b = "hello_bytes h"
  have len: "length (h_head h) = 34" "length ?sid < 256" "length ?cs < 65536" "length ?cm < 256"
    "length ?ex < 65536" and sm: "list_all (small 65536) (h_exts h)"
    using assms by (auto simp: hello_ok_def)
  define p1 where "p1 = 34 + 1 + length ?sid"
  define p2 where "p2 = p1 + 2 + length ?cs"
  define p3 where "p3 = p2 + 1 + length ?cm"
  have L: "length ?b = p3 + 2 + length ?ex"
    by (simp add: hello_bytes_def p1_def p2_def p3_def len)
  let ?q1 = "h_head h @ byte (length ?sid) # ?sid"
  let ?q2 = "?q1 @ enc16 (length ?cs) @ ?cs"
  let ?q3 = "?q2 @ byte (length ?cm) # ?cm"
  let ?q4 = "?q3 @ enc16 (length ?ex)"
  have q: "length ?q1 = p1" "length ?q2 = p2" "length ?q3 = p3" "length ?q4 = p3 + 2"
    by (simp_all add: p1_def p2_def p3_def len)
  have b1: "byte_at ?b 34 = Inr (length ?sid)"
    using len by (simp add: byte_at_def hello_bytes_def nth_append)
  have b2: "uint16_at ?b p1 = Inr (length ?cs)"
  proof -
    have "?b = ?q1 @ enc16 (length ?cs) @ ?cs @ byte (length ?cm) # ?cm @ enc16 (length ?ex) @ ?ex"
      by (simp add: hello_bytes_def)
    then have "drop p1 ?b = enc16 (length ?cs) @ ?cs @ byte (length ?cm) # ?cm @ enc16 (length ?ex) @ ?ex"
      using drop_prefix(1) [OF q(1) [symmetric]] by metis
    then show ?thesis using len L by (simp add: uint16_at_def p2_def p3_def)
  qed
  have b3: "byte_at ?b p2 = Inr (length ?cm)"
  proof -
    have "?b = ?q2 @ byte (length ?cm) # ?cm @ enc16 (length ?ex) @ ?ex"
      by (simp add: hello_bytes_def)
    then have "?b ! p2 = byte (length ?cm)" using q(2) by (metis nth_append_length)
    then show ?thesis using len L by (simp add: byte_at_def p3_def)
  qed
  have b4: "uint16_at ?b p3 = Inr (length ?ex)"
  proof -
    have "?b = ?q3 @ enc16 (length ?ex) @ ?ex" by (simp add: hello_bytes_def)
    then have "drop p3 ?b = enc16 (length ?ex) @ ?ex"
      using drop_prefix(1) [OF q(3) [symmetric]] by metis
    then show ?thesis using len L by (simp add: uint16_at_def)
  qed
  have b5: "ext_loop ?b (p3 + 2) (p3 + 2 + length ?ex) = ext_sni (h_exts h)"
    using ext_loop_encoded [OF sm q(4) [symmetric] refl, of "[]"] by (simp add: hello_bytes_def)
  have "34 + 1 \<le> length ?b" "34 \<le> length ?b" "p1 + 2 \<le> length ?b" "p2 + 1 \<le> length ?b" "p3 + 2 \<le> length ?b"
    by (simp_all add: L p1_def p2_def p3_def)
  then show ?thesis
    unfolding parseSNIFromClientHello_def Let_def b1 sum_bind_simps p1_def [symmetric] b2
      p2_def [symmetric] b3 p3_def [symmetric] b4
    using b5 by (simp add: L not_less)
qed

section \<open>Fragmentation\<close>

text \<open>A TLS record: a version of two bytes and a fragment.\<close>

definition tls_record :: "string \<times> string \<Rightarrow> string" where
  "tls_record r = byte 0x16 # fst r @ enc16 (length (snd r)) @ snd r"

definition record_ok :: "string \<times> string \<Rightarrow> bool" where
  "record_ok r \<longleftrightarrow> length (fst r) = 2 \<and> snd r \<noteq> [] \<and> length (snd r) < 65536"

definition handshake_bytes :: "string \<Rightarrow> string" where
  "handshake_bytes m =
     byte 1 # byte (length m div 65536) # enc16 (length m mod 65536) @ m"

lemma readRecord_record:
  assumes "record_ok r" and "no_error (ins_conn s)"
    and "pending (ins_conn s) = tls_record r @ q"
    and "length (ins_raw s @ tls_record r) \<le> maxClientHelloSize"
  obtains c where "readRecord s = Inr \<lparr>ins_conn = c, ins_raw = ins_raw s @ tls_record r,
      ins_handshake = ins_handshake s @ snd r\<rparr>" "pending c = q" "no_error c"
proof -
  let ?h = "byte 0x16 # fst r @ enc16 (length (snd r))"
  have r: "length (fst r) = 2" "length (snd r) < 65536" "snd r \<noteq> []"
    using assms(1) by (auto simp: record_ok_def)
  then have h: "length ?h = 5" "(of_char (?h ! 0) :: nat) = 0x16" "be16 (drop 3 ?h) = length (snd r)"
    by simp_all
  from assms(3) have "pending (ins_conn s) = ?h @ snd r @ q" by (simp add: tls_record_def)
  from ReadFull_enough [OF assms(2) this h(1)] obtain c1 where
    c1: "ReadFull 5 (ins_conn s) = (Inr ?h, c1)" "pending c1 = snd r @ q" "no_error c1" .
  from ReadFull_enough [OF c1(3,2) refl] obtain c2 where
    c2: "ReadFull (length (snd r)) c1 = (Inr (snd r), c2)" "pending c2 = q" "no_error c2" .
  have "\<not> length (ins_raw s) + 5 + length (snd r) > maxClientHelloSize"
    using assms(4) r by (simp add: tls_record_def)
  then have "readRecord s = Inr \<lparr>ins_conn = c2, ins_raw = ins_raw s @ tls_record r,
      ins_handshake = ins_handshake s @ snd r\<rparr>"
    unfolding readRecord_def c1(1) prod.case sum.case Let_def h c2(1) using h r
    by (simp add: tls_record_def)
  with c2 that show thesis by blast
qed

lemma read_until_records:
  "list_all record_ok rs \<Longrightarrow> no_error (ins_conn s) \<Longrightarrow>
   pending (ins_conn s) = concat (map tls_record rs) @ q \<Longrightarrow>
   length (ins_raw s @ concat (map tls_record rs)) \<le> maxClientHelloSize \<Longrightarrow>
   n \<le> length (ins_handshake s @ concat (map snd rs)) \<Longrightarrow>
   \<exists>t us vs. read_until n s = Inr t \<and> rs = us @ vs \<and> n \<le> length (ins_handshake t)
     \<and> ins_handshake t = ins_handshake s @ concat (map snd us)
     \<and> ins_raw t = ins_raw s @ concat (map tls_record us)
     \<and> pending (ins_conn t) = concat (map tls_record vs) @ q \<and> no_error (ins_conn t)"
proof (induction rs arbitrary: s)
  case Nil
  then show ?case by (intro exI [of _ s]) (simp add: read_until.simps)
next
  case (Cons r rs)
  show ?case
  proof (cases "length (ins_handshake s) < n")
    case False
    with Cons.prems show ?thesis
      by (intro exI [of _ s] exI [of _ "[]"] exI [of _ "r # rs"]) (simp add: read_until.simps)
  next
    case True
    from Cons.prems have "pending (ins_conn s) = tls_record r @ concat (map tls_record rs) @ q"
      "length (ins_raw s @ tls_record r) \<le> maxClientHelloSize" by auto
    from readRecord_record [OF _ Cons.prems(2) this] Cons.prems(1) obtain c where
      c: "readRecord s = Inr \<lparr>ins_conn = c, ins_raw = ins_raw s @ tls_record r,
        ins_handshake = ins_handshake s @ snd r\<rparr>"
        "pending c = concat (map tls_record rs) @ q" "no_error c" by auto
    let ?u = "\<lparr>ins_conn = c, ins_raw = ins_raw s @ tls_record r, ins_handshake = ins_handshake s @ snd r\<rparr>"
    from Cons.IH [of ?u] Cons.prems c obtain t us vs where
      t: "read_until n ?u = Inr t" "rs = us @ vs" "n \<le> length (ins_handshake t)"
        "ins_handshake t = ins_handshake ?u @ concat (map snd us)"
        "ins_raw t = ins_raw ?u @ concat (map tls_record us)"
        "pending (ins_conn t) = concat (map tls_record vs) @ q" "no_error (ins_conn t)" by auto
    have "read_until n s = Inr t" using True c(1) t(1) by (subst read_until.simps) simp
    with t show ?thesis by (intro exI [of _ t] exI [of _ "r # us"] exI [of _ vs]) simp
  qed
qed

lemma be24_value: "(k :: nat) div 65536 * 65536 + k mod 65536 div 256 * 256 + k mod 256 = k"
proof -
  have "k mod 65536 mod 256 = k mod 256" by (simp add: mod_mod_cancel)
  with div_mult_mod_eq [of k 65536] div_mult_mod_eq [of "k mod 65536" 256] show ?thesis by linarith
qed

lemma handshake_bytes_nth:
  assumes "length m < 16777216"
  shows "of_char (handshake_bytes m ! 0) = (1 :: nat)"
    and "of_char (handshake_bytes m ! 1) * 65536 + of_char (handshake_bytes m ! 2) * 256
      + of_char (handshake_bytes m ! 3) = length m"
    and "take (length m) (drop 4 (handshake_bytes m)) = m"
    and "length (handshake_bytes m) = 4 + length m"
proof -
  have "length m div 65536 < 256" using assms by (simp add: less_mult_imp_div_less)
  moreover have "length m mod 65536 div 256 < 256" by (simp add: less_mult_imp_div_less)
  moreover have "length m mod 65536 mod 256 = length m mod 256" by (simp add: mod_mod_cancel)
  ultimately show "of_char (handshake_bytes m ! 1) * 65536 + of_char (handshake_bytes m ! 2) * 256
      + of_char (handshake_bytes m ! 3) = length m"
    using be24_value [of "length m"]
    by (simp add: handshake_bytes_def enc16_def numeral_2_eq_2 numeral_3_eq_3)
qed (simp_all add: handshake_bytes_def enc16_def)

lemma handshake_prefix_nth:
  assumes "handshake_bytes m = h @ k" and "4 \<le> length h" and "i < 4"
  shows "byte_at h i = Inr (of_char (handshake_bytes m ! i))"
  using assms by (simp add: byte_at_def nth_append)

lemma ReadTLS_records:
  assumes "p (effective_timeout t) = Inr c" and "no_error c"
    and "pending c = concat (map tls_record rs) @ q" and "list_all record_ok rs"
    and "length (concat (map tls_record rs)) \<le> maxClientHelloSize"
    and "concat (map snd rs) = handshake_bytes m"
  shows "\<exists>c'. ReadTLSClientHelloSNI p t =
      (case parseSNIFromClientHello m of
         Inl e \<Rightarrow> Inl (e, concat (map tls_record rs))
       | Inr host \<Rightarrow> Inr (NormalizeSNIHost host, concat (map tls_record rs), c'))
     \<and> pending c' = q"
proof -
  let ?s0 = "start_inspect c"
  have mlen: "length m < maxClientHelloSize"
  proof -
    have "length (concat (map snd rs)) \<le> length (concat (map tls_record rs))"
      by (induction rs) (auto simp: tls_record_def)
    then show ?thesis using assms(5,6) by (simp add: handshake_bytes_def)
  qed
  then have m24: "length m < 16777216" by (simp add: maxClientHelloSize_def)
  note hs = handshake_bytes_nth [OF m24]
  obtain r rs' where rs: "rs = r # rs'" using assms(6) by (cases rs) (auto simp: handshake_bytes_def)
  obtain c1 where s1: "readRecord ?s0 = Inr \<lparr>ins_conn = c1, ins_raw = tls_record r, ins_handshake = snd r\<rparr>"
      "pending c1 = concat (map tls_record rs') @ q" "no_error c1"
    by (rule readRecord_record [of r ?s0 "concat (map tls_record rs') @ q"]) (use assms rs in auto)
  let ?s1 = "\<lparr>ins_conn = c1, ins_raw = tls_record r, ins_handshake = snd r\<rparr>"
  have total: "length (snd r) + length (concat (map snd rs')) = 4 + length m"
    using assms(6) hs(4) rs by (metis concat.simps(2) length_append list.simps(9))
  with read_until_records [of rs' ?s1 q 4] assms s1 rs obtain s2 us vs where
    s2: "read_until 4 ?s1 = Inr s2" "rs' = us @ vs" "4 \<le> length (ins_handshake s2)"
      "ins_handshake s2 = snd r @ concat (map snd us)"
      "ins_raw s2 = tls_record r @ concat (map tls_record us)"
      "pending (ins_conn s2) = concat (map tls_record vs) @ q" "no_error (ins_conn s2)" by auto
  have "handshake_bytes m = ins_handshake s2 @ concat (map snd vs)"
    using assms(6) rs s2(2,4) by simp
  note nth = handshake_prefix_nth [OF this s2(3)]
  from read_until_records [of vs s2 q "4 + length m"] assms s2 rs total obtain s3 us' vs' where
    s3: "read_until (4 + length m) s2 = Inr s3" "vs = us' @ vs'" "4 + length m \<le> length (ins_handshake s3)"
      "ins_handshake s3 = ins_handshake s2 @ concat (map snd us')"
      "ins_raw s3 = ins_raw s2 @ concat (map tls_record us')"
      "pending (ins_conn s3) = concat (map tls_record vs') @ q" by auto
  have eq: "handshake_bytes m = ins_handshake s3 @ concat (map snd vs')"
    using assms(6) rs s2(2,4) s3(2,4) by simp
  with s3(3) hs(4) have "concat (map snd vs') = []"
    by (metis add_le_same_cancel1 le_zero_eq length_0_conv length_append)
  moreover have "list_all record_ok vs'" using assms(4) rs s2(2) s3(2) by simp
  ultimately have "vs' = []" by (cases vs') (auto simp: record_ok_def)
  with eq s2 s3 rs have hs3: "ins_handshake s3 = handshake_bytes m"
    "ins_raw s3 = concat (map tls_record rs)" "pending (ins_conn s3) = q" by auto
  have sl: "slice (ins_handshake s3) 4 (4 + length m) = Inr m"
    unfolding slice_def hs3 using hs(3,4) by simp
  have "ReadTLSClientHelloSNI p t =
      (case parseSNIFromClientHello m of
         Inl e \<Rightarrow> Inl (e, ins_raw s3)
       | Inr host \<Rightarrow> Inr (NormalizeSNIHost host, ins_raw s3, ins_conn s3))"
    unfolding ReadTLSClientHelloSNI_def assms(1) sum.case s1(1)
      with_raw_simps sum_bind_simps s2(1) nth Let_def
    using hs mlen s3(1) sl
    by (simp add: nth split: sum.split)
  with hs3 show ?thesis by metis
qed

lemma ext_sni_append: "list_all (\<lambda>x. fst x \<noteq> 0) es \<Longrightarrow> ext_sni (es @ (0, d) # es') = parseServerNameExtension d"
  by (induction es) auto

section \<open>Properties\<close>

text \<open>A small ClientHello and its server_name extension, for the instances.\<close>

definition demo_names :: "(nat \<times> string) list" where
  "demo_names = [(1, ''x''), (0, ''Ex.com'')]"

definition demo_hello :: hello where
  "demo_hello = \<lparr>h_head = replicate 34 (byte 3), h_session = ''s'', h_ciphers = [byte 19, byte 1],
     h_compression = [byte 0], h_exts = [(10, ''g''), (0, server_names demo_names)]\<rparr>"

definition demo_records :: "(string \<times> string) list" where
  "demo_records = (let m = handshake_bytes (hello_bytes demo_hello); v = [byte 3, byte 1] in
     [(v, take 3 m), (v, drop 3 m)])"

definition demo_conn :: conn where
  "demo_conn = (let b = concat (map tls_record demo_records) in
     [(take 7 b, None), (drop 7 b @ ''data'', None)])"

lemma demo_hello_ok: "hello_ok demo_hello" "list_all (small 256) demo_names"
  "length (concat (map name_bytes demo_names)) < 65536"
  "h_exts demo_hello = [(10, ''g'')] @ (0, server_names demo_names) # []"
  by (simp_all add: hello_ok_def demo_hello_def small_def demo_names_def server_names_def
      name_bytes_def ext_bytes_def)

lemma demo_parse: "parseSNIFromClientHello (hello_bytes demo_hello) = Inr ''Ex.com''"
  using demo_hello_ok parse_hello_bytes [OF demo_hello_ok(1)] parseServerName_encoded [OF demo_hello_ok(2,3)]
  by (simp add: ext_sni_append demo_names_def)

lemma demo_records_ok:
  "concat (map snd demo_records) = handshake_bytes (hello_bytes demo_hello)"
  "length (concat (map tls_record demo_records)) \<le> maxClientHelloSize"
  "list_all record_ok demo_records"
proof -
  have l: "length (handshake_bytes (hello_bytes demo_hello)) < 200"
    "3 < length (handshake_bytes (hello_bytes demo_hello))"
    by (simp_all add: handshake_bytes_def hello_bytes_def demo_hello_def ext_bytes_def
        server_names_def demo_names_def name_bytes_def)
  then show "concat (map snd demo_records) = handshake_bytes (hello_bytes demo_hello)"
    "length (concat (map tls_record demo_records)) \<le> maxClientHelloSize"
    "list_all record_ok demo_records"
    by (auto simp: demo_records_def Let_def tls_record_def maxClientHelloSize_def record_ok_def)
qed

lemma demo_conn_ok: "pending demo_conn = concat (map tls_record demo_records) @ ''data''"
  "no_error demo_conn"
  by (simp_all only: demo_conn_def Let_def pending_simps no_error_simps append_take_drop_id
      append_assoc [symmetric] append_Nil2 simp_thms)

lemma demo_normal: "NormalizeSNIHost ''Ex.com'' = ''ex.com''"
  by code_simp

text \<open>C12: whatever bytes a peer sends as a ClientHello, parsing it never indexes or slices out
  of range: the gateway cannot be crashed by a malformed handshake.\<close>

theorem parseSNI_never_panics: "parseSNIFromClientHello b \<noteq> Inl IndexOutOfRange"
  by (rule parseSNI_in_range)

text \<open>C13: the server name of a well-formed ClientHello is found: with any extensions before
  and after it, the first server_name extension decides, and in it the first host_name entry.\<close>

theorem parseSNI_encoded:
  assumes "hello_ok h" and "h_exts h = es @ (0, server_names ns) # es'"
    and "list_all (\<lambda>x. fst x \<noteq> 0) es"
    and "list_all (small 256) ns" and "length (concat (map name_bytes ns)) < 65536"
  shows "parseSNIFromClientHello (hello_bytes h) = name_of ns"
  unfolding parse_hello_bytes [OF assms(1)] assms(2) ext_sni_append [OF assms(3)]
  by (rule parseServerName_encoded [OF assms(4,5)])

theorem parseSNI_encoded_witness:
  "parseSNIFromClientHello (hello_bytes demo_hello) = Inr ''Ex.com''"
  using parseSNI_encoded [OF demo_hello_ok(1,4) _ demo_hello_ok(2,3)] by (simp add: demo_names_def)

text \<open>C11: the SNI inspection is lossless: when it returns a name, the bytes it hands on for
  replay followed by what is left in the connection are exactly what the client sent; it kept at
  most 64 KB of them, and the name is in lower case.\<close>

theorem ReadTLSClientHelloSNI_lossless:
  assumes "p (effective_timeout t) = Inr c" and "ReadTLSClientHelloSNI p t = Inr (sni, raw, c')"
  shows "raw @ pending c' = pending c \<and> length raw \<le> maxClientHelloSize \<and> sni = ToLower sni"
  using assms by (rule ReadTLS_lossless)

theorem ReadTLSClientHelloSNI_lossless_witness:
  "case ReadTLSClientHelloSNI (\<lambda>_. Inr demo_conn) 0 of
     Inl e \<Rightarrow> False
   | Inr (sni, raw, c') \<Rightarrow> sni = ''ex.com'' \<and> raw @ pending c' = pending demo_conn"
proof -
  have "(\<lambda>_. Inr demo_conn) (effective_timeout 0) = (Inr demo_conn :: io_error + conn)" by simp
  from ReadTLS_records [OF this demo_conn_ok(2,1) demo_records_ok(3,2,1)] obtain c' where
    "ReadTLSClientHelloSNI (\<lambda>_. Inr demo_conn) 0 = Inr (''ex.com'', concat (map tls_record demo_records), c')"
    by (auto simp: demo_parse demo_normal)
  with ReadTLSClientHelloSNI_lossless [OF _ this] show ?thesis by simp
qed

text \<open>C10: fragmentation does not matter: a handshake message cut into any non-empty TLS
  records, arriving in any TCP segments, gives what parsing the whole message gives, and the
  reader stops exactly behind the last record.\<close>

theorem ReadTLSClientHelloSNI_fragments:
  assumes "p (effective_timeout t) = Inr c" and "no_error c"
    and "pending c = concat (map tls_record rs) @ q" and "list_all record_ok rs"
    and "length (concat (map tls_record rs)) \<le> maxClientHelloSize"
    and "concat (map snd rs) = handshake_bytes m"
  shows "\<exists>c'. ReadTLSClientHelloSNI p t =
      (case parseSNIFromClientHello m of
         Inl e \<Rightarrow> Inl (e, concat (map tls_record rs))
       | Inr host \<Rightarrow> Inr (NormalizeSNIHost host, concat (map tls_record rs), c'))
     \<and> pending c' = q"
  using assms by (rule ReadTLS_records)

theorem ReadTLSClientHelloSNI_fragments_witness:
  "\<exists>c'. ReadTLSClientHelloSNI (\<lambda>_. Inr demo_conn) 0
      = Inr (''ex.com'', concat (map tls_record demo_records), c') \<and> pending c' = ''data''"
  using ReadTLSClientHelloSNI_fragments [OF _ demo_conn_ok(2,1) demo_records_ok(3,2,1),
      of "\<lambda>_. Inr demo_conn" 0]
  by (simp add: demo_parse demo_normal)

end
