(* ===== verification/Http_Preread.thy ===== *)
theory Http_Preread
  imports Sni
begin

text \<open>
  \<^verbatim>\<open>internal/server/transport/http_preread.go\<close>: reading the header of a cleartext HTTP/1.x
  request in chunks and finding its host.  A Go \<^verbatim>\<open>error\<close> result is an option, \<open>None\<close> for
  \<^verbatim>\<open>nil\<close>.  The reader returns its result, every byte it read, and the connection behind them.
\<close>

section \<open>The program\<close>

datatype http_error =
  HReadErr io_error | HeaderTooLarge | MalformedRequestLine | UnsupportedHTTPVersion
| NoHostHeader | MultipleHostHeaders | EmptyHost | NonHTTPTraffic

definition defaultMaxHTTPHeaderBytes :: int where "defaultMaxHTTPHeaderBytes = 32 * 1024"
definition prereadChunkSize :: nat where "prereadChunkSize = 4096"

definition crlf :: string where "crlf = [CHR 0x0D, CHR 0x0A]"
definition httpHeaderTerminator :: string where "httpHeaderTerminator = crlf @ crlf"
definition hostHeaderName :: string where "hostHeaderName = ''host''"

definition rejectObviousNonHTTPPrefix :: "string \<Rightarrow> http_error option" where
  "rejectObviousNonHTTPPrefix buf =
     (if length buf = 0 then None else
      let b = (of_char (buf ! 0) :: nat) in
      if b \<in> {0x14, 0x15, 0x16, 0x17} then Some NonHTTPTraffic
      else if b < 0x20 \<or> b = 0x7f then Some NonHTTPTraffic
      else None)"

definition validateRequestLineBytes :: "string \<Rightarrow> http_error option" where
  "validateRequestLineBytes line =
     (case IndexByte line CHR '' '' of
        None \<Rightarrow> Some MalformedRequestLine
      | Some first \<Rightarrow>
          if first = 0 then Some MalformedRequestLine else
          let rest = drop (first + 1) line in
          (case IndexByte rest CHR '' '' of
             None \<Rightarrow> Some MalformedRequestLine
           | Some second \<Rightarrow>
               let target = take second rest; version = drop (second + 1) rest in
               if length target = 0 then Some MalformedRequestLine
               else if CHR '' '' \<in> set version then Some MalformedRequestLine
               else if version \<noteq> ''HTTP/1.0'' \<and> version \<noteq> ''HTTP/1.1''
               then Some UnsupportedHTTPVersion
               else None))"

definition NormalizeHTTPHost :: "string \<Rightarrow> string" where
  "NormalizeHTTPHost host =
     (let h = ToLower (TrimSpace host) in
      if h = [] then [] else
      let h = (case SplitHostPort h of Some (stripped, _) \<Rightarrow> stripped | None \<Rightarrow> h) in
      TrimSuffix h ''.'')"

text \<open>The loop over the header lines, with \<^verbatim>\<open>found\<close> and \<^verbatim>\<open>hostVal\<close>.\<close>

function scan_lines :: "string \<Rightarrow> nat \<Rightarrow> string \<Rightarrow> nat \<times> string" where
  "scan_lines rest found hostVal =
     (if rest = [] then (found, hostVal) else
      case Index rest crlf of
        None \<Rightarrow> (found, hostVal)
      | Some nl \<Rightarrow>
          let line = take nl rest; rest = drop (nl + length crlf) rest in
          if line = [] then (found, hostVal) else
          (case IndexByte line CHR '':'' of
             None \<Rightarrow> scan_lines rest found hostVal
           | Some colon \<Rightarrow>
               if EqualFold (TrimSpace (take colon line)) hostHeaderName
               then scan_lines rest (found + 1) (drop (colon + 1) line)
               else scan_lines rest found hostVal))"
  by pat_completeness auto
termination by (relation "measure (\<lambda>(rest, f, h). length rest)") (auto simp: crlf_def)

declare scan_lines.simps [simp del]

definition parseHTTPHostFromHeader :: "string \<Rightarrow> http_error + string" where
  "parseHTTPHostFromHeader b =
     (case Index b crlf of
        None \<Rightarrow> Inl MalformedRequestLine
      | Some lineEnd \<Rightarrow>
          if lineEnd = 0 then Inl MalformedRequestLine else
          (case validateRequestLineBytes (take lineEnd b) of
             Some err \<Rightarrow> Inl err
           | None \<Rightarrow>
               let (found, hostVal) = scan_lines (drop (lineEnd + length crlf) b) 0 [] in
               if found = 0 then Inl NoHostHeader
               else if found > 1 then Inl MultipleHostHeaders
               else
                 let host = NormalizeHTTPHost hostVal in
                 if host = [] then Inl EmptyHost else Inr host))"

text \<open>What the body of the loop does with the bytes read so far: return, or go on with the new
  value of \<^verbatim>\<open>requestLineChecked\<close>.\<close>

datatype scan = Return "http_error + string" | Continue bool

definition check_line :: "bool \<Rightarrow> string \<Rightarrow> http_error + bool" where
  "check_line checked buf =
     (if checked then Inr True else
      case Index buf crlf of
        None \<Rightarrow> Inr False
      | Some lineEnd \<Rightarrow>
          (case validateRequestLineBytes (take lineEnd buf) of
             Some err \<Rightarrow> Inl err | None \<Rightarrow> Inr True))"

definition inspect_buf :: "int \<Rightarrow> bool \<Rightarrow> string \<Rightarrow> scan" where
  "inspect_buf maxHeaderBytes checked buf =
     (case rejectObviousNonHTTPPrefix buf of
        Some err \<Rightarrow> Return (Inl err)
      | None \<Rightarrow>
          (case check_line checked buf of
             Inl err \<Rightarrow> Return (Inl err)
           | Inr checked \<Rightarrow>
               (case Index buf httpHeaderTerminator of
                  Some idx \<Rightarrow>
                    let headerEnd = idx + length httpHeaderTerminator in
                    if int headerEnd > maxHeaderBytes then Return (Inl HeaderTooLarge)
                    else Return (parseHTTPHostFromHeader (take headerEnd buf))
                | None \<Rightarrow>
                    if int (length buf) > maxHeaderBytes then Return (Inl HeaderTooLarge)
                    else Continue checked)))"

lemma Read_shrinks:
  assumes "Read k c = ((d, None), c')" and "0 < k"
  shows "length c' + length (pending c') < length c + length (pending c)"
  using assms by (auto simp: Read_def split: list.splits if_splits)

function preread_loop ::
  "int \<Rightarrow> bool \<Rightarrow> string \<Rightarrow> conn \<Rightarrow> (http_error + string) \<times> string \<times> conn" where
  "preread_loop maxHeaderBytes checked buf c =
     (case Read prereadChunkSize c of
        (r, c') \<Rightarrow>
          let buf = buf @ fst r;
              s = (if length (fst r) > 0 then inspect_buf maxHeaderBytes checked buf
                   else Continue checked) in
          (case s of
             Return res \<Rightarrow> (res, buf, c')
           | Continue checked \<Rightarrow>
               (case snd r of
                  Some e \<Rightarrow> (Inl (HReadErr e), buf, c')
                | None \<Rightarrow> preread_loop maxHeaderBytes checked buf c')))"
  by pat_completeness auto
termination
  by (relation "measure (\<lambda>(m, k, b, c). length c + length (pending c))")
    (auto dest!: Read_shrinks [OF sym] simp: prereadChunkSize_def)

declare preread_loop.simps [simp del]

definition effective_max :: "int \<Rightarrow> int" where
  "effective_max m = (if m \<le> 0 then defaultMaxHTTPHeaderBytes else m)"

definition ReadHTTPHost ::
  "peer \<Rightarrow> Duration \<Rightarrow> int \<Rightarrow> (http_error + string) \<times> string \<times> conn" where
  "ReadHTTPHost p timeout maxHeaderBytes =
     (case p (effective_timeout timeout) of
        Inl e \<Rightarrow> (Inl (HReadErr e), [], [])
      | Inr c \<Rightarrow> preread_loop (effective_max maxHeaderBytes) False [] c)"

end
