(* ===== verification/Http_Spec.thy ===== *)
theory Http_Spec
  imports Http_Preread
begin

text \<open>
  What \<^verbatim>\<open>http_preread.go\<close> promises: reading in chunks gives what parsing the whole header
  gives (\<open>http_host\<close>), no byte is lost, the memory is bounded, and a header has its host exactly
  when it has one Host line.
\<close>

section \<open>Nothing is lost and memory is bounded\<close>

lemma preread_step:
  assumes "Read prereadChunkSize c = ((d, e), c1)"
  shows "preread_loop m k buf c =
    (case (if length d > 0 then inspect_buf m k (buf @ d) else Continue k) of
       Return r \<Rightarrow> (r, buf @ d, c1)
     | Continue k \<Rightarrow>
         (case e of Some x \<Rightarrow> (Inl (HReadErr x), buf @ d, c1)
          | None \<Rightarrow> preread_loop m k (buf @ d) c1))"
  by (subst preread_loop.simps) (simp only: assms prod.case fst_conv snd_conv Let_def)

lemma preread_bytes:
  "preread_loop m k buf c = (r, b, c') \<Longrightarrow> b @ pending c' = buf @ pending c"
proof (induction m k buf c rule: preread_loop.induct)
  case (1 m k buf c)
  obtain d e c1 where rd: "Read prereadChunkSize c = ((d, e), c1)" by (metis prod.exhaust)
  from tcp.rd_bytes [OF _ rd] have p: "pending c = d @ pending c1" by simp
  let ?s = "if length d > 0 then inspect_buf m k (buf @ d) else Continue k"
  show ?case
  proof (cases ?s)
    case (Return x)
    with "1.prems" p show ?thesis unfolding preread_step [OF rd] by simp
  next
    case (Continue k')
    show ?thesis
    proof (cases e)
      case None
      with "1.prems" Continue have "preread_loop m k' (buf @ d) c1 = (r, b, c')"
        unfolding preread_step [OF rd] by simp
      with "1.IH" [of "(d, e)" c1 "buf @ d" ?s k'] rd Continue None p show ?thesis by simp
    next
      case (Some x)
      with "1.prems" Continue p show ?thesis
        unfolding preread_step [OF rd] by simp
    qed
  qed
qed

lemma inspect_Continue:
  assumes "inspect_buf m k buf = Continue k'"
  shows "rejectObviousNonHTTPPrefix buf = None" "check_line k buf = Inr k'"
    "Index buf httpHeaderTerminator = None" "int (length buf) \<le> m"
  using assms by (auto simp: inspect_buf_def Let_def split: option.splits sum.splits if_splits)

lemma preread_bound:
  "preread_loop m k buf c = (r, b, c') \<Longrightarrow> int (length buf) \<le> m \<Longrightarrow> int (length b) \<le> m + 4096"
proof (induction m k buf c rule: preread_loop.induct)
  case (1 m k buf c)
  obtain d e c1 where rd: "Read prereadChunkSize c = ((d, e), c1)" by (metis prod.exhaust)
  from tcp.rd_bound [OF _ rd] have p: "length d \<le> 4096" by (simp add: prereadChunkSize_def)
  let ?s = "if length d > 0 then inspect_buf m k (buf @ d) else Continue k"
  show ?case
  proof (cases ?s)
    case (Return x)
    with "1.prems" p show ?thesis unfolding preread_step [OF rd] by auto
  next
    case (Continue k')
    then have le: "int (length (buf @ d)) \<le> m"
      using "1.prems"(2) inspect_Continue(4) [of m k "buf @ d"] by (auto split: if_splits)
    show ?thesis
    proof (cases e)
      case None
      with "1.prems" Continue have "preread_loop m k' (buf @ d) c1 = (r, b, c')"
        unfolding preread_step [OF rd] by simp
      with "1.IH" [of "(d, e)" c1 "buf @ d" ?s k'] rd Continue None le show ?thesis by simp
    next
      case (Some x)
      with "1.prems" Continue p show ?thesis
        unfolding preread_step [OF rd] by auto
    qed
  qed
qed

section \<open>Chunks do not matter\<close>

text \<open>The host of a request, from all the bytes the client sends.\<close>

definition http_host :: "int \<Rightarrow> string \<Rightarrow> string option" where
  "http_host m data =
     (case Index data httpHeaderTerminator of
        None \<Rightarrow> None
      | Some i \<Rightarrow>
          if int (i + 4) > m \<or> rejectObviousNonHTTPPrefix data \<noteq> None then None else
          (case parseHTTPHostFromHeader (take (i + 4) data) of Inl _ \<Rightarrow> None | Inr h \<Rightarrow> Some h))"

lemma terminator_length [simp]: "length httpHeaderTerminator = 4" "length crlf = 2"
  by (simp_all add: httpHeaderTerminator_def crlf_def)

lemma reject_append: "buf \<noteq> [] \<Longrightarrow> rejectObviousNonHTTPPrefix (buf @ s) = rejectObviousNonHTTPPrefix buf"
  by (simp add: rejectObviousNonHTTPPrefix_def nth_append)

text \<open>The first line of a header ends before its terminator does.\<close>

lemma line_before_terminator:
  assumes "Index data httpHeaderTerminator = Some i" and "Index data crlf = Some l"
  shows "l \<le> i"
proof (rule ccontr)
  assume "\<not> l \<le> i"
  then have "take (length crlf) (drop i data) \<noteq> crlf"
    using Index_least [OF assms(2)] by (metis not_le)
  moreover have "take (length httpHeaderTerminator) (drop i data) = crlf @ crlf"
    using Index_Some [OF assms(1)] by (simp only: httpHeaderTerminator_def)
  then have "take 2 (take 4 (drop i data)) = crlf" unfolding terminator_length by (simp add: crlf_def)
  then have "take 2 (drop i data) = crlf" by simp
  ultimately show False by simp
qed

lemma http_host_bad_line:
  assumes "Index buf crlf = Some l" and "validateRequestLineBytes (take l buf) = Some e"
  shows "http_host m (buf @ s) = None"
proof (cases "Index (buf @ s) httpHeaderTerminator")
  case (Some i)
  have l: "Index (buf @ s) crlf = Some l" using Index_append_Some [OF assms(1)] .
  from line_before_terminator [OF Some l] have "l + 2 \<le> i + 4" "l \<le> i + 4" by simp_all
  then have "Index (take (i + 4) (buf @ s)) crlf = Some l" using Index_take [OF l] by simp
  moreover have "l + 2 \<le> length buf" using Index_Some [OF assms(1)] by simp
  then have "take l (take (i + 4) (buf @ s)) = take l buf"
    using \<open>l \<le> i + 4\<close> by (simp only: take_take min_absorb1 take_append) simp
  ultimately show ?thesis
    using assms(2) by (simp add: http_host_def Some parseHTTPHostFromHeader_def)
qed (simp add: http_host_def)

text \<open>One turn of the loop, against the rest of the input.\<close>

lemma inspect_Return:
  assumes "inspect_buf m k buf = Return r" and "buf \<noteq> []"
  shows "r = Inr h \<longleftrightarrow> http_host m (buf @ s) = Some h"
proof (cases "rejectObviousNonHTTPPrefix buf")
  case (Some e)
  with assms have "r = Inl e" by (simp add: inspect_buf_def)
  moreover have "http_host m (buf @ s) = None"
    using Some reject_append [OF assms(2)] by (simp add: http_host_def split: option.split)
  ultimately show ?thesis by simp
next
  case None
  show ?thesis
  proof (cases "check_line k buf")
    case (Inl e)
    then obtain l where "Index buf crlf = Some l" "validateRequestLineBytes (take l buf) = Some e"
      by (auto simp: check_line_def split: if_splits option.splits)
    then have "http_host m (buf @ s) = None" by (rule http_host_bad_line)
    moreover have "r = Inl e" using assms(1) None Inl by (simp add: inspect_buf_def)
    ultimately show ?thesis by simp
  next
    case (Inr k')
    show ?thesis
    proof (cases "Index buf httpHeaderTerminator")
      case (Some i)
      then have i: "Index (buf @ s) httpHeaderTerminator = Some i" by (rule Index_append_Some)
      have "i + 4 \<le> length buf" using Index_Some [OF Some] by simp
      then have "take (i + 4) (buf @ s) = take (i + 4) buf" by simp
      with assms i None Inr Some reject_append [OF assms(2), of s] show ?thesis
        by (auto simp: inspect_buf_def http_host_def Let_def split: if_splits sum.split)
    next
      case no: None
      with assms(1) None Inr have r: "r = Inl HeaderTooLarge" "m < int (length buf)"
        by (auto simp: inspect_buf_def split: if_splits)
      have "http_host m (buf @ s) = None"
      proof (cases "Index (buf @ s) httpHeaderTerminator")
        case (Some i)
        have "\<not> i + 4 \<le> length buf"
          using Index_take [OF Some, of "length buf"] no by auto
        with r(2) have "int (i + 4) > m" by simp
        then show ?thesis by (simp add: http_host_def Some)
      qed (simp add: http_host_def)
      with r show ?thesis by simp
    qed
  qed
qed

lemma http_host_unterminated: "Index data httpHeaderTerminator = None \<Longrightarrow> http_host m data = None"
  by (simp add: http_host_def)

lemma preread_spec:
  "no_error c \<Longrightarrow> Index buf httpHeaderTerminator = None \<Longrightarrow>
     fst (preread_loop m k buf c) = Inr h \<longleftrightarrow> http_host m (buf @ pending c) = Some h"
proof (induction m k buf c rule: preread_loop.induct)
  case (1 m k buf c)
  obtain d e c1 where rd: "Read prereadChunkSize c = ((d, e), c1)" by (metis prod.exhaust)
  from tcp.rd_bytes [OF _ rd] have p: "pending c = d @ pending c1" by simp
  from no_error_Read [OF "1.prems"(1) rd] have ne: "no_error c1" "e = None \<or> pending c = []" by auto
  let ?s = "if length d > 0 then inspect_buf m k (buf @ d) else Continue k"
  show ?case
  proof (cases ?s)
    case (Return r)
    then have d: "d \<noteq> []" "inspect_buf m k (buf @ d) = Return r" by (auto split: if_splits)
    from inspect_Return [OF d(2), of h "pending c1"] d(1)
    have "r = Inr h \<longleftrightarrow> http_host m (buf @ pending c) = Some h" by (simp add: p)
    moreover have "fst (preread_loop m k buf c) = r"
      unfolding preread_step [OF rd] Return by simp
    ultimately show ?thesis by simp
  next
    case (Continue k')
    have t: "Index (buf @ d) httpHeaderTerminator = None"
      using Continue "1.prems"(2) inspect_Continue(3) by (auto split: if_splits)
    show ?thesis
    proof (cases e)
      case None
      with Continue have "preread_loop m k buf c = preread_loop m k' (buf @ d) c1"
        unfolding preread_step [OF rd] by simp
      with "1.IH" [of "(d, e)" c1 "buf @ d" ?s k'] rd Continue None ne(1) t p show ?thesis by simp
    next
      case (Some x)
      with Continue have "fst (preread_loop m k buf c) = Inl (HReadErr x)"
        unfolding preread_step [OF rd] by simp
      moreover have "buf @ pending c = buf @ d" using ne(2) Some p by simp
      ultimately show ?thesis using http_host_unterminated [OF t] by simp
    qed
  qed
qed

text \<open>A first byte that cannot start a request line ends the inspection.\<close>

lemma preread_rejects:
  "no_error c \<Longrightarrow> pending c \<noteq> [] \<Longrightarrow> rejectObviousNonHTTPPrefix (pending c) = Some e \<Longrightarrow>
     fst (preread_loop m k [] c) = Inl e \<and> length (fst (snd (preread_loop m k [] c))) \<le> prereadChunkSize"
proof (induction c)
  case (Cons x c)
  obtain b y where x: "x = (b, y)" by (cases x)
  with Cons.prems have y: "y = None" by simp
  show ?case
  proof (cases "b = []")
    case True
    then have "preread_loop m k [] (x # c) = preread_loop m k [] c"
      by (subst preread_loop.simps) (simp add: Read_def x y Let_def)
    with Cons True x show ?thesis by simp
  next
    case False
    obtain d z c1 where rd: "Read prereadChunkSize (x # c) = ((d, z), c1)" by (metis prod.exhaust)
    from False rd have d: "d \<noteq> []" "length d \<le> prereadChunkSize" "pending (x # c) = d @ pending c1"
      using tcp.rd_bound [OF _ rd] tcp.rd_bytes [OF _ rd]
      by (auto simp: Read_def x prereadChunkSize_def split: if_splits)
    with Cons.prems(3) have "rejectObviousNonHTTPPrefix d = Some e"
      by (simp add: reject_append del: pending_simps)
    then have "inspect_buf m k d = Return (Inl e)" by (simp add: inspect_buf_def)
    then have "preread_loop m k [] (x # c) = (Inl e, d, c1)"
      using d(1) unfolding preread_step [OF rd] by simp
    with d(2) show ?thesis by simp
  qed
qed simp

section \<open>The Host line\<close>

text \<open>A header from its parts: the request line, the header lines, the blank line.\<close>

definition header_bytes :: "string \<Rightarrow> string list \<Rightarrow> string" where
  "header_bytes rl ls = rl @ crlf @ concat (map (\<lambda>l. l @ crlf) ls) @ crlf"

definition line_ok :: "string \<Rightarrow> bool" where
  "line_ok l \<longleftrightarrow> l \<noteq> [] \<and> Index l crlf = None"

text \<open>The value of a line, when its name is Host.\<close>

definition host_line :: "string \<Rightarrow> string option" where
  "host_line l = (case IndexByte l CHR '':'' of
     None \<Rightarrow> None
   | Some i \<Rightarrow> if EqualFold (TrimSpace (take i l)) ''host'' then Some (drop (i + 1) l) else None)"

fun host_values :: "string list \<Rightarrow> string list" where
  "host_values [] = []"
| "host_values (l # ls) =
     (case host_line l of None \<Rightarrow> host_values ls | Some v \<Rightarrow> v # host_values ls)"

lemma Index_line:
  assumes "Index l crlf = None"
  shows "Index (l @ crlf @ s) crlf = Some (length l)"
proof (rule Index_unique)
  fix j assume j: "j < length l"
  show "take (length crlf) (drop j (l @ crlf @ s)) \<noteq> crlf"
  proof (cases "j + 2 \<le> length l")
    case True
    then have "take (length crlf) (drop j (l @ crlf @ s)) = take (length crlf) (drop j l)" by simp
    then show ?thesis using Index_None [OF assms, of j] by argo
  next
    case False
    with j have "j = length l - 1" by simp
    with j have "(take (length crlf) (drop j (l @ crlf @ s))) ! 1 = CHR 0x0D"
      by (simp add: nth_append crlf_def)
    then show ?thesis by (auto simp: crlf_def)
  qed
qed simp

lemma scan_lines_encoded:
  "list_all line_ok ls \<Longrightarrow>
     scan_lines (concat (map (\<lambda>l. l @ crlf) ls) @ crlf) n v
       = (n + length (host_values ls), last (v # host_values ls))"
proof (induction ls arbitrary: n v)
  case Nil
  have "Index crlf crlf = Some 0" by (simp add: crlf_def)
  then show ?case by (subst scan_lines.simps) (simp add: Let_def crlf_def)
next
  case (Cons l ls)
  let ?r = "concat (map (\<lambda>l. l @ crlf) ls) @ crlf"
  have i: "Index (l @ crlf @ ?r) crlf = Some (length l)"
    by (rule Index_line) (use Cons.prems in \<open>simp add: line_ok_def\<close>)
  have "line_ok l" "list_all line_ok ls" using Cons.prems by simp_all
  then have ne: "l \<noteq> []" "list_all line_ok ls" unfolding line_ok_def by blast+
  have "scan_lines (l @ crlf @ ?r) n v =
      (case host_line l of None \<Rightarrow> scan_lines ?r n v | Some w \<Rightarrow> scan_lines ?r (n + 1) w)"
    using ne i by (subst scan_lines.simps) (simp add: Let_def host_line_def hostHeaderName_def split: option.split)
  then show ?case
    using Cons.IH [OF ne(2)] by (simp split: option.split)
qed

lemma parse_header_bytes:
  assumes "list_all line_ok (rl # ls)" and "validateRequestLineBytes rl = None"
  shows "parseHTTPHostFromHeader (header_bytes rl ls) =
    (case host_values ls of
       [] \<Rightarrow> Inl NoHostHeader
     | [v] \<Rightarrow> (if NormalizeHTTPHost v = [] then Inl EmptyHost else Inr (NormalizeHTTPHost v))
     | _ \<Rightarrow> Inl MultipleHostHeaders)"
proof -
  let ?r = "concat (map (\<lambda>l. l @ crlf) ls) @ crlf"
  have "line_ok rl" "list_all line_ok ls" using assms(1) by simp_all
  then have rl: "rl \<noteq> []" "Index (rl @ crlf @ ?r) crlf = Some (length rl)" "list_all line_ok ls"
    unfolding line_ok_def using Index_line by blast+
  have "scan_lines ?r 0 [] = (length (host_values ls), last ([] # host_values ls))"
    using scan_lines_encoded [OF rl(3), of 0 "[]"] by simp
  with rl assms(2) show ?thesis
    unfolding parseHTTPHostFromHeader_def header_bytes_def
    by (auto simp: Let_def split: list.split)
qed

lemma validateRequestLine_iff:
  "validateRequestLineBytes line = None \<longleftrightarrow>
     (\<exists>m t v. line = m @ '' '' @ t @ '' '' @ v \<and> m \<noteq> [] \<and> t \<noteq> [] \<and> CHR '' '' \<notin> set m
        \<and> CHR '' '' \<notin> set t \<and> v \<in> {''HTTP/1.0'', ''HTTP/1.1''})"
  (is "?l \<longleftrightarrow> ?r")
proof
  assume ?l
  then obtain i j where i: "IndexByte line CHR '' '' = Some i" "i \<noteq> 0"
    and j: "IndexByte (drop (i + 1) line) CHR '' '' = Some j"
      "take j (drop (i + 1) line) \<noteq> []" "drop (j + 1) (drop (i + 1) line) \<in> {''HTTP/1.0'', ''HTTP/1.1''}"
    by (auto simp: validateRequestLineBytes_def Let_def split: option.splits if_splits)
  have split: "s = take k s @ '' '' @ drop (k + 1) s \<and> CHR '' '' \<notin> set (take k s)"
    if "IndexByte s CHR '' '' = Some k" for s k
  proof -
    from that have c: "CHR '' '' \<in> set s" and k: "k = length (takeWhile (\<lambda>x. x \<noteq> CHR '' '') s)"
      by (auto simp: IndexByte_def split: if_splits)
    from split_at_first [OF c] obtain p q where s: "s = p @ CHR '' '' # q" "CHR '' '' \<notin> set p" by blast
    with k have "k = length p" by (simp add: takeWhile_append)
    with s show ?thesis by simp
  qed
  let ?rest = "drop (i + 1) line"
  have "line = take i line @ '' '' @ take j ?rest @ '' '' @ drop (j + 1) ?rest"
    using split [OF i(1)] split [OF j(1)] by metis
  moreover have "take i line \<noteq> []" using i by (auto simp: IndexByte_def split: if_splits)
  ultimately show ?r using split [OF i(1)] split [OF j(1)] j(2,3) by blast
next
  assume ?r
  then obtain m t v where "line = m @ CHR '' '' # t @ CHR '' '' # v" "m \<noteq> []" "t \<noteq> []"
    "CHR '' '' \<notin> set m" "CHR '' '' \<notin> set t" "v \<in> {''HTTP/1.0'', ''HTTP/1.1''}" by auto
  moreover from this have "IndexByte line CHR '' '' = Some (length m)"
    "IndexByte (t @ CHR '' '' # v) CHR '' '' = Some (length t)"
    by (auto simp: IndexByte_def takeWhile_append)
  ultimately show ?l by (auto simp: validateRequestLineBytes_def Let_def)
qed

section \<open>Host and port\<close>

lemma lower_char_eq:
  assumes "\<not> (97 \<le> (of_char d :: nat) \<and> (of_char d :: nat) \<le> 122)"
  shows "lower_char c = d \<longleftrightarrow> c = d \<and> \<not> (65 \<le> (of_char d :: nat) \<and> (of_char d :: nat) \<le> 90)"
proof (cases "65 \<le> (of_char c :: nat) \<and> (of_char c :: nat) \<le> 90")
  case True
  then have "(of_char (lower_char c) :: nat) = of_char c + 32"
    by (simp add: lower_char_def)
  with True assms show ?thesis by auto
qed (auto simp: lower_char_def)

lemma lower_colon [simp]: "lower_char c = CHR '':'' \<longleftrightarrow> c = CHR '':''"
  "lower_char c = CHR ''['' \<longleftrightarrow> c = CHR ''[''" "lower_char c = CHR '']'' \<longleftrightarrow> c = CHR '']''"
  by (subst lower_char_eq; simp)+

lemma ToLower_disjoint: "set h \<inter> {CHR '':'', CHR ''['', CHR '']''} = {} \<Longrightarrow>
    set (ToLower h) \<inter> {CHR '':'', CHR ''['', CHR '']''} = {}"
  by (auto simp: ToLower_def dest!: sym [of _ "lower_char _"])

lemma TrimSpace_host_port:
  assumes "TrimSpace h = h" and "list_all is_digit q" and "q \<noteq> []"
  shows "TrimSpace (h @ CHR '':'' # q) = h @ CHR '':'' # q"
proof (rule TrimSpace_id)
  have "is_digit (last q)" using assms(2,3) by (simp add: list_all_iff)
  then have "\<not> is_space (last q)" by (rule is_digit_not(1))
  moreover have "h = [] \<or> \<not> is_space (hd h)" using TrimSpace_ends [of h] assms(1) by metis
  ultimately show "h @ CHR '':'' # q = []
      \<or> \<not> is_space (hd (h @ CHR '':'' # q)) \<and> \<not> is_space (last (h @ CHR '':'' # q))"
    using assms(3) by (cases h) (auto simp: is_space_def)
qed

lemma digits_disjoint: "list_all is_digit q \<Longrightarrow> set q \<inter> {CHR '':'', CHR ''['', CHR '']''} = {}"
  by (auto simp: list_all_iff is_digit_def)

section \<open>Properties\<close>

abbreviation demo_request :: string where
  "demo_request \<equiv> header_bytes ''GET / HTTP/1.1'' [''A: b'', ''Host: Ex.com:80'']"

definition demo_http :: conn where
  "demo_http = [(take 9 demo_request, None), (drop 9 demo_request @ ''body'', None)]"

lemma demo_http_ok: "no_error demo_http" "pending demo_http = demo_request @ ''body''"
  "http_host (effective_max 0) (demo_request @ ''body'') = Some ''ex.com''"
proof -
  show "no_error demo_http" "pending demo_http = demo_request @ ''body''"
    by (simp_all only: demo_http_def pending_simps no_error_simps append_take_drop_id
        append_assoc [symmetric] append_Nil2 simp_thms)
  have "Index (demo_request @ ''body'') httpHeaderTerminator = Some (length demo_request - 4)"
    "rejectObviousNonHTTPPrefix (demo_request @ ''body'') = None"
    by code_simp+
  moreover have "parseHTTPHostFromHeader demo_request = Inr ''ex.com''" by code_simp
  moreover have "length demo_request = 41" by (simp add: header_bytes_def crlf_def)
  ultimately show "http_host (effective_max 0) (demo_request @ ''body'') = Some ''ex.com''"
    by (simp add: http_host_def effective_max_def defaultMaxHTTPHeaderBytes_def)
qed

text \<open>C15: the HTTP inspection is lossless and bounded, on success and on every error: the
  bytes it returns followed by what is left in the connection are what the client sent, body
  bytes read ahead included, and it never holds more than the limit and one chunk.\<close>

theorem ReadHTTPHost_lossless:
  assumes "p (effective_timeout t) = Inr c" and "ReadHTTPHost p t m = (r, b, c')"
  shows "b @ pending c' = pending c \<and> int (length b) \<le> effective_max m + 4096"
proof -
  have "preread_loop (effective_max m) False [] c = (r, b, c')"
    using assms by (simp add: ReadHTTPHost_def)
  moreover have "0 \<le> effective_max m" by (simp add: effective_max_def defaultMaxHTTPHeaderBytes_def)
  ultimately show ?thesis using preread_bytes preread_bound by fastforce
qed

theorem ReadHTTPHost_lossless_witness:
  "case ReadHTTPHost (\<lambda>_. Inr demo_http) 0 0 of (r, b, c') \<Rightarrow>
     b @ pending c' = demo_request @ ''body'' \<and> int (length b) \<le> 36864"
  using ReadHTTPHost_lossless [of "\<lambda>_. Inr demo_http" 0 demo_http 0] demo_http_ok(2)
  by (cases "ReadHTTPHost (\<lambda>_. Inr demo_http) 0 0")
    (auto simp: effective_max_def defaultMaxHTTPHeaderBytes_def)

text \<open>C14: reading in chunks is equivalent to looking at the whole request: on a peer that does
  not fail, however its bytes are segmented, the host returned is the one \<open>http_host\<close> finds in
  all of them, and none is returned where it finds none.\<close>

theorem ReadHTTPHost_chunks:
  assumes "p (effective_timeout t) = Inr c" and "no_error c"
  shows "fst (ReadHTTPHost p t m) = Inr h \<longleftrightarrow> http_host (effective_max m) (pending c) = Some h"
  using assms preread_spec [of c "[]" "effective_max m" False h]
  by (simp add: ReadHTTPHost_def httpHeaderTerminator_def crlf_def)

theorem ReadHTTPHost_chunks_witness: "fst (ReadHTTPHost (\<lambda>_. Inr demo_http) 0 0) = Inr ''ex.com''"
  using ReadHTTPHost_chunks [of "\<lambda>_. Inr demo_http" 0 demo_http 0 "''ex.com''"] demo_http_ok by simp

text \<open>Which header has a host: with a valid request line, exactly the headers with one
  Host line (its name in any case) whose value does not normalise to the empty text; two Host
  lines are refused, so that no backend can be reached under a second name.\<close>

theorem parseHTTPHost_one_host:
  assumes "list_all line_ok (rl # ls)" and "validateRequestLineBytes rl = None"
  shows "parseHTTPHostFromHeader (header_bytes rl ls) =
    (case host_values ls of
       [] \<Rightarrow> Inl NoHostHeader
     | [v] \<Rightarrow> (if NormalizeHTTPHost v = [] then Inl EmptyHost else Inr (NormalizeHTTPHost v))
     | _ \<Rightarrow> Inl MultipleHostHeaders)"
  using assms by (rule parse_header_bytes)

theorem parseHTTPHost_one_host_witness:
  "parseHTTPHostFromHeader (header_bytes ''GET / HTTP/1.1'' [''Host: a'', ''HOST: b'']) = Inl MultipleHostHeaders"
proof -
  have "list_all line_ok [''GET / HTTP/1.1'', ''Host: a'', ''HOST: b'']"
    "validateRequestLineBytes ''GET / HTTP/1.1'' = None"
    "host_values [''Host: a'', ''HOST: b''] = ['' a'', '' b'']" by code_simp+
  then show ?thesis using parseHTTPHost_one_host [of "''GET / HTTP/1.1''" "[''Host: a'', ''HOST: b'']"] by simp
qed

text \<open>A request line is accepted exactly if it is a method, a target and the version
  HTTP/1.0 or HTTP/1.1, separated by single spaces; the preface of HTTP/2 is refused.\<close>

theorem validateRequestLine_spec:
  "validateRequestLineBytes line = None \<longleftrightarrow>
     (\<exists>m t v. line = m @ '' '' @ t @ '' '' @ v \<and> m \<noteq> [] \<and> t \<noteq> [] \<and> CHR '' '' \<notin> set m
        \<and> CHR '' '' \<notin> set t \<and> v \<in> {''HTTP/1.0'', ''HTTP/1.1''})"
  by (rule validateRequestLine_iff)

text \<open>A client whose first byte cannot start a request (a TLS record, a control byte) is
  refused on its first bytes, after at most one chunk, however large the header limit.\<close>

theorem ReadHTTPHost_rejects_tls:
  assumes "p (effective_timeout t) = Inr c" and "no_error c" and "pending c \<noteq> []"
    and "rejectObviousNonHTTPPrefix (pending c) = Some e"
  shows "fst (ReadHTTPHost p t m) = Inl e \<and> length (fst (snd (ReadHTTPHost p t m))) \<le> prereadChunkSize"
  using assms preread_rejects by (simp add: ReadHTTPHost_def)

theorem ReadHTTPHost_rejects_tls_witness:
  "fst (ReadHTTPHost (\<lambda>_. Inr [([], None), ([CHR 0x16, CHR 0x03], None)]) 0 0) = Inl NonHTTPTraffic"
  using ReadHTTPHost_rejects_tls [of "\<lambda>_. Inr [([], None), ([CHR 0x16, CHR 0x03], None)]" 0
      "[([], None), ([CHR 0x16, CHR 0x03], None)]" NonHTTPTraffic 0]
  by (simp add: rejectObviousNonHTTPPrefix_def)

text \<open>Routing ignores the port: a host name with a decimal port normalises as the name
  alone does.\<close>

theorem NormalizeHTTPHost_port:
  assumes "TrimSpace h = h" and "set h \<inter> {CHR '':'', CHR ''['', CHR '']''} = {}"
    and "list_all is_digit q" and "q \<noteq> []"
  shows "NormalizeHTTPHost (h @ '':'' @ q) = NormalizeHTTPHost h"
proof -
  have "SplitHostPort (ToLower h @ CHR '':'' # q) = Some (ToLower h, q)"
    by (rule SplitHostPort_plain [OF ToLower_disjoint [OF assms(2)] digits_disjoint [OF assms(3)]])
  moreover have "ToLower (CHR '':'' # q) = CHR '':'' # q"
    using digits_ToLower [OF assms(3)] by (simp add: ToLower_def)
  moreover have "SplitHostPort (ToLower h) = None"
    using ToLower_disjoint [OF assms(2)] by (intro SplitHostPort_no_colon) auto
  ultimately show ?thesis
    using TrimSpace_host_port [OF assms(1,3,4)] assms(1)
    by (auto simp: NormalizeHTTPHost_def Let_def TrimSuffix_def HasSuffix_def)
qed

theorem NormalizeHTTPHost_port_witness: "NormalizeHTTPHost ''Ex.com:80'' = NormalizeHTTPHost ''Ex.com''"
  using NormalizeHTTPHost_port [of "''Ex.com''" "''80''"]
  by (simp add: TrimSpace_def is_space_def is_digit_def)

text \<open>An IPv6 literal is not normalised uniformly: with a port the brackets go, without
  one they stay, so that one host has two routing keys.\<close>

theorem NormalizeHTTPHost_ipv6:
  "NormalizeHTTPHost ''[::1]:80'' = ''::1'' \<and> NormalizeHTTPHost ''[::1]'' = ''[::1]''"
  by code_simp

end
