(* ===== verification/Prefixed_Conn.thy ===== *)
theory Prefixed_Conn
  imports Conn
begin

text \<open>
  \<^verbatim>\<open>internal/server/transport/prefixed_conn.go\<close>: a connection that first replays bytes that
  were already read.  \<open>net_conn\<close> is the \<^verbatim>\<open>net.Conn\<close> the constructor returns.
\<close>

record PrefixedConn =
  pc_Conn :: conn
  pc_prefix :: string
  pc_off :: nat

datatype net_conn = RawConn conn | Prefixed PrefixedConn

definition NewPrefixedConn :: "conn \<Rightarrow> string \<Rightarrow> net_conn" where
  "NewPrefixedConn c p =
     (if length p = 0 then RawConn c
      else Prefixed \<lparr>pc_Conn = c, pc_prefix = p, pc_off = 0\<rparr>)"

definition PrefixedConn_Read :: "nat \<Rightarrow> PrefixedConn \<Rightarrow> read_result \<times> PrefixedConn" where
  "PrefixedConn_Read k p =
     (if 0 < length (pc_prefix p) then
        (let b = take k (drop (pc_off p) (pc_prefix p));
             p = p\<lparr>pc_off := pc_off p + length b\<rparr> in
         ((b, None), if length (pc_prefix p) \<le> pc_off p then p\<lparr>pc_prefix := [], pc_off := 0\<rparr> else p))
      else (let (r, c) = Read k (pc_Conn p) in (r, p\<lparr>pc_Conn := c\<rparr>)))"

fun net_Read :: "nat \<Rightarrow> net_conn \<Rightarrow> read_result \<times> net_conn" where
  "net_Read k (RawConn c) = (let (r, c) = Read k c in (r, RawConn c))"
| "net_Read k (Prefixed p) = (let (r, p) = PrefixedConn_Read k p in (r, Prefixed p))"

text \<open>The bytes the reader of the connection will still receive, and the offset invariant:
  the slice expression of \<^verbatim>\<open>Read\<close> stays within the prefix.\<close>

fun net_pending :: "net_conn \<Rightarrow> string" where
  "net_pending (RawConn c) = pending c"
| "net_pending (Prefixed p) = drop (pc_off p) (pc_prefix p) @ pending (pc_Conn p)"

fun net_inv :: "net_conn \<Rightarrow> bool" where
  "net_inv (RawConn c) = True"
| "net_inv (Prefixed p) = (pc_prefix p = [] \<or> pc_off p < length (pc_prefix p))"

lemma New_inv [simp]: "net_inv (NewPrefixedConn c p)" "net_pending (NewPrefixedConn c p) = p @ pending c"
  by (simp_all add: NewPrefixedConn_def)

lemma PrefixedConn_Read_step:
  assumes "PrefixedConn_Read k p = ((d, e), p')" and "pc_prefix p = [] \<or> pc_off p < length (pc_prefix p)"
  shows "drop (pc_off p) (pc_prefix p) @ pending (pc_Conn p)
      = d @ drop (pc_off p') (pc_prefix p') @ pending (pc_Conn p')"
    and "length d \<le> k"
    and "pc_prefix p' = [] \<or> pc_off p' < length (pc_prefix p')"
proof -
  show "drop (pc_off p) (pc_prefix p) @ pending (pc_Conn p)
      = d @ drop (pc_off p') (pc_prefix p') @ pending (pc_Conn p')"
  proof (cases "pc_prefix p = []")
    case True
    then obtain c where "Read k (pc_Conn p) = ((d, e), c)" "p' = p\<lparr>pc_Conn := c\<rparr>"
      using assms(1) by (auto simp: PrefixedConn_Read_def split: prod.splits)
    with True tcp.rd_bytes show ?thesis by simp
  next
    case False
    with assms(1) have d: "d = take k (drop (pc_off p) (pc_prefix p))"
      by (auto simp: PrefixedConn_Read_def Let_def)
    show ?thesis
    proof (cases "length (pc_prefix p) \<le> pc_off p + length d")
      case True
      with assms(1) False d have "p' = p\<lparr>pc_prefix := [], pc_off := 0\<rparr>"
        by (auto simp: PrefixedConn_Read_def Let_def)
      moreover have "d = drop (pc_off p) (pc_prefix p)" using True d by auto
      ultimately show ?thesis by simp
    next
      case more: False
      with assms(1) False d have "p' = p\<lparr>pc_off := pc_off p + length d\<rparr>"
        by (auto simp: PrefixedConn_Read_def Let_def)
      moreover have "drop (pc_off p) (pc_prefix p) = d @ drop (pc_off p + length d) (pc_prefix p)"
        using d by (metis add.commute append_take_drop_id drop_drop length_take min.cobounded2
            append_eq_conv_conj)
      ultimately show ?thesis by simp
    qed
  qed
  show "length d \<le> k"
    using assms(1) tcp.rd_bound by (auto simp: PrefixedConn_Read_def Let_def split: if_splits prod.splits)
  show "pc_prefix p' = [] \<or> pc_off p' < length (pc_prefix p')"
    using assms by (auto simp: PrefixedConn_Read_def Let_def split: if_splits prod.splits)
qed

text \<open>The replaying connection keeps the contract of a reader.\<close>

interpretation net: byte_reader net_Read net_pending net_inv
proof
  fix s s' :: net_conn and k d e
  assume "net_inv s" "net_Read k s = ((d, e), s')"
  then show "net_pending s = d @ net_pending s'" "length d \<le> k" "net_inv s'"
    using PrefixedConn_Read_step tcp.rd_bytes tcp.rd_bound
    by (cases s; auto split: prod.splits)+
qed

text \<open>While replayed bytes are left, a read returns some of them and no error.\<close>

lemma Prefixed_progress:
  assumes "net_Read k (Prefixed p) = ((d, e), s')" and "pc_prefix p \<noteq> []"
    and "pc_off p < length (pc_prefix p)" and "0 < k"
  shows "e = None \<and> 0 < length d \<and> (\<exists>p'. s' = Prefixed p'
    \<and> length (drop (pc_off p) (pc_prefix p)) = length d + length (drop (pc_off p') (pc_prefix p'))
    \<and> (pc_prefix p' = [] \<or> pc_off p' < length (pc_prefix p')))"
  using assms by (auto simp: PrefixedConn_Read_def Let_def min_def split: if_splits)

lemma reads_replay:
  assumes "pc_prefix p = [] \<or> pc_off p < length (pc_prefix p)" and "0 \<notin> set ks"
    and "length (drop (pc_off p) (pc_prefix p)) \<le> length ks"
  shows "length (drop (pc_off p) (pc_prefix p)) \<le> length (delivered (fst (reads net_Read ks (Prefixed p))))"
  using assms
proof (induction ks arbitrary: p)
  case (Cons k ks)
  show ?case
  proof (cases "pc_prefix p = []")
    case False
    obtain d e s' where r: "net_Read k (Prefixed p) = ((d, e), s')" by (metis prod.exhaust)
    with Prefixed_progress [OF r False] Cons.prems False obtain p' where p': "0 < length d"
      "s' = Prefixed p'" "pc_prefix p' = [] \<or> pc_off p' < length (pc_prefix p')"
      "length (drop (pc_off p) (pc_prefix p)) = length d + length (drop (pc_off p') (pc_prefix p'))"
      by auto
    moreover have "length (drop (pc_off p') (pc_prefix p')) \<le> length ks"
      using p'(1,4) Cons.prems(3) by (cases d) auto
    moreover from Cons.IH [OF p'(3) _ this] Cons.prems(2)
    have "length (drop (pc_off p') (pc_prefix p'))
        \<le> length (delivered (fst (reads net_Read ks (Prefixed p'))))" by simp
    ultimately show ?thesis by (auto simp: r simp del: net_Read.simps split: prod.splits)
  qed simp
qed simp

section \<open>Properties\<close>

text \<open>C16: no sequence of reads, whatever its buffer sizes, loses, repeats or reorders a byte:
  what was delivered followed by what is still to come is the inspected prefix followed by the
  rest of the original connection.\<close>

theorem PrefixedConn_stream:
  "delivered (fst (reads net_Read ks (NewPrefixedConn c p)))
     @ net_pending (snd (reads net_Read ks (NewPrefixedConn c p))) = p @ pending c"
  using net.reads_bytes [of "NewPrefixedConn c p" ks] by (cases "reads net_Read ks (NewPrefixedConn c p)") simp

text \<open>The replay makes progress: as many non-empty reads as there are inspected bytes
  deliver all of them, before anything of the connection itself is needed.\<close>

theorem PrefixedConn_replays:
  assumes "0 \<notin> set ks" and "length p \<le> length ks"
  shows "take (length p) (delivered (fst (reads net_Read ks (NewPrefixedConn c p)))) = p"
proof (cases "p = []")
  case False
  let ?r = "reads net_Read ks (NewPrefixedConn c p)"
  have "length p \<le> length (delivered (fst ?r))"
    using reads_replay [of "\<lparr>pc_Conn = c, pc_prefix = p, pc_off = 0\<rparr>" ks] assms False
    by (simp add: NewPrefixedConn_def)
  moreover have "delivered (fst ?r) @ net_pending (snd ?r) = p @ pending c"
    using net.reads_bytes [of "NewPrefixedConn c p" ks] by (cases ?r) simp
  ultimately show ?thesis by (metis append_eq_append_conv_if append_eq_conv_conj)
qed simp

theorem PrefixedConn_replays_witness:
  "take 3 (delivered (fst (reads net_Read [2, 2, 2] (NewPrefixedConn [(''def'', None)] ''abc'')))) = ''abc''"
  using PrefixedConn_replays [of "[2, 2, 2]" "''abc''" "[(''def'', None)]"]
  by (simp add: eval_nat_numeral del: reads.simps)

end
