(* ===== verification/Inbound.thy ===== *)
theory Inbound
  imports Prefixed_Conn "HOL-Library.Multiset"
begin

text \<open>
  What the server runtimes share (\<^verbatim>\<open>internal/server/transport/shared.go\<close>, \<^verbatim>\<open>registry.go\<close>):
  buffered Go channels, the queued local connection, and the interface \<^verbatim>\<open>InboundTarget\<close> as the
  locale \<open>inbound_target\<close>, whose client lemmas are those of the gateways and listeners.
\<close>

section \<open>Channels\<close>

record 'a chan =
  ch_buf :: "'a list"
  ch_cap :: nat

definition make_chan :: "nat \<Rightarrow> 'a chan" where
  "make_chan n = \<lparr>ch_buf = [], ch_cap = n\<rparr>"

lemma make_chan_simps [simp]: "ch_buf (make_chan n) = []" "ch_cap (make_chan n) = n"
  by (simp_all add: make_chan_def)

text \<open>\<^verbatim>\<open>select { case c <- x: ... default: ... }\<close> and the ready case of \<^verbatim>\<open><-c\<close>.\<close>

definition try_send :: "'a \<Rightarrow> 'a chan \<Rightarrow> bool \<times> 'a chan" where
  "try_send x c =
     (if length (ch_buf c) < ch_cap c then (True, c\<lparr>ch_buf := ch_buf c @ [x]\<rparr>) else (False, c))"

definition try_recv :: "'a chan \<Rightarrow> ('a \<times> 'a chan) option" where
  "try_recv c = (case ch_buf c of [] \<Rightarrow> None | x # xs \<Rightarrow> Some (x, c\<lparr>ch_buf := xs\<rparr>))"

datatype 'a chan_op = SendOp 'a | RecvOp

text \<open>A run of operations: what was accepted, what was received, the channel afterwards.\<close>

fun run_ops :: "('a \<Rightarrow> 'c \<Rightarrow> bool \<times> 'c) \<Rightarrow> ('c \<Rightarrow> ('a \<times> 'c) option) \<Rightarrow> 'a chan_op list \<Rightarrow> 'c
    \<Rightarrow> 'a list \<times> 'a list \<times> 'c" where
  "run_ops snd' rcv [] c = ([], [], c)"
| "run_ops snd' rcv (SendOp x # ops) c =
     (case snd' x c of (ok, c) \<Rightarrow> case run_ops snd' rcv ops c of (a, r, c) \<Rightarrow>
        (if ok then x # a else a, r, c))"
| "run_ops snd' rcv (RecvOp # ops) c =
     (case rcv c of
        None \<Rightarrow> run_ops snd' rcv ops c
      | Some (x, c) \<Rightarrow> (case run_ops snd' rcv ops c of (a, r, c) \<Rightarrow> (a, x # r, c)))"

locale fifo_channel =
  fixes snd' :: "'a \<Rightarrow> 'c \<Rightarrow> bool \<times> 'c" and rcv :: "'c \<Rightarrow> ('a \<times> 'c) option"
    and contents :: "'c \<Rightarrow> 'a list" and cap :: "'c \<Rightarrow> nat"
  assumes send_ok: "snd' x c = (True, d) \<Longrightarrow> contents d = contents c @ [x] \<and> length (contents d) \<le> cap c"
    and send_full: "snd' x c = (False, d) \<Longrightarrow> d = c \<and> cap c \<le> length (contents c)"
    and recv_some: "rcv c = Some (x, d) \<Longrightarrow> contents c = x # contents d"
    and recv_none: "rcv c = None \<Longrightarrow> contents c = []"
begin

text \<open>Nothing is lost, duplicated or reordered between the two ends.\<close>

lemma run_fifo: "run_ops snd' rcv ops c = (a, r, d) \<Longrightarrow> contents c @ a = r @ contents d"
proof (induction ops arbitrary: c a r)
  case (Cons op ops)
  show ?case
  proof (cases op)
    case (SendOp x)
    obtain ok c1 a1 r1 d1 where s: "snd' x c = (ok, c1)" "run_ops snd' rcv ops c1 = (a1, r1, d1)"
      by (metis prod.exhaust)
    with Cons SendOp show ?thesis using send_ok send_full by (cases ok) fastforce+
  next
    case RecvOp
    with Cons recv_some recv_none show ?thesis
      by (auto split: option.splits prod.splits) fastforce
  qed
qed simp

end

interpretation go_chan: fifo_channel try_send try_recv ch_buf ch_cap
  by unfold_locales (auto simp: try_send_def try_recv_def split: list.splits if_splits)

text \<open>A channel of a given capacity keeps it.\<close>

definition chan_ok :: "nat \<Rightarrow> 'a chan \<Rightarrow> bool" where
  "chan_ok n c \<longleftrightarrow> ch_cap c = n \<and> length (ch_buf c) \<le> n"

named_theorems chan \<open>channel operations keep the capacity\<close>

lemma chan_ok_make [chan]: "chan_ok n (make_chan n)"
  by (simp add: chan_ok_def make_chan_def)

lemma chan_ok_send [chan]: "try_send x c = (ok, d) \<Longrightarrow> chan_ok n c \<Longrightarrow> chan_ok n d"
  by (auto simp: try_send_def chan_ok_def split: if_splits)

lemma chan_ok_recv [chan]: "try_recv c = Some (x, d) \<Longrightarrow> chan_ok n c \<Longrightarrow> chan_ok n d"
  by (auto simp: try_recv_def chan_ok_def split: list.splits)

section \<open>Local connections\<close>

record socket =
  sk_id :: nat
  sk_in :: net_conn
  sk_port :: "int option"

record LocalTCPConn =
  lc_conn :: socket
  lc_remoteAddr :: string
  lc_timeCreated :: int
  lc_reportPort :: int

definition usagePort :: "LocalTCPConn \<Rightarrow> int" where
  "usagePort l =
     (if lc_reportPort l > 0 then lc_reportPort l
      else case sk_port (lc_conn l) of Some p \<Rightarrow> p | None \<Rightarrow> 0)"

section \<open>The interface of a runtime\<close>

text \<open>Offering connections one after the other: the accepted ones, the refused ones, the
  runtime afterwards.  An offer is the moment, the connection, its target and report port.\<close>

type_synonym offer = "int \<times> socket \<times> string \<times> int"

definition local_of :: "offer \<Rightarrow> LocalTCPConn" where
  "local_of q = (case q of (now, c, target, port) \<Rightarrow>
     \<lparr>lc_conn = c, lc_remoteAddr = target, lc_timeCreated = now, lc_reportPort = port\<rparr>)"

fun offer_all :: "(offer \<Rightarrow> 's \<Rightarrow> bool \<times> 's) \<Rightarrow> offer list \<Rightarrow> 's \<Rightarrow> offer list \<times> offer list \<times> 's" where
  "offer_all enq [] s = ([], [], s)"
| "offer_all enq (q # qs) s =
     (case enq q s of (ok, s) \<Rightarrow> case offer_all enq qs s of (a, r, s) \<Rightarrow>
        (if ok then (q # a, r, s) else (a, q # r, s)))"

locale inbound_target =
  fixes isReady :: "'s \<Rightarrow> bool" and enqueue :: "offer \<Rightarrow> 's \<Rightarrow> bool \<times> 's"
    and queue :: "'s \<Rightarrow> LocalTCPConn list" and bound :: "'s \<Rightarrow> nat"
  assumes accepts: "enqueue q s = (True, t) \<Longrightarrow> isReady s \<and> queue t = queue s @ [local_of q]"
    and refuses: "enqueue q s = (False, t) \<Longrightarrow> t = s \<and> (\<not> isReady s \<or> bound s \<le> length (queue s))"
    and keeps: "enqueue q s = (ok, t) \<Longrightarrow> isReady t = isReady s \<and> bound t = bound s
      \<and> (length (queue s) \<le> bound s \<longrightarrow> length (queue t) \<le> bound t)"
begin

text \<open>A ready runtime with room takes the connection.\<close>

lemma room: "isReady s \<Longrightarrow> length (queue s) < bound s \<Longrightarrow> fst (enqueue q s)"
  using refuses [of q s "snd (enqueue q s)"] by (metis not_le prod.collapse)

text \<open>Every offered connection is queued once, in order, or refused, never both and never
  neither; a runtime that is not ready refuses all.\<close>

lemma offers_split: "offer_all enqueue qs s = (a, r, t) \<Longrightarrow>
    queue t = queue s @ map local_of a \<and> mset a + mset r = mset qs
    \<and> (\<not> isReady s \<longrightarrow> a = []) \<and> isReady t = isReady s
    \<and> (length (queue s) \<le> bound s \<longrightarrow> length (queue t) \<le> bound s)"
proof (induction qs arbitrary: s a r t)
  case (Cons q qs)
  obtain ok s1 a1 r1 t1 where e: "enqueue q s = (ok, s1)" "offer_all enqueue qs s1 = (a1, r1, t1)"
    by (metis prod.exhaust)
  note IH = Cons.IH [OF e(2)] and K = keeps [OF e(1)]
  from Cons.prems e have t: "t = t1" "a = (if ok then q # a1 else a1)" "r = (if ok then r1 else q # r1)"
    by (auto split: if_splits)
  show ?case
  proof (cases ok)
    case True
    with e(1) accepts [of q s s1] have "isReady s" "queue s1 = queue s @ [local_of q]" by simp_all
    with IH K t True show ?thesis by auto
  next
    case False
    with e(1) refuses [of q s s1] have "s1 = s" by simp
    with IH t False show ?thesis by auto
  qed
qed simp

end

text \<open>Any runtime whose \<^verbatim>\<open>EnqueueInbound\<close> is a send to its local channel behind a test of
  \<^verbatim>\<open>ready\<close> is a target.\<close>

lemma inbound_targetI:
  assumes enq: "\<And>q s. enq q s =
      (if isReady s
       then (case try_send (local_of q) (lch s) of (True, ch) \<Rightarrow> (True, upd ch s) | (False, _) \<Rightarrow> (False, s))
       else (False, s))"
    and upd: "\<And>ch s. lch (upd ch s) = ch" "\<And>ch s. isReady (upd ch s) = isReady s"
  shows "inbound_target isReady enq (\<lambda>s. ch_buf (lch s)) (\<lambda>s. ch_cap (lch s))"
  by unfold_locales (auto simp: enq upd try_send_def split: if_splits)

section \<open>Sessions that share a queue\<close>

text \<open>Goroutines that take local connections from one queue: a turn of the goroutine \<open>i\<close>, and turns
  in any order (those of a goroutine that does not exist are none).\<close>

definition pool_turn :: "('e \<Rightarrow> 'h \<Rightarrow> 's \<Rightarrow> 'x list \<times> 'h \<times> 's) \<Rightarrow> ('s \<Rightarrow> 'h list) \<Rightarrow> ('h list \<Rightarrow> 's \<Rightarrow> 's)
    \<Rightarrow> nat \<Rightarrow> 'e \<Rightarrow> 's \<Rightarrow> 'x list \<times> 's" where
  "pool_turn step hs upd i ev s = (case step ev (hs s ! i) s of (es, h, s) \<Rightarrow> (es, upd ((hs s)[i := h]) s))"

fun pool_run :: "('e \<Rightarrow> 'h \<Rightarrow> 's \<Rightarrow> 'x list \<times> 'h \<times> 's) \<Rightarrow> ('s \<Rightarrow> 'h list) \<Rightarrow> ('h list \<Rightarrow> 's \<Rightarrow> 's)
    \<Rightarrow> (nat \<times> 'e) list \<Rightarrow> 's \<Rightarrow> 'x list \<times> 's" where
  "pool_run step hs upd [] s = ([], s)"
| "pool_run step hs upd ((i, ev) # evs) s =
     (if i < length (hs s)
      then (case pool_turn step hs upd i ev s of (es, s) \<Rightarrow> case pool_run step hs upd evs s of (fs, s) \<Rightarrow> (es @ fs, s))
      else pool_run step hs upd evs s)"

text \<open>The contract of such goroutines: what a turn takes from the queue it holds, or settles.\<close>

locale session_pool =
  fixes step :: "'e \<Rightarrow> 'h \<Rightarrow> 's \<Rightarrow> 'x list \<times> 'h \<times> 's"
    and hs :: "'s \<Rightarrow> 'h list" and upd :: "'h list \<Rightarrow> 's \<Rightarrow> 's"
    and queued :: "'s \<Rightarrow> nat multiset" and hand :: "'h \<Rightarrow> nat multiset" and settles :: "'x list \<Rightarrow> nat multiset"
  assumes step_settles: "step ev h s = (es, h', s') \<Longrightarrow>
      queued s + hand h = queued s' + hand h' + settles es \<and> hs s' = hs s"
    and upd: "hs (upd xs s) = xs" "queued (upd xs s) = queued s"
    and settles: "settles [] = {#}" "settles (es @ fs) = settles es + settles fs"
begin

lemma turn_settles:
  assumes "pool_turn step hs upd i ev s = (es, t)" and "i < length (hs s)"
  shows "queued s + sum_list (map hand (hs s)) = queued t + sum_list (map hand (hs t)) + settles es"
proof -
  obtain h' s' where st: "step ev (hs s ! i) s = (es, h', s')" "t = upd ((hs s')[i := h']) s'"
    using assms(1) by (auto simp: pool_turn_def split: prod.splits)
  from step_settles [OF st(1)] st(2) upd sum_list_map_update [OF assms(2), of hand h']
  have "(queued t + sum_list (map hand (hs t)) + settles es) + hand (hs s ! i)
      = (queued s + sum_list (map hand (hs s))) + hand (hs s ! i)"
    by (simp add: ac_simps)
  then show ?thesis by simp
qed

lemma run_settles:
  "pool_run step hs upd evs s = (es, t) \<Longrightarrow>
    queued s + sum_list (map hand (hs s)) = queued t + sum_list (map hand (hs t)) + settles es"
proof (induction evs arbitrary: s es)
  case (Cons x evs)
  obtain i ev where x: "x = (i, ev)" by (cases x)
  show ?case
  proof (cases "i < length (hs s)")
    case True
    obtain es1 s1 where s1: "pool_turn step hs upd i ev s = (es1, s1)" by (metis prod.exhaust)
    obtain es2 where "pool_run step hs upd evs s1 = (es2, t)" "es = es1 @ es2"
      using Cons.prems s1 x True by (auto split: prod.splits)
    with Cons.IH turn_settles [OF s1 True] settles(2) show ?thesis by (simp add: ac_simps)
  qed (use Cons x in simp)
qed (simp add: settles)

end

end
