(* ===== verification/Wire.thy ===== *)
theory Wire
  imports Conn "HOL-Library.Word"
begin

text \<open>
  The control protocol: \<^verbatim>\<open>internal/utils/signals.go\<close> and \<^verbatim>\<open>internal/utils/binary.go\<close>.  An end of
  a connection is a \<open>wire\<close>: what arrives, what was sent, and the error (with the number of bytes
  that still got out) the next \<^verbatim>\<open>Write\<close> returns.  The \<^verbatim>\<open>interface{}\<close> argument of the source is
  told apart by its type switch.  A length is converted to \<^verbatim>\<open>uint16\<close>, a \<^typ>\<open>16 word\<close>.
\<close>

section \<open>Signals\<close>

definition SG_HB :: char where "SG_HB = byte 0"
definition SG_Chan :: char where "SG_Chan = byte 1"
definition SG_Ping :: char where "SG_Ping = byte 2"
definition SG_Closed :: char where "SG_Closed = byte 3"
definition SG_TCP :: char where "SG_TCP = byte 4"
definition SG_UDP :: char where "SG_UDP = byte 5"
definition SG_RTT :: char where "SG_RTT = byte 6"

lemmas signal_defs = SG_HB_def SG_Chan_def SG_Ping_def SG_Closed_def SG_TCP_def SG_UDP_def SG_RTT_def

lemma byte_eq_iff: "byte m = byte n \<longleftrightarrow> m mod 256 = n mod 256"
  by (simp add: byte_def char_of_eq_iff take_bit_eq_mod)

lemma signals_distinct: "distinct [SG_HB, SG_Chan, SG_Ping, SG_Closed, SG_TCP, SG_UDP, SG_RTT]"
  by (simp add: signal_defs byte_eq_iff)

section \<open>Messages\<close>

datatype conn_type = NetConn | QuicStream | OtherType

record wire =
  w_type :: conn_type
  w_in :: conn
  w_out :: string
  w_fail :: "(io_error \<times> nat) option"

datatype wire_error = SendFailed io_error | ReadFailed io_error | UnsupportedType

definition uint16 :: "nat \<Rightarrow> 16 word" where
  "uint16 n = of_nat n"

definition PutUint16 :: "16 word \<Rightarrow> string" where
  "PutUint16 w = enc16 (unat w)"

definition GetUint16 :: "string \<Rightarrow> 16 word" where
  "GetUint16 b = of_nat (be16 b)"

definition Write :: "string \<Rightarrow> wire \<Rightarrow> io_error option \<times> wire" where
  "Write buf c = (case w_fail c of
     None \<Rightarrow> (None, c\<lparr>w_out := w_out c @ buf\<rparr>)
   | Some (e, n) \<Rightarrow> (Some e, c\<lparr>w_out := w_out c @ take n buf\<rparr>))"

definition send_buf :: "string \<Rightarrow> wire \<Rightarrow> wire_error option \<times> wire" where
  "send_buf buf c =
     (if w_type c = OtherType then (Some UnsupportedType, c) else
      case Write buf c of (None, c) \<Rightarrow> (None, c) | (Some e, c) \<Rightarrow> (Some (SendFailed e), c))"

definition read_buf :: "nat \<Rightarrow> wire \<Rightarrow> (wire_error + string) \<times> wire" where
  "read_buf n c =
     (if w_type c = OtherType then (Inl UnsupportedType, c) else
      case ReadFull n (w_in c) of
        (Inl e, i) \<Rightarrow> (Inl (ReadFailed e), c\<lparr>w_in := i\<rparr>)
      | (Inr b, i) \<Rightarrow> (Inr b, c\<lparr>w_in := i\<rparr>))"

definition SendBinaryString :: "wire \<Rightarrow> string \<Rightarrow> wire_error option \<times> wire" where
  "SendBinaryString c message = send_buf (PutUint16 (uint16 (length message)) @ message) c"

definition ReceiveBinaryString :: "wire \<Rightarrow> (wire_error + string) \<times> wire" where
  "ReceiveBinaryString c =
     (case read_buf 2 c of
        (Inl e, c) \<Rightarrow> (Inl e, c)
      | (Inr lenBuf, c) \<Rightarrow> read_buf (unat (GetUint16 lenBuf)) c)"

definition SendBinaryTransportString :: "wire \<Rightarrow> string \<Rightarrow> char \<Rightarrow> wire_error option \<times> wire" where
  "SendBinaryTransportString c message transport =
     send_buf (PutUint16 (uint16 (length message)) @ transport # message) c"

text \<open>The signal returned next to an error is the zero byte.\<close>

definition ReceiveBinaryTransportString ::
  "wire \<Rightarrow> (string \<times> char \<times> wire_error option) \<times> wire" where
  "ReceiveBinaryTransportString c =
     (case read_buf 3 c of
        (Inl e, c) \<Rightarrow> (([], byte 0, Some e), c)
      | (Inr lenBuf, c) \<Rightarrow>
          let messageLength = GetUint16 lenBuf; transport = lenBuf ! 2 in
          (case read_buf (unat messageLength) c of
             (Inl e, c) \<Rightarrow> (([], byte 0, Some e), c)
           | (Inr messageBuf, c) \<Rightarrow> ((messageBuf, transport, None), c)))"

definition SendBinaryInt :: "wire \<Rightarrow> 16 word \<Rightarrow> wire_error option \<times> wire" where
  "SendBinaryInt c port =
     (case Write (PutUint16 port) c of
        (None, c) \<Rightarrow> (None, c) | (Some e, c) \<Rightarrow> (Some (SendFailed e), c))"

definition ReceiveBinaryInt :: "wire \<Rightarrow> (wire_error + 16 word) \<times> wire" where
  "ReceiveBinaryInt c =
     (case ReadFull 2 (w_in c) of
        (Inl e, i) \<Rightarrow> (Inl (ReadFailed e), c\<lparr>w_in := i\<rparr>)
      | (Inr b, i) \<Rightarrow> (Inr (GetUint16 b), c\<lparr>w_in := i\<rparr>))"

definition SendBinaryByte :: "wire \<Rightarrow> char \<Rightarrow> wire_error option \<times> wire" where
  "SendBinaryByte c message = send_buf [message] c"

definition ReceiveBinaryByte :: "wire \<Rightarrow> (wire_error + char) \<times> wire" where
  "ReceiveBinaryByte c =
     (case read_buf 1 c of (Inl e, c) \<Rightarrow> (Inl e, c) | (Inr b, c) \<Rightarrow> (Inr (b ! 0), c))"

section \<open>Sending and receiving\<close>

lemma unat_uint16: "unat (uint16 n) = n mod 65536"
  by (simp add: uint16_def unsigned_of_nat take_bit_eq_mod)

lemma GetUint16_enc: "GetUint16 (PutUint16 w @ r) = w" "GetUint16 (PutUint16 w) = w"
proof -
  have "unat w < 65536" using unsigned_less [of w] by simp
  then show "GetUint16 (PutUint16 w @ r) = w" "GetUint16 (PutUint16 w) = w"
    by (simp_all add: GetUint16_def PutUint16_def)
qed

lemma PutUint16_length [simp]: "length (PutUint16 w) = 2"
  by (simp add: PutUint16_def)

lemma be16_PutUint16: "length b = 2 \<Longrightarrow> PutUint16 (GetUint16 b) = b"
proof -
  assume "length b = 2"
  then obtain x y where b: "b = [x, y]" by (auto simp: numeral_2_eq_2 length_Suc_conv)
  have "be16 b < 65536" by (rule be16_less)
  then have "unat (GetUint16 b) = be16 b" by (simp add: GetUint16_def unsigned_of_nat take_bit_eq_mod)
  moreover have "of_char x < (256 :: nat)" "of_char y < (256 :: nat)" by (rule of_char_less)+
  ultimately show ?thesis
    by (simp add: PutUint16_def enc16_def be16_def b byte_def char_of_eq_iff take_bit_eq_mod)
qed

text \<open>A healthy end: the type is supported and no write fails.\<close>

definition usable :: "wire \<Rightarrow> bool" where
  "usable c \<longleftrightarrow> w_type c \<noteq> OtherType \<and> w_fail c = None"

text \<open>An end whose peer has sent \<open>s\<close>, in any segments.\<close>

definition receives :: "wire \<Rightarrow> string \<Rightarrow> bool" where
  "receives c s \<longleftrightarrow> w_type c \<noteq> OtherType \<and> no_error (w_in c) \<and> pending (w_in c) = s"

lemma read_buf_receives:
  assumes "receives c (b @ s)" and "n = length b"
  shows "\<exists>c'. read_buf n c = (Inr b, c') \<and> receives c' s \<and> w_out c' = w_out c \<and> w_fail c' = w_fail c"
proof -
  from assms obtain i where "ReadFull n (w_in c) = (Inr b, i)" "pending i = s" "no_error i"
    by (metis receives_def ReadFull_enough)
  with assms show ?thesis by (simp add: read_buf_def receives_def)
qed

lemma read_buf_Inr:
  "read_buf n c = (Inr b, c') \<Longrightarrow> pending (w_in c) = b @ pending (w_in c') \<and> length b = n"
  by (auto simp: read_buf_def split: if_splits prod.splits sum.splits dest!: ReadFull_Inr)

lemma send_usable: "usable c \<Longrightarrow> send_buf b c = (None, c\<lparr>w_out := w_out c @ b\<rparr>)"
  by (simp add: send_buf_def Write_def usable_def)

definition frame :: "string \<times> char \<Rightarrow> string" where
  "frame m = PutUint16 (uint16 (length (fst m))) @ snd m # fst m"

lemma ReceiveTransport_frame:
  assumes "receives c (frame (m, t) @ s)"
  shows "\<exists>c'. ReceiveBinaryTransportString c = ((take (length m mod 65536) m, t, None), c')
    \<and> receives c' (drop (length m mod 65536) m @ s)"
proof -
  let ?h = "PutUint16 (uint16 (length m)) @ [t]" and ?k = "length m mod 65536"
  have "receives c (?h @ m @ s)" using assms by (simp add: frame_def)
  from read_buf_receives [OF this, of 3] obtain c1 where
    c1: "read_buf 3 c = (Inr ?h, c1)" "receives c1 (m @ s)" by auto
  have k: "?k \<le> length m" by simp
  have "receives c1 (take ?k m @ drop ?k m @ s)"
    using c1(2) by (metis append_assoc append_take_drop_id)
  from read_buf_receives [OF this, of ?k] k obtain c2 where
    c2: "read_buf ?k c1 = (Inr (take ?k m), c2)" "receives c2 (drop ?k m @ s)" by auto
  have "unat (GetUint16 ?h) = ?k" by (simp add: GetUint16_enc unat_uint16)
  moreover have "?h ! 2 = t" by (simp add: nth_append)
  ultimately show ?thesis
    using c1 c2 by (simp add: ReceiveBinaryTransportString_def del: append.simps)
qed

lemma ReceiveTransport_exact:
  assumes "ReceiveBinaryTransportString c = ((m, t, None), c')"
  shows "pending (w_in c) = enc16 (length m) @ t # m @ pending (w_in c') \<and> length m < 65536"
proof -
  from assms obtain h c1 where h: "read_buf 3 c = (Inr h, c1)" "read_buf (unat (GetUint16 h)) c1 = (Inr m, c')"
    "t = h ! 2"
    by (auto simp: ReceiveBinaryTransportString_def Let_def split: prod.splits sum.splits)
  from read_buf_Inr [OF h(1)] read_buf_Inr [OF h(2)]
  have p: "pending (w_in c) = h @ m @ pending (w_in c')" "length h = 3" "length m = unat (GetUint16 h)"
    by auto
  then obtain x y z where hs: "h = [x, y, z]" by (auto simp: numeral_3_eq_3 length_Suc_conv)
  have "GetUint16 h = GetUint16 [x, y]" by (simp add: GetUint16_def be16_def hs)
  with p(3) be16_PutUint16 [of "[x, y]"] have "enc16 (length m) = [x, y]" by (simp add: PutUint16_def)
  moreover have "length m < 65536" using p(3) unsigned_less [of "GetUint16 h"] by simp
  ultimately show ?thesis using p(1) h(3) hs by simp
qed

lemma frame_enc: "length m < 65536 \<Longrightarrow> frame (m, t) = enc16 (length m) @ t # m"
  by (simp add: frame_def PutUint16_def unat_uint16)

lemma ReceiveTransport_out: "w_out (snd (ReceiveBinaryTransportString c)) = w_out c"
  "w_fail (snd (ReceiveBinaryTransportString c)) = w_fail c" "w_type (snd (ReceiveBinaryTransportString c)) = w_type c"
  by (auto simp: ReceiveBinaryTransportString_def read_buf_def Let_def split: prod.splits sum.splits if_splits)

lemma SendTransport_None: "SendBinaryTransportString w m t = (None, w') \<Longrightarrow>
    w_in w' = w_in w \<and> (w_fail w = None \<longrightarrow> w_out w' = w_out w @ frame (m, t))"
  by (auto simp: SendBinaryTransportString_def send_buf_def Write_def frame_def split: if_splits option.splits)

text \<open>A whole dialogue: the messages one end sends are the messages the other end receives.\<close>

fun send_all :: "wire \<Rightarrow> (string \<times> char) list \<Rightarrow> wire" where
  "send_all c [] = c"
| "send_all c ((m, t) # ms) = send_all (snd (SendBinaryTransportString c m t)) ms"

fun receive_all :: "nat \<Rightarrow> wire \<Rightarrow> (string \<times> char \<times> wire_error option) list \<times> wire" where
  "receive_all 0 c = ([], c)"
| "receive_all (Suc n) c =
     (let (r, c) = ReceiveBinaryTransportString c; (rs, c) = receive_all n c in (r # rs, c))"

lemma send_all_out: "usable c \<Longrightarrow> w_out (send_all c ms) = w_out c @ concat (map frame ms)"
proof (induction ms arbitrary: c)
  case (Cons x ms)
  obtain m t where x: "x = (m, t)" by (cases x)
  have "usable (c\<lparr>w_out := w_out c @ frame x\<rparr>)" using Cons.prems by (simp add: usable_def)
  from Cons.IH [OF this] Cons.prems show ?case
    by (simp add: x SendBinaryTransportString_def send_usable frame_def)
qed simp

lemma receive_all_frames:
  "receives c (concat (map frame ms) @ s) \<Longrightarrow> list_all (\<lambda>m. length (fst m) < 65536) ms \<Longrightarrow>
     fst (receive_all (length ms) c) = map (\<lambda>(m, t). (m, t, None)) ms
     \<and> receives (snd (receive_all (length ms) c)) s"
proof (induction ms arbitrary: c)
  case (Cons x ms)
  obtain m t where x: "x = (m, t)" by (cases x)
  with Cons.prems have "receives c (frame (m, t) @ concat (map frame ms) @ s)" "length m < 65536" by auto
  from ReceiveTransport_frame [OF this(1)] this(2) obtain c' where
    c': "ReceiveBinaryTransportString c = ((m, t, None), c')" "receives c' (concat (map frame ms) @ s)"
    by auto
  with Cons.IH [OF c'(2)] Cons.prems(2) show ?case
    by (auto simp: x Let_def split: prod.splits)
qed simp

section \<open>Properties\<close>

text \<open>C40: the control protocol is a faithful channel: any sequence of messages below 64 KB,
  sent one after the other, is received as exactly that sequence of texts and signals, in any
  segmentation of the stream, and nothing behind it is consumed.\<close>

theorem transport_messages_roundtrip:
  assumes "usable a" and "w_out a = []" and "receives b (w_out (send_all a ms) @ s)"
    and "list_all (\<lambda>m. length (fst m) < 65536) ms"
  shows "fst (receive_all (length ms) b) = map (\<lambda>(m, t). (m, t, None)) ms
    \<and> receives (snd (receive_all (length ms) b)) s"
  using receive_all_frames [OF _ assms(4)] assms(1-3) by (simp add: send_all_out)

definition fresh_wire :: "conn \<Rightarrow> wire" where
  "fresh_wire i = \<lparr>w_type = NetConn, w_in = i, w_out = [], w_fail = None\<rparr>"

theorem transport_messages_roundtrip_witness:
  "fst (receive_all 2 (fresh_wire [(frame (''musix'', SG_Chan), None), (frame (''443'', SG_TCP) @ ''x'', None)]))
     = [(''musix'', SG_Chan, None), (''443'', SG_TCP, None)]"
proof -
  let ?b = "fresh_wire [(frame (''musix'', SG_Chan), None), (frame (''443'', SG_TCP) @ ''x'', None)]"
  have u: "usable (fresh_wire [])" "w_out (fresh_wire []) = []" by (simp_all add: usable_def fresh_wire_def)
  then have "receives ?b (w_out (send_all (fresh_wire []) [(''musix'', SG_Chan), (''443'', SG_TCP)]) @ ''x'')"
    unfolding send_all_out [OF u(1)] u(2) by (simp add: receives_def fresh_wire_def)
  from transport_messages_roundtrip [OF u this] show ?thesis by (simp add: numeral_2_eq_2 del: receive_all.simps)
qed

text \<open>A message of 64 KB or more is cut: its length is converted to 16 bits, the receiver
  takes that many bytes for the message, and the rest stays in the stream, where it will be read
  as the next header.  No error is reported on either side.\<close>

theorem SendBinaryTransportString_truncates:
  assumes "usable a" and "w_out a = []"
    and "receives b (w_out (snd (SendBinaryTransportString a m t)) @ s)"
  shows "fst (SendBinaryTransportString a m t) = None
    \<and> fst (ReceiveBinaryTransportString b) = (take (length m mod 65536) m, t, None)
    \<and> receives (snd (ReceiveBinaryTransportString b)) (drop (length m mod 65536) m @ s)"
proof -
  from assms have "receives b (frame (m, t) @ s)"
    by (simp add: SendBinaryTransportString_def send_usable frame_def)
  from ReceiveTransport_frame [OF this] assms(1) show ?thesis
    by (auto simp: SendBinaryTransportString_def send_usable)
qed

theorem SendBinaryTransportString_truncates_witness:
  "fst (ReceiveBinaryTransportString
     (fresh_wire [(frame (replicate 65537 CHR ''a'', SG_TCP), None)])) = (''a'', SG_TCP, None)"
  using SendBinaryTransportString_truncates [of "fresh_wire []" "fresh_wire [(frame (replicate 65537 CHR ''a'', SG_TCP), None)]"
      "replicate 65537 CHR ''a''" SG_TCP "[]"]
  by (simp add: SendBinaryTransportString_def send_usable usable_def receives_def fresh_wire_def frame_def
      take_replicate)

text \<open>What is received is what is on the wire: a message is returned without an error only
  if the stream begins with its length, its signal and its bytes, and exactly these are
  consumed.\<close>

theorem ReceiveBinaryTransportString_exact:
  assumes "ReceiveBinaryTransportString c = ((m, t, None), c')"
  shows "pending (w_in c) = enc16 (length m) @ t # m @ pending (w_in c') \<and> length m < 65536"
  using assms by (rule ReceiveTransport_exact)

theorem ReceiveBinaryTransportString_exact_witness:
  "case ReceiveBinaryTransportString (fresh_wire [([byte 0, byte 1], None), ([SG_TCP, CHR ''7''], None)]) of
     ((m, t, e), c') \<Rightarrow> enc16 (length m) @ t # m @ pending (w_in c') = [byte 0, byte 1, SG_TCP, CHR ''7'']"
proof -
  let ?c = "fresh_wire [([byte 0, byte 1], None), ([SG_TCP, CHR ''7''], None)]"
  have "receives ?c (frame (''7'', SG_TCP))"
    by (simp add: receives_def fresh_wire_def frame_def PutUint16_def unat_uint16 enc16_def)
  from ReceiveTransport_frame [of ?c "''7''" SG_TCP "[]"] this obtain c' where
    "ReceiveBinaryTransportString ?c = ((''7'', SG_TCP, None), c')" by auto
  with ReceiveBinaryTransportString_exact [OF this] show ?thesis by (simp add: fresh_wire_def)
qed

end
