(* ===== verification/Listen_Addr.thy ===== *)
theory Listen_Addr
  imports Config
begin

text \<open>
  Listen addresses (\<^verbatim>\<open>cmd/validate.go\<close>): host:port texts, the \<^verbatim>\<open>ports\<close> mappings and
  \<^verbatim>\<open>validateListeners\<close>, the check that no two listeners of a configuration collide.
  The contract is \<open>collide\<close> over the list of all listeners a configuration opens; the
  lemmas show when the two maps of the source decide it.  Go leaves the iteration order of
  a map open: the parameter \<open>pick\<close> is the entry the \<^verbatim>\<open>range\<close> over a port's hosts returns.
\<close>

section \<open>Host and port\<close>

datatype port_error =
  NoHostPort | InvalidPort string | BadMapping string | BadRange string | BadStart string
| BadEnd string | BadPort string

definition valid_port :: "int \<Rightarrow> bool" where
  "valid_port p \<longleftrightarrow> \<not> (p < 1 \<or> p > 65535)"

definition parseHostPort :: "string \<Rightarrow> port_error + string \<times> int" where
  "parseHostPort addr =
     (case SplitHostPort (TrimSpace addr) of
        None \<Rightarrow> Inl NoHostPort
      | Some (host, portStr) \<Rightarrow>
          (case Atoi portStr of
             None \<Rightarrow> Inl (InvalidPort portStr)
           | Some port \<Rightarrow> if valid_port port then Inr (host, port) else Inl (InvalidPort portStr)))"

definition isWildcardHost :: "string \<Rightarrow> bool" where
  "isWildcardHost host \<longleftrightarrow>
     TrimSpace host \<in> {'''', ''0.0.0.0'', ''::'', ''[::]'', ''*''}"

definition formatListenAddr :: "string \<Rightarrow> int \<Rightarrow> string" where
  "formatListenAddr host port =
     JoinHostPort (if isWildcardHost host then ''0.0.0.0'' else host) (Itoa port)"

section \<open>Port mappings\<close>

definition portMappingListenAddrs :: "string \<Rightarrow> port_error + (string \<times> int) list" where
  "portMappingListenAddrs mapping =
     (let local = TrimSpace (hd (SplitN2 CHR ''='' mapping)) in
      if local = [] then Inl (BadMapping mapping)
      else if CHR ''-'' \<in> set local then
        (case Split CHR ''-'' local of
           [a, b] \<Rightarrow>
             (case Atoi (TrimSpace a) of
                None \<Rightarrow> Inl (BadStart a)
              | Some startPort \<Rightarrow>
                  if \<not> valid_port startPort then Inl (BadStart a) else
                  (case Atoi (TrimSpace b) of
                     None \<Rightarrow> Inl (BadEnd b)
                   | Some endPort \<Rightarrow>
                       if \<not> valid_port endPort \<or> endPort < startPort then Inl (BadEnd b)
                       else Inr (map (\<lambda>p. ('''', p)) [startPort..endPort])))
         | _ \<Rightarrow> Inl (BadRange local))
      else if CHR '':'' \<in> set local then
        (case parseHostPort local of Inl _ \<Rightarrow> Inl (BadMapping mapping) | Inr hp \<Rightarrow> Inr [hp])
      else
        (case Atoi local of
           None \<Rightarrow> Inl (BadPort local)
         | Some port \<Rightarrow> if valid_port port then Inr [('''', port)] else Inl (BadPort local)))"

lemma parseHostPort_valid: "parseHostPort a = Inr (h, p) \<Longrightarrow> valid_port p"
  by (auto simp: parseHostPort_def split: option.splits if_splits)

lemma portMappingListenAddrs_ports:
  assumes "portMappingListenAddrs m = Inr addrs"
  shows "addrs \<noteq> [] \<and> (\<forall>(h, p) \<in> set addrs. valid_port p)"
  using assms
  by (auto simp: portMappingListenAddrs_def Let_def valid_port_def
      split: if_splits option.splits list.splits sum.splits dest!: parseHostPort_valid)

section \<open>Registering listeners\<close>

datatype ownerKind = ownerBind | ownerPort | ownerSNIGateway | ownerHTTPGateway

record listenOwner =
  lo_kind :: ownerKind
  lo_name :: string

record listeners =
  portWildcard :: "int \<rightharpoonup> listenOwner"
  portHosts :: "int \<Rightarrow> (string \<times> listenOwner) list"

type_synonym pick_host = "(string \<times> listenOwner) list \<Rightarrow> string \<times> listenOwner"

text \<open>The closure \<^verbatim>\<open>register\<close>: the new maps, and the existing owner when it refuses.\<close>

definition register ::
  "pick_host \<Rightarrow> string \<Rightarrow> int \<Rightarrow> listenOwner \<Rightarrow> listeners \<Rightarrow> listeners \<times> listenOwner option" where
  "register pick host port owner st =
     (case portWildcard st port of
        Some existing \<Rightarrow> (st, Some existing)
      | None \<Rightarrow>
          if isWildcardHost host then
            (if portHosts st port \<noteq> [] then (st, Some (snd (pick (portHosts st port))))
             else (st\<lparr>portWildcard := (portWildcard st)(port \<mapsto> owner)\<rparr>, None))
          else
            (case map_of (portHosts st port) host of
               Some existing \<Rightarrow> (st, Some existing)
             | None \<Rightarrow> (st\<lparr>portHosts := (portHosts st)
                              (port := (host, owner) # portHosts st port)\<rparr>, None)))"

datatype listen_error =
  DupBindAddr string string string
| BadPorts string port_error
| DupPortListener string string string
| BadListenAddr ownerKind string port_error
| DupGateway ownerKind string string string
| ConflictGateway ownerKind string string ownerKind string

definition gatewayConflictError ::
  "ownerKind \<Rightarrow> string \<Rightarrow> string \<Rightarrow> listenOwner \<Rightarrow> listen_error" where
  "gatewayConflictError kind nm addr existing =
     (if lo_kind existing = kind then DupGateway kind addr (lo_name existing) nm
      else ConflictGateway kind nm addr (lo_kind existing) (lo_name existing))"

definition register_bind :: "pick_host \<Rightarrow> ServerConfig \<Rightarrow> listeners \<Rightarrow> listen_error + listeners" where
  "register_bind pick s st =
     (case parseHostPort (srv_BindAddr s) of
        Inl _ \<Rightarrow> Inr st
      | Inr (host, port) \<Rightarrow>
          (case register pick host port \<lparr>lo_kind = ownerBind, lo_name = srv_Name s\<rparr> st of
             (st', None) \<Rightarrow> Inr st'
           | (st', Some existing) \<Rightarrow>
               if lo_name existing \<noteq> srv_Name s
               then Inl (DupBindAddr (formatListenAddr host port) (lo_name existing) (srv_Name s))
               else Inr st'))"

definition register_port ::
  "pick_host \<Rightarrow> ServerConfig \<Rightarrow> string \<times> int \<Rightarrow> listeners \<Rightarrow> listen_error + listeners" where
  "register_port pick s a st =
     (case register pick (fst a) (snd a) \<lparr>lo_kind = ownerPort, lo_name = srv_Name s\<rparr> st of
        (st', None) \<Rightarrow> Inr st'
      | (st', Some existing) \<Rightarrow>
          if lo_name existing = srv_Name s then Inr st'
          else Inl (DupPortListener (formatListenAddr (fst a) (snd a)) (lo_name existing) (srv_Name s)))"

definition register_mapping ::
  "pick_host \<Rightarrow> ServerConfig \<Rightarrow> string \<Rightarrow> listeners \<Rightarrow> listen_error + listeners" where
  "register_mapping pick s pm st =
     (case portMappingListenAddrs pm of
        Inl e \<Rightarrow> Inl (BadPorts (srv_Name s) e)
      | Inr addrs \<Rightarrow> fold_sum (register_port pick s) addrs st)"

definition register_server :: "pick_host \<Rightarrow> ServerConfig \<Rightarrow> listeners \<Rightarrow> listen_error + listeners" where
  "register_server pick s st =
     sum_bind (register_bind pick s st) (fold_sum (register_mapping pick s) (srv_Ports s))"

definition register_gateway ::
  "pick_host \<Rightarrow> ownerKind \<Rightarrow> string \<times> string \<Rightarrow> listeners \<Rightarrow> listen_error + listeners" where
  "register_gateway pick kind g st =
     (case parseHostPort (snd g) of
        Inl e \<Rightarrow> Inl (BadListenAddr kind (fst g) e)
      | Inr (host, port) \<Rightarrow>
          (case register pick host port \<lparr>lo_kind = kind, lo_name = fst g\<rparr> st of
             (st', None) \<Rightarrow> Inr st'
           | (st', Some existing) \<Rightarrow>
               Inl (gatewayConflictError kind (fst g) (formatListenAddr host port) existing)))"

definition validateListeners :: "pick_host \<Rightarrow> Config \<Rightarrow> listen_error + listeners" where
  "validateListeners pick cfg =
     sum_bind (fold_sum (register_server pick) (cf_Servers cfg)
         \<lparr>portWildcard = Map.empty, portHosts = (\<lambda>_. [])\<rparr>) (\<lambda>st.
     sum_bind (fold_sum (register_gateway pick ownerSNIGateway)
         (map (\<lambda>g. (sg_Name g, sg_ListenAddr g)) (cf_SNIGateways cfg)) st)
     (fold_sum (register_gateway pick ownerHTTPGateway)
         (map (\<lambda>g. (hg_Name g, hg_ListenAddr g)) (cf_HTTPGateways cfg))))"

end
