(* ===== verification/Port_Mappings.thy ===== *)
theory Port_Mappings
  imports Listen_Addr
begin

text \<open>
  \<^verbatim>\<open>parsePortMappings\<close>, the method by which every server runtime turns its \<^verbatim>\<open>ports\<close> option
  into local listeners (\<^verbatim>\<open>internal/server/transport/\<close>).  The body is the same text in \<^verbatim>\<open>tcp.go\<close>,
  \<^verbatim>\<open>tcpmux.go\<close>, \<^verbatim>\<open>ws.go\<close>, \<^verbatim>\<open>wsmux.go\<close> and \<^verbatim>\<open>udp.go\<close>, and is modelled once; what it starts for
  a pair of addresses belongs to the runtime.  \<^verbatim>\<open>logger.Fatalf\<close> ends the process.
  The lemmas relate it to \<open>portMappingListenAddrs\<close>, the reading of the same option by the
  validation: \<open>runtime_mapping\<close> says which validated mappings the runtime opens as validated.
\<close>

section \<open>The runtimes' reading of a port mapping\<close>

datatype fatal =
  FatalRange string | FatalStart string | FatalEnd string | FatalPort string
| FatalMapping string | FatalListen string

definition listen_at :: "int \<Rightarrow> string" where
  "listen_at port = CHR '':'' # Itoa port"

definition port_range :: "string \<Rightarrow> fatal + int list" where
  "port_range localPortOrRange =
     (case Split CHR ''-'' localPortOrRange of
        [a, b] \<Rightarrow>
          (case Atoi (TrimSpace a) of
             None \<Rightarrow> Inl (FatalStart a)
           | Some startPort \<Rightarrow>
               if startPort < 1 \<or> startPort > 65535 then Inl (FatalStart a) else
               (case Atoi (TrimSpace b) of
                  None \<Rightarrow> Inl (FatalEnd b)
                | Some endPort \<Rightarrow>
                    if endPort < 1 \<or> endPort > 65535 \<or> endPort < startPort then Inl (FatalEnd b)
                    else Inr [startPort..endPort]))
      | _ \<Rightarrow> Inl (FatalRange localPortOrRange))"

text \<open>One turn of the loop: the pairs of local and remote address it starts listeners for.\<close>

definition parsePortMapping :: "string \<Rightarrow> fatal + (string \<times> string) list" where
  "parsePortMapping portMapping =
     (case Split CHR ''='' portMapping of
        [p] \<Rightarrow>
          let localPortOrRange = TrimSpace p in
          if CHR ''-'' \<in> set localPortOrRange then
            sum_bind (port_range localPortOrRange) (\<lambda>ports.
              Inr (map (\<lambda>port. (listen_at port, Itoa port)) ports))
          else
            (case Atoi localPortOrRange of
               None \<Rightarrow> Inl (FatalPort localPortOrRange)
             | Some port \<Rightarrow>
                 if port < 1 \<or> port > 65535 then Inl (FatalPort localPortOrRange)
                 else Inr [(listen_at port, localPortOrRange)])
      | [p, r] \<Rightarrow>
          let localPortOrRange = TrimSpace p; remoteAddr = TrimSpace r in
          if CHR ''-'' \<in> set localPortOrRange then
            sum_bind (port_range localPortOrRange) (\<lambda>ports.
              Inr (map (\<lambda>port. (listen_at port, remoteAddr)) ports))
          else
            (case Atoi localPortOrRange of
               None \<Rightarrow> Inr [(localPortOrRange, remoteAddr)]
             | Some port \<Rightarrow>
                 if port > 1 \<and> port < 65535 then Inr [(listen_at port, remoteAddr)]
                 else Inr [(localPortOrRange, remoteAddr)])
      | _ \<Rightarrow> Inl (FatalMapping portMapping))"

text \<open>The loop: the listeners started, and the fatal error at which it ended, if it did.\<close>

fun parsePortMappings :: "string list \<Rightarrow> (string \<times> string) list \<times> fatal option" where
  "parsePortMappings [] = ([], None)"
| "parsePortMappings (portMapping # ports) =
     (case parsePortMapping portMapping of
        Inl e \<Rightarrow> ([], Some e)
      | Inr started \<Rightarrow>
          (case parsePortMappings ports of (rest, e) \<Rightarrow> (started @ rest, e)))"

text \<open>The goroutines a server runtime starts (\<^verbatim>\<open>go s.f(...)\<close>), shared by the runtimes.
  \<^verbatim>\<open>net.Listen\<close> needs a host:port address, with a port number in range; the error of anything
  else is fatal in every \<^verbatim>\<open>localListener\<close>.\<close>

datatype goroutine =
  UsageMonitor | TunnelListener string | ParsePortMappings | ChannelHandler | HandleLoop
| LocalListener string string | UDPListener string string | ChannelHandshake

definition listens_on :: "string \<Rightarrow> (string \<times> int) option" where
  "listens_on localAddr = (case parseHostPort localAddr of Inl _ \<Rightarrow> None | Inr hp \<Rightarrow> Some hp)"

section \<open>Agreement with the validation\<close>

text \<open>A validated mapping that the runtimes open as it was validated.\<close>

definition runtime_mapping :: "string \<Rightarrow> bool" where
  "runtime_mapping m \<longleftrightarrow>
     (case Split CHR ''='' m of
        [p] \<Rightarrow> CHR ''-'' \<in> set (TrimSpace p) \<or> CHR '':'' \<notin> set (TrimSpace p)
      | [p, r] \<Rightarrow> CHR ''-'' \<in> set (TrimSpace p) \<or> Atoi (TrimSpace p) \<notin> {Some 1, Some 65535}
      | _ \<Rightarrow> False)"

lemma parseHostPort_listen_at: "valid_port p \<Longrightarrow> parseHostPort (listen_at p) = Inr ('''', p)"
proof -
  assume p: "valid_port p"
  define n where "n = nat p"
  with p have n: "p = int n" "nat p = n" "\<not> p < 0" "n \<le> 65535" by (auto simp: valid_port_def)
  have D: "list_all is_digit (itoa_nat n)" by simp
  then have "set (itoa_nat n) \<inter> {CHR '':'', CHR ''['', CHR '']''} = {}"
    by (auto simp: list_all_iff is_digit_def)
  then have "SplitHostPort (CHR '':'' # itoa_nat n) = Some ('''', itoa_nat n)"
    using SplitHostPort_plain [of "''''" "itoa_nat n"] by simp
  moreover have "TrimSpace (CHR '':'' # itoa_nat n) = CHR '':'' # itoa_nat n"
    using D by (intro TrimSpace_no_space) (simp add: list_all_iff is_digit_not is_space_def [of "CHR '':''"])
  ultimately show ?thesis
    using n p by (simp add: parseHostPort_def listen_at_def Itoa_def Atoi_itoa_nat MaxInt_def)
qed

lemma listens_on_listen_at [simp]: "valid_port p \<Longrightarrow> listens_on (listen_at p) = Some ('''', p)"
  by (simp add: listens_on_def parseHostPort_listen_at)

lemma listens_on_no_colon: "CHR '':'' \<notin> set a \<Longrightarrow> listens_on a = None"
proof -
  assume "CHR '':'' \<notin> set a"
  then have "CHR '':'' \<notin> set (TrimSpace a)" using set_TrimSpace [of a] by blast
  then show ?thesis by (simp add: listens_on_def parseHostPort_def SplitHostPort_no_colon)
qed

lemma Atoi_no_colon: "CHR '':'' \<in> set s \<Longrightarrow> Atoi s = None"
  by (cases s) (auto simp: Atoi_def Let_def list_all_iff dest: is_digit_not)

lemma hd_SplitN2: "hd (SplitN2 c s) = hd (Split c s)"
  by (cases "c \<in> set s")
    (auto dest: split_at_first simp: SplitN2_append Split_append SplitN2_no_sep Split_no_sep)

text \<open>Both read a range the same way, and a single port up to its bounds.\<close>

abbreviation local_part :: "string \<Rightarrow> string" where
  "local_part m \<equiv> TrimSpace (hd (Split CHR ''='' m))"

lemma range_agrees:
  assumes "portMappingListenAddrs m = Inr addrs" and "CHR ''-'' \<in> set (local_part m)"
  shows "\<exists>ports. port_range (local_part m) = Inr ports
    \<and> addrs = map (\<lambda>p. ('''', p)) ports \<and> list_all valid_port ports"
  using assms
  by (auto simp: portMappingListenAddrs_def hd_SplitN2 Let_def port_range_def valid_port_def list_all_iff
      split: if_splits option.splits list.splits)

lemma single_agrees:
  assumes "portMappingListenAddrs m = Inr addrs" and "CHR ''-'' \<notin> set (local_part m)"
  shows "(CHR '':'' \<in> set (local_part m) \<and> Atoi (local_part m) = None
            \<and> map Some addrs = [listens_on (local_part m)])
       \<or> (CHR '':'' \<notin> set (local_part m)
            \<and> (\<exists>port. Atoi (local_part m) = Some port \<and> valid_port port \<and> addrs = [('''', port)]))"
  using assms
  by (auto simp: portMappingListenAddrs_def hd_SplitN2 Let_def listens_on_def Atoi_no_colon
      split: if_splits option.splits sum.splits)

lemma mapping_agrees:
  assumes "portMappingListenAddrs m = Inr addrs"
  shows "(\<exists>ls. parsePortMapping m = Inr ls \<and> map (\<lambda>l. listens_on (fst l)) ls = map Some addrs) \<longleftrightarrow> runtime_mapping m"
proof -
  consider p where "Split CHR ''='' m = [p]" | p r where "Split CHR ''='' m = [p, r]"
    | p r q qs where "Split CHR ''='' m = p # r # q # qs"
    by (metis Split_nonempty neq_Nil_conv)
  then show ?thesis
  proof cases
    case (1 p)
    show ?thesis
    proof (cases "CHR ''-'' \<in> set (local_part m)")
      case True
      from range_agrees [OF assms True] 1 True show ?thesis
        by (auto simp: parsePortMapping_def runtime_mapping_def list_all_iff)
    next
      case False
      with single_agrees [OF assms this] 1 show ?thesis
        by (auto simp: parsePortMapping_def runtime_mapping_def valid_port_def)
    qed
  next
    case (2 p r)
    show ?thesis
    proof (cases "CHR ''-'' \<in> set (local_part m)")
      case True
      from range_agrees [OF assms True] 2 True show ?thesis
        by (auto simp: parsePortMapping_def runtime_mapping_def list_all_iff)
    next
      case False
      with single_agrees [OF assms this] 2 show ?thesis
        by (auto simp: parsePortMapping_def runtime_mapping_def valid_port_def listens_on_no_colon)
    qed
  next
    case 3
    then show ?thesis by (simp add: parsePortMapping_def runtime_mapping_def)
  qed
qed

text \<open>Any other validated mapping ends the process: by its format, or by an address without port.\<close>

lemma mapping_fails:
  assumes "portMappingListenAddrs m = Inr addrs" and "\<not> runtime_mapping m" and "parsePortMapping m = Inr ls"
  shows "\<exists>l \<in> set ls. listens_on (fst l) = None"
  using assms(2,3) range_agrees [OF assms(1)] single_agrees [OF assms(1)]
  by (auto simp: parsePortMapping_def runtime_mapping_def Atoi_no_colon listens_on_no_colon
      split: list.splits if_splits option.splits)

text \<open>The whole option: what the loop starts, in order, up to the first fatal mapping.\<close>

lemma parsePortMappings_traverse:
  "snd (parsePortMappings ports) = None \<longleftrightarrow> (\<exists>lss. traverse parsePortMapping ports = Inr lss)"
  "traverse parsePortMapping ports = Inr lss \<Longrightarrow> parsePortMappings ports = (concat lss, None)"
  by (induction ports arbitrary: lss) (auto split: sum.splits prod.splits)

lemma parsePortMappings_validated:
  assumes "traverse portMappingListenAddrs ports = Inr addrss" and "list_all runtime_mapping ports"
  shows "\<exists>ls. parsePortMappings ports = (ls, None) \<and> map (\<lambda>l. listens_on (fst l)) ls = map Some (concat addrss)"
  using assms
proof (induction ports arbitrary: addrss)
  case (Cons m ports)
  then obtain addrs rest where A: "portMappingListenAddrs m = Inr addrs"
      "traverse portMappingListenAddrs ports = Inr rest" "addrss = addrs # rest" by auto
  with Cons mapping_agrees [OF A(1)] obtain ls ls' where "parsePortMapping m = Inr ls"
      "map (\<lambda>l. listens_on (fst l)) ls = map Some addrs" "parsePortMappings ports = (ls', None)"
      "map (\<lambda>l. listens_on (fst l)) ls' = map Some (concat rest)" by fastforce
  with A show ?case by simp
qed simp

lemma parsePortMappings_fatal:
  assumes "traverse portMappingListenAddrs ports = Inr addrss" and "\<not> list_all runtime_mapping ports"
  shows "snd (parsePortMappings ports) \<noteq> None
       \<or> (\<exists>l \<in> set (fst (parsePortMappings ports)). listens_on (fst l) = None)"
  using assms
proof (induction ports arbitrary: addrss)
  case (Cons m ports)
  then obtain addrs rest where A: "portMappingListenAddrs m = Inr addrs"
      "traverse portMappingListenAddrs ports = Inr rest" by auto
  show ?case
  proof (cases "runtime_mapping m")
    case True
    with Cons.IH [OF A(2)] Cons.prems mapping_agrees [OF A(1)] show ?thesis
      by (auto split: prod.splits)
  next
    case False
    with mapping_fails [OF A(1)] show ?thesis
      by (auto split: prod.splits sum.splits)
  qed
qed simp

text \<open>C19: For a \<^verbatim>\<open>ports\<close> option that the validation accepts, a runtime opens all of it, on exactly the
  addresses the validation checked and in that order, if and only if every mapping is a
  \<open>runtime_mapping\<close>.  Otherwise the process ends: at a fatal format error or at \<^verbatim>\<open>net.Listen\<close>.\<close>

theorem parsePortMappings_opens_validated:
  assumes "traverse portMappingListenAddrs ports = Inr addrss"
  shows "(snd (parsePortMappings ports) = None
       \<and> map (\<lambda>l. listens_on (fst l)) (fst (parsePortMappings ports)) = map Some (concat addrss))
     \<longleftrightarrow> list_all runtime_mapping ports"
proof
  assume L: "snd (parsePortMappings ports) = None
       \<and> map (\<lambda>l. listens_on (fst l)) (fst (parsePortMappings ports)) = map Some (concat addrss)"
  show "list_all runtime_mapping ports"
  proof (rule ccontr)
    assume "\<not> list_all runtime_mapping ports"
    with parsePortMappings_fatal [OF assms this] L
    have "\<exists>l \<in> set (fst (parsePortMappings ports)). listens_on (fst l) = None" by simp
    then have "None \<in> set (map (\<lambda>l. listens_on (fst l)) (fst (parsePortMappings ports)))"
      by (elim bexE) (simp, rule rev_image_eqI, assumption, erule sym)
    with L show False by auto
  qed
qed (use parsePortMappings_validated [OF assms] in auto)

lemmas mapping_eval = portMappingListenAddrs_def parsePortMapping_def port_range_def SplitN2_def
  Atoi_def TrimSpace_def is_space_def is_digit_def digits_val_def digit_val_def MaxInt_def valid_port_def
  Let_def

theorem parsePortMappings_opens_validated_witness:
  "traverse portMappingListenAddrs [''80=a:1'', '' 7-8''] = Inr [[('''', 80)], [('''', 7), ('''', 8)]]
   \<and> map (\<lambda>l. listens_on (fst l)) (fst (parsePortMappings [''80=a:1'', '' 7-8'']))
       = [Some ('''', 80), Some ('''', 7), Some ('''', 8)]"
proof -
  have T: "traverse portMappingListenAddrs [''80=a:1'', '' 7-8''] = Inr [[('''', 80)], [('''', 7), ('''', 8)]]"
    by (simp add: mapping_eval upto.simps)
  have "list_all runtime_mapping [''80=a:1'', '' 7-8'']"
    by (simp add: runtime_mapping_def mapping_eval)
  with T parsePortMappings_opens_validated [OF T] show ?thesis by simp
qed

text \<open>The validation accepts mappings that are fatal at run time: a second equals sign (it cuts
  at the first one, the runtimes split at all), an address with a host but no target, and the
  ports 1 and 65535 with a target, where the runtimes leave the colon out of the address.\<close>

theorem validated_mappings_fatal:
  "portMappingListenAddrs ''80=a=b'' = Inr [('''', 80)] \<and> parsePortMapping ''80=a=b'' = Inl (FatalMapping ''80=a=b'')
   \<and> portMappingListenAddrs ''h:80'' = Inr [(''h'', 80)] \<and> parsePortMapping ''h:80'' = Inl (FatalPort ''h:80'')
   \<and> portMappingListenAddrs ''1=a'' = Inr [('''', 1)] \<and> parsePortMapping ''1=a'' = Inr [(''1'', ''a'')]
   \<and> listens_on ''1'' = None"
  by (simp add: mapping_eval parseHostPort_def SplitHostPort_def LastIndexByte_def listens_on_def)

end
