(* ===== verification/Tcp_Server.thy ===== *)
theory Tcp_Server
  imports Inbound Wire Config Port_Mappings
begin

text \<open>
  The plain TCP server runtime, \<^verbatim>\<open>internal/server/transport/tcp.go\<close>.  The transport is a record
  with the channels of the source; each goroutine body is a function of one thing it waited for
  (an accepted connection, a signal, a clock tick), and \<open>tcp_step\<close> is their interleaving.  An
  effect names what a step does to a connection besides changing the state.
\<close>

section \<open>State\<close>

record TcpConfig =
  tcp_BindAddr :: string
  tcp_Token :: string
  tcp_SnifferLog :: string
  tcp_TunnelStatus :: string
  tcp_Ports :: "string list"
  tcp_Nodelay :: bool
  tcp_Sniffer :: bool
  tcp_KeepAlive :: Duration
  tcp_Heartbeat :: Duration
  tcp_ChannelSize :: int
  tcp_WebPort :: int
  tcp_AcceptUDP :: bool
  tcp_AllowMultiIP :: bool
  tcp_TCPCopyBuffer :: int

text \<open>A connection to the tunnel port; the address is \<open>None\<close> when it is not a TCP one.\<close>

record tunnel_conn =
  tn_id :: nat
  tn_ip :: "string option"
  tn_wire :: wire

record TcpTransport =
  tt_config :: TcpConfig
  tt_tunnelChannel :: "tunnel_conn chan"
  tt_localChannel :: "LocalTCPConn chan"
  tt_reqNewConnChan :: "unit chan"
  tt_controlChannel :: "tunnel_conn option"
  tt_rtt :: int
  tt_ready :: bool

datatype effect = CloseTunnel nat | CloseLocal nat | Relay LocalTCPConn tunnel_conn

definition NewTCPServer :: "TcpConfig \<Rightarrow> TcpTransport" where
  "NewTCPServer config =
     \<lparr>tt_config = config,
      tt_tunnelChannel = make_chan (nat (tcp_ChannelSize config)),
      tt_localChannel = make_chan (nat (tcp_ChannelSize config)),
      tt_reqNewConnChan = make_chan (nat (tcp_ChannelSize config)),
      tt_controlChannel = None, tt_rtt = 0, tt_ready = False\<rparr>"

section \<open>Restart and handshake\<close>

definition Restart :: "TcpTransport \<Rightarrow> effect list \<times> TcpTransport" where
  "Restart s =
     ((case tt_controlChannel s of Some c \<Rightarrow> [CloseTunnel (tn_id c)] | None \<Rightarrow> []),
      s\<lparr>tt_tunnelChannel := make_chan (nat (tcp_ChannelSize (tt_config s))),
        tt_localChannel := make_chan (nat (tcp_ChannelSize (tt_config s))),
        tt_reqNewConnChan := make_chan (nat (tcp_ChannelSize (tt_config s))),
        tt_config := (tt_config s)\<lparr>tcp_TunnelStatus := ''''\<rparr>,
        tt_controlChannel := None, tt_ready := False\<rparr>)"

text \<open>One connection of the handshake: the connection after the exchange, or \<open>None\<close> when it is
  closed.  \<open>deadline_ok\<close> is the result of \<^verbatim>\<open>SetReadDeadline\<close>.\<close>

definition handshake_conn :: "bool \<Rightarrow> string \<Rightarrow> tunnel_conn \<Rightarrow> tunnel_conn option" where
  "handshake_conn deadline_ok token conn =
     (if \<not> deadline_ok then None else
      case ReceiveBinaryTransportString (tn_wire conn) of
        ((msg, transport, err), w) \<Rightarrow>
          if transport \<noteq> SG_Chan then None
          else if err \<noteq> None then None
          else if msg \<noteq> token then None
          else (case SendBinaryTransportString w token SG_Chan of
                  (Some _, _) \<Rightarrow> None
                | (None, w) \<Rightarrow> Some (conn\<lparr>tn_wire := w\<rparr>)))"

text \<open>The loop takes connections from the tunnel channel; the list gives the deadline results of
  the connections it gets to, and where it ends the loop is waiting or was cancelled.\<close>

fun channelHandshake :: "bool list \<Rightarrow> TcpTransport \<Rightarrow> effect list \<times> TcpTransport" where
  "channelHandshake [] s = ([], s)"
| "channelHandshake (ok # oks) s =
     (case try_recv (tt_tunnelChannel s) of
        None \<Rightarrow> ([], s)
      | Some (conn, ch) \<Rightarrow>
          let s = s\<lparr>tt_tunnelChannel := ch\<rparr> in
          (case handshake_conn ok (tcp_Token (tt_config s)) conn of
             None \<Rightarrow> (case channelHandshake oks s of (es, s) \<Rightarrow> (CloseTunnel (tn_id conn) # es, s))
           | Some conn \<Rightarrow> ([], s\<lparr>tt_controlChannel := Some conn, tt_ready := True\<rparr>)))"

section \<open>The control channel\<close>

definition control_send :: "char \<Rightarrow> TcpTransport \<Rightarrow> wire_error option \<times> TcpTransport" where
  "control_send sig s =
     (case tt_controlChannel s of
        None \<Rightarrow> (Some UnsupportedType, s)
      | Some c \<Rightarrow>
          (case SendBinaryByte (tn_wire c) sig of
             (e, w) \<Rightarrow> (e, s\<lparr>tt_controlChannel := Some (c\<lparr>tn_wire := w\<rparr>)\<rparr>)))"

text \<open>What the select of \<^verbatim>\<open>channelHandler\<close> got; \<open>ReaderError\<close> is the error of its reading goroutine.\<close>

datatype control_event = CtxDone | ReqNewConn | Tick | Message char int | ReaderError

datatype handler_next = Running | Stopped | Restarting

definition channelHandler_start :: "TcpTransport \<Rightarrow> handler_next \<times> TcpTransport" where
  "channelHandler_start s =
     (case control_send SG_RTT s of (None, s) \<Rightarrow> (Running, s) | (Some _, s) \<Rightarrow> (Restarting, s))"

definition channelHandler_step :: "int \<Rightarrow> control_event \<Rightarrow> TcpTransport \<Rightarrow> handler_next \<times> TcpTransport" where
  "channelHandler_step rtt ev s =
     (case ev of
        CtxDone \<Rightarrow> (Stopped, snd (control_send SG_Closed s))
      | ReqNewConn \<Rightarrow>
          (case try_recv (tt_reqNewConnChan s) of
             None \<Rightarrow> (Running, s)
           | Some (_, ch) \<Rightarrow>
               (case control_send SG_Chan (s\<lparr>tt_reqNewConnChan := ch\<rparr>) of
                  (None, s) \<Rightarrow> (Running, s) | (Some _, s) \<Rightarrow> (Restarting, s)))
      | Tick \<Rightarrow>
          (case control_send SG_HB s of (None, s) \<Rightarrow> (Running, s) | (Some _, s) \<Rightarrow> (Restarting, s))
      | Message m now \<Rightarrow>
          if m = SG_Closed then (Restarting, s)
          else if m = SG_RTT then (Running, s\<lparr>tt_rtt := now - rtt\<rparr>)
          else (Running, s)
      | ReaderError \<Rightarrow> (Restarting, s))"

section \<open>Connections\<close>

definition acceptTunnelConn :: "tunnel_conn \<Rightarrow> TcpTransport \<Rightarrow> effect list \<times> TcpTransport" where
  "acceptTunnelConn conn s =
     (case tn_ip conn of
        None \<Rightarrow> ([CloseTunnel (tn_id conn)], s)
      | Some ip \<Rightarrow>
          if \<not> tcp_AllowMultiIP (tt_config s)
             \<and> (case tt_controlChannel s of None \<Rightarrow> False | Some c \<Rightarrow> tn_ip c \<noteq> Some ip)
          then ([CloseTunnel (tn_id conn)], s)
          else
            (case try_send conn (tt_tunnelChannel s) of
               (True, ch) \<Rightarrow> ([], s\<lparr>tt_tunnelChannel := ch\<rparr>)
             | (False, _) \<Rightarrow> ([CloseTunnel (tn_id conn)], s)))"

definition IsReady :: "TcpTransport \<Rightarrow> bool" where
  "IsReady s = tt_ready s"

definition enqueueInbound :: "int \<Rightarrow> socket \<Rightarrow> string \<Rightarrow> int \<Rightarrow> TcpTransport \<Rightarrow> bool \<times> TcpTransport" where
  "enqueueInbound now conn target reportPort s =
     (case try_send \<lparr>lc_conn = conn, lc_remoteAddr = target, lc_timeCreated = now,
                      lc_reportPort = reportPort\<rparr> (tt_localChannel s) of
        (True, ch) \<Rightarrow>
          let s = s\<lparr>tt_localChannel := ch\<rparr> in
          (case try_send () (tt_reqNewConnChan s) of
             (_, rq) \<Rightarrow> (True, s\<lparr>tt_reqNewConnChan := rq\<rparr>))
      | (False, _) \<Rightarrow> (False, s))"

definition EnqueueInbound :: "int \<Rightarrow> socket \<Rightarrow> string \<Rightarrow> int \<Rightarrow> TcpTransport \<Rightarrow> bool \<times> TcpTransport" where
  "EnqueueInbound now conn target reportPort s =
     (if \<not> tt_ready s then (False, s) else enqueueInbound now conn target reportPort s)"

text \<open>A connection accepted on a port of \<^verbatim>\<open>ports\<close>; one that is not TCP has no port.\<close>

definition acceptLocalConn :: "int \<Rightarrow> socket \<Rightarrow> string \<Rightarrow> TcpTransport \<Rightarrow> effect list \<times> TcpTransport" where
  "acceptLocalConn now conn remoteAddr s =
     (if sk_port conn = None then ([CloseLocal (sk_id conn)], s)
      else case enqueueInbound now conn remoteAddr 0 s of
        (True, s) \<Rightarrow> ([], s)
      | (False, s) \<Rightarrow> ([CloseLocal (sk_id conn)], s))"

text \<open>The inner loop of \<^verbatim>\<open>handleLoop\<close> for one local connection: each turn reads the clock, then
  waits for a tunnel connection.  It ends \<open>Blocked\<close> where no tunnel connection is there.\<close>

datatype pairing = TimedOut | Paired tunnel_conn | Blocked

fun pair_loop :: "int list \<Rightarrow> LocalTCPConn \<Rightarrow> tunnel_conn chan \<Rightarrow> nat list \<times> pairing \<times> tunnel_conn chan" where
  "pair_loop [] l ch = ([], Blocked, ch)"
| "pair_loop (now # nows) l ch =
     (if now - lc_timeCreated l > 3000 then ([], TimedOut, ch) else
      case try_recv ch of
        None \<Rightarrow> ([], Blocked, ch)
      | Some (tunnelConn, ch) \<Rightarrow>
          (case SendBinaryTransportString (tn_wire tunnelConn) (lc_remoteAddr l) SG_TCP of
             (Some _, _) \<Rightarrow>
               (case pair_loop nows l ch of (closed, p, ch) \<Rightarrow> (tn_id tunnelConn # closed, p, ch))
           | (None, w) \<Rightarrow> ([], Paired (tunnelConn\<lparr>tn_wire := w\<rparr>), ch)))"

definition handleLoop_turn :: "int list \<Rightarrow> TcpTransport \<Rightarrow> effect list \<times> TcpTransport" where
  "handleLoop_turn nows s =
     (case try_recv (tt_localChannel s) of
        None \<Rightarrow> ([], s)
      | Some (localConn, ch) \<Rightarrow>
          let s = s\<lparr>tt_localChannel := ch\<rparr> in
          (case pair_loop nows localConn (tt_tunnelChannel s) of
             (closed, p, ch) \<Rightarrow>
               (map CloseTunnel closed
                @ (case p of
                     TimedOut \<Rightarrow> [CloseLocal (sk_id (lc_conn localConn))]
                   | Paired c \<Rightarrow> [Relay localConn c]
                   | Blocked \<Rightarrow> []),
                s\<lparr>tt_tunnelChannel := ch\<rparr>)))"

section \<open>Start and the local listeners\<close>

text \<open>\<^verbatim>\<open>Start\<close> before and after its call of \<^verbatim>\<open>channelHandshake\<close>, with the goroutines it starts.\<close>

definition Start_begin :: "TcpTransport \<Rightarrow> goroutine list \<times> TcpTransport" where
  "Start_begin s =
     ((if tcp_WebPort (tt_config s) > 0 then [UsageMonitor] else [])
        @ [TunnelListener (tcp_BindAddr (tt_config s))],
      s\<lparr>tt_config := (tt_config s)\<lparr>tcp_TunnelStatus := ''Disconnected (TCP)''\<rparr>\<rparr>)"

definition Start_connected :: "nat \<Rightarrow> TcpTransport \<Rightarrow> goroutine list \<times> TcpTransport" where
  "Start_connected numCPU s =
     (if tt_controlChannel s \<noteq> None
      then ([ParsePortMappings, ChannelHandler] @ replicate (if numCPU > 4 then 4 else numCPU) HandleLoop,
            s\<lparr>tt_config := (tt_config s)\<lparr>tcp_TunnelStatus := ''Connected (TCP)''\<rparr>\<rparr>)
      else ([], s))"

definition startListeners :: "TcpTransport \<Rightarrow> string \<times> string \<Rightarrow> goroutine list" where
  "startListeners s l =
     LocalListener (fst l) (snd l)
     # (if tcp_AcceptUDP (tt_config s) then [UDPListener (fst l) (snd l)] else [])"

definition tcp_parsePortMappings :: "TcpTransport \<Rightarrow> goroutine list \<times> fatal option" where
  "tcp_parsePortMappings s =
     (case parsePortMappings (tcp_Ports (tt_config s)) of
        (started, e) \<Rightarrow> (concat (map (startListeners s) started), e))"

section \<open>The interleaving of the goroutines\<close>

inductive tcp_step :: "TcpTransport \<Rightarrow> effect list \<times> TcpTransport \<Rightarrow> bool" where
  "tcp_step s (acceptTunnelConn c s)"
| "tt_controlChannel s = None \<Longrightarrow> tcp_step s (channelHandshake oks s)"
| "tt_controlChannel s \<noteq> None \<Longrightarrow> tcp_step s ([], snd (channelHandler_start s))"
| "tt_controlChannel s \<noteq> None \<Longrightarrow> tcp_step s ([], snd (channelHandler_step rtt ev s))"
| "tcp_step s (acceptLocalConn now sk addr s)"
| "tcp_step s ([], snd (EnqueueInbound now sk addr port s))"
| "tcp_step s (handleLoop_turn nows s)"
| "tcp_step s (Restart s)"
| "tcp_step s ([], snd (Start_begin s))"
| "tcp_step s ([], snd (Start_connected numCPU s))"

inductive tcp_reachable :: "TcpConfig \<Rightarrow> TcpTransport \<Rightarrow> bool" for config where
  start: "tcp_reachable config (NewTCPServer config)"
| step: "tcp_reachable config s \<Longrightarrow> tcp_step s (es, t) \<Longrightarrow> tcp_reachable config t"

inductive_cases tcp_stepE: "tcp_step s (es, t)"

section \<open>The runtime as an inbound target\<close>

definition enqueue_offer :: "offer \<Rightarrow> TcpTransport \<Rightarrow> bool \<times> TcpTransport" where
  "enqueue_offer q s = (case q of (now, c, target, port) \<Rightarrow> EnqueueInbound now c target port s)"

lemma enqueueInbound_cases:
  "enqueueInbound now c tg p s = (ok, t) \<Longrightarrow>
     (if ok then length (ch_buf (tt_localChannel s)) < ch_cap (tt_localChannel s)
        \<and> ch_buf (tt_localChannel t) = ch_buf (tt_localChannel s) @ [local_of (now, c, tg, p)]
      else t = s \<and> ch_cap (tt_localChannel s) \<le> length (ch_buf (tt_localChannel s)))
     \<and> tt_ready t = tt_ready s \<and> ch_cap (tt_localChannel t) = ch_cap (tt_localChannel s)"
  by (auto simp: enqueueInbound_def try_send_def local_of_def Let_def split: if_splits)

interpretation tcp_target: inbound_target IsReady enqueue_offer
    "\<lambda>s. ch_buf (tt_localChannel s)" "\<lambda>s. ch_cap (tt_localChannel s)"
proof
  fix q :: offer and s t
  obtain now c tg p where q: "q = (now, c, tg, p)" by (metis prod.exhaust)
  note C = enqueueInbound_cases [of now c tg p s _ t]
  show "enqueue_offer q s = (True, t) \<Longrightarrow>
      IsReady s \<and> ch_buf (tt_localChannel t) = ch_buf (tt_localChannel s) @ [local_of q]"
    using C [of True] by (auto simp: enqueue_offer_def EnqueueInbound_def IsReady_def q split: if_splits)
  show "enqueue_offer q s = (False, t) \<Longrightarrow>
      t = s \<and> (\<not> IsReady s \<or> ch_cap (tt_localChannel s) \<le> length (ch_buf (tt_localChannel s)))"
    using C [of False] by (auto simp: enqueue_offer_def EnqueueInbound_def IsReady_def q split: if_splits)
  show "enqueue_offer q s = (ok, t) \<Longrightarrow> IsReady t = IsReady s
      \<and> ch_cap (tt_localChannel t) = ch_cap (tt_localChannel s)
      \<and> (length (ch_buf (tt_localChannel s)) \<le> ch_cap (tt_localChannel s)
         \<longrightarrow> length (ch_buf (tt_localChannel t)) \<le> ch_cap (tt_localChannel t))" for ok
    using C [of ok]
    by (cases ok) (auto simp: enqueue_offer_def EnqueueInbound_def IsReady_def q split: if_splits)
qed

end
