(* ===== verification/Defaults.thy ===== *)
theory Defaults
  imports Config
begin

text \<open>
  \<^verbatim>\<open>cmd/defaults.go\<close>: the default values and \<^verbatim>\<open>applyDefaults\<close>, one function per kind of
  entry, each writing the fields in the order of the source.  \<^verbatim>\<open>logrus.ParseLevel\<close> is
  third-party code: the parameter \<open>level_ok l\<close> says whether it accepts \<open>l\<close>.
  \<open>server_ok\<close> and its siblings are the contract of the pass: what every consumer of a
  configuration may rely on after it ran.
\<close>

section \<open>The pass\<close>

definition positive_or :: "int \<Rightarrow> int \<Rightarrow> int" where
  "positive_or d v = (if v \<le> 0 then d else v)"

definition nonempty_or :: "string \<Rightarrow> string \<Rightarrow> string" where
  "nonempty_or d v = (if v = [] then d else v)"

definition nonblank_or :: "string \<Rightarrow> string \<Rightarrow> string" where
  "nonblank_or d v = (if TrimSpace v = [] then d else v)"

definition mux_version_or :: "int \<Rightarrow> int \<Rightarrow> int" where
  "mux_version_or d v = (if v \<le> 0 \<or> v > 2 then d else v)"

definition default_server :: "(string \<Rightarrow> bool) \<Rightarrow> ServerConfig \<Rightarrow> ServerConfig" where
  "default_server level_ok s = s\<lparr>
     srv_Token := nonempty_or ''musix'' (srv_Token s),
     srv_ChannelSize := positive_or 2048 (srv_ChannelSize s),
     srv_LogLevel := (if level_ok (srv_LogLevel s) then srv_LogLevel s else ''info''),
     srv_MuxSession := positive_or 1 (srv_MuxSession s),
     srv_Keepalive := positive_or 75 (srv_Keepalive s),
     srv_MuxVersion := mux_version_or 1 (srv_MuxVersion s),
     srv_MaxFrameSize := positive_or 32768 (srv_MaxFrameSize s),
     srv_MaxReceiveBuffer := positive_or 4194304 (srv_MaxReceiveBuffer s),
     srv_MaxStreamBuffer := positive_or 65536 (srv_MaxStreamBuffer s),
     srv_SnifferLog := nonempty_or ''backhaul.json'' (srv_SnifferLog s),
     srv_Heartbeat := positive_or 40 (srv_Heartbeat s),
     srv_MuxCon := positive_or 8 (srv_MuxCon s),
     srv_TCPCopyBuffer := nonblank_or ''16kb'' (srv_TCPCopyBuffer s)\<rparr>"

definition default_sni_gateway :: "SNIGatewayConfig \<Rightarrow> SNIGatewayConfig" where
  "default_sni_gateway g = g\<lparr>
     sg_InspectTimeout := positive_or 1 (sg_InspectTimeout g),
     sg_DefaultAction := nonempty_or ''reject'' (sg_DefaultAction g)\<rparr>"

definition default_http_gateway :: "HTTPGatewayConfig \<Rightarrow> HTTPGatewayConfig" where
  "default_http_gateway g = g\<lparr>
     hg_InspectTimeout := positive_or 1 (hg_InspectTimeout g),
     hg_MaxHeaderBytes := positive_or 32768 (hg_MaxHeaderBytes g),
     hg_DefaultAction := nonempty_or ''reject'' (hg_DefaultAction g)\<rparr>"

definition default_client :: "(string \<Rightarrow> bool) \<Rightarrow> ClientConfig \<Rightarrow> ClientConfig" where
  "default_client level_ok c = c\<lparr>
     cl_Token := nonempty_or ''musix'' (cl_Token c),
     cl_LogLevel := (if level_ok (cl_LogLevel c) then cl_LogLevel c else ''info''),
     cl_RetryInterval := positive_or 3 (cl_RetryInterval c),
     cl_ConnectionPool := positive_or 8 (cl_ConnectionPool c),
     cl_MuxSession := positive_or 1 (cl_MuxSession c),
     cl_Keepalive := positive_or 75 (cl_Keepalive c),
     cl_MuxVersion := mux_version_or 1 (cl_MuxVersion c),
     cl_MaxFrameSize := positive_or 32768 (cl_MaxFrameSize c),
     cl_MaxReceiveBuffer := positive_or 4194304 (cl_MaxReceiveBuffer c),
     cl_MaxStreamBuffer := positive_or 65536 (cl_MaxStreamBuffer c),
     cl_SnifferLog := nonempty_or ''backhaul.json'' (cl_SnifferLog c),
     cl_DialTimeout := positive_or 10 (cl_DialTimeout c),
     cl_TunnelTCPBuffer := nonblank_or ''2mb'' (cl_TunnelTCPBuffer c),
     cl_TCPCopyBuffer := nonblank_or ''16kb'' (cl_TCPCopyBuffer c)\<rparr>"

definition applyDefaults :: "(string \<Rightarrow> bool) \<Rightarrow> Config \<Rightarrow> Config" where
  "applyDefaults level_ok cfg = cfg\<lparr>
     cf_Servers := map (default_server level_ok) (cf_Servers cfg),
     cf_SNIGateways := map default_sni_gateway (cf_SNIGateways cfg),
     cf_HTTPGateways := map default_http_gateway (cf_HTTPGateways cfg),
     cf_Clients := map (default_client level_ok) (cf_Clients cfg)\<rparr>"

section \<open>The contract\<close>

definition server_ok :: "(string \<Rightarrow> bool) \<Rightarrow> ServerConfig \<Rightarrow> bool" where
  "server_ok level_ok s \<longleftrightarrow> srv_Token s \<noteq> [] \<and> 0 < srv_ChannelSize s \<and> level_ok (srv_LogLevel s)
     \<and> 0 < srv_MuxSession s \<and> 0 < srv_Keepalive s \<and> srv_MuxVersion s \<in> {1, 2}
     \<and> 0 < srv_MaxFrameSize s \<and> 0 < srv_MaxReceiveBuffer s \<and> 0 < srv_MaxStreamBuffer s
     \<and> srv_SnifferLog s \<noteq> [] \<and> 0 < srv_Heartbeat s \<and> 0 < srv_MuxCon s
     \<and> TrimSpace (srv_TCPCopyBuffer s) \<noteq> []"

definition client_ok :: "(string \<Rightarrow> bool) \<Rightarrow> ClientConfig \<Rightarrow> bool" where
  "client_ok level_ok c \<longleftrightarrow> cl_Token c \<noteq> [] \<and> level_ok (cl_LogLevel c) \<and> 0 < cl_RetryInterval c
     \<and> 0 < cl_ConnectionPool c \<and> 0 < cl_MuxSession c \<and> 0 < cl_Keepalive c
     \<and> cl_MuxVersion c \<in> {1, 2} \<and> 0 < cl_MaxFrameSize c \<and> 0 < cl_MaxReceiveBuffer c
     \<and> 0 < cl_MaxStreamBuffer c \<and> cl_SnifferLog c \<noteq> [] \<and> 0 < cl_DialTimeout c
     \<and> TrimSpace (cl_TunnelTCPBuffer c) \<noteq> [] \<and> TrimSpace (cl_TCPCopyBuffer c) \<noteq> []"

definition sni_gateway_ok :: "SNIGatewayConfig \<Rightarrow> bool" where
  "sni_gateway_ok g \<longleftrightarrow> 0 < sg_InspectTimeout g \<and> sg_DefaultAction g \<noteq> []"

definition http_gateway_ok :: "HTTPGatewayConfig \<Rightarrow> bool" where
  "http_gateway_ok g \<longleftrightarrow>
     0 < hg_InspectTimeout g \<and> 0 < hg_MaxHeaderBytes g \<and> hg_DefaultAction g \<noteq> []"

definition config_ok :: "(string \<Rightarrow> bool) \<Rightarrow> Config \<Rightarrow> bool" where
  "config_ok level_ok cfg \<longleftrightarrow> list_all (server_ok level_ok) (cf_Servers cfg)
     \<and> list_all (client_ok level_ok) (cf_Clients cfg)
     \<and> list_all sni_gateway_ok (cf_SNIGateways cfg)
     \<and> list_all http_gateway_ok (cf_HTTPGateways cfg)"

section \<open>Each field\<close>

lemma positive_or [simp]: "0 < d \<Longrightarrow> 0 < positive_or d v" "0 < v \<Longrightarrow> positive_or d v = v"
  "0 < d \<Longrightarrow> positive_or d v = v \<longleftrightarrow> 0 < v"
  by (auto simp: positive_or_def)

lemma nonempty_or [simp]: "d \<noteq> [] \<Longrightarrow> nonempty_or d v \<noteq> []" "d \<noteq> [] \<Longrightarrow> nonempty_or d v = v \<longleftrightarrow> v \<noteq> []"
  by (auto simp: nonempty_or_def)

lemma nonblank_or [simp]: "TrimSpace d \<noteq> [] \<Longrightarrow> TrimSpace (nonblank_or d v) \<noteq> []"
  "TrimSpace d \<noteq> [] \<Longrightarrow> nonblank_or d v = v \<longleftrightarrow> TrimSpace v \<noteq> []"
  by (auto simp: nonblank_or_def)

lemma mux_version_or [simp]: "mux_version_or 1 v \<in> {1, 2}" "mux_version_or 1 v = v \<longleftrightarrow> v \<in> {1, 2}"
  by (auto simp: mux_version_or_def)

lemma default_texts_nonblank [simp]:
  "TrimSpace ''16kb'' \<noteq> []" "TrimSpace ''2mb'' \<noteq> []"
  by (simp_all add: TrimSpace_def is_space_def)

lemma default_server_ok: "level_ok ''info'' \<Longrightarrow> server_ok level_ok (default_server level_ok s)"
  using mux_version_or(1) [of "srv_MuxVersion s"] by (auto simp: server_ok_def default_server_def)

lemma default_client_ok: "level_ok ''info'' \<Longrightarrow> client_ok level_ok (default_client level_ok c)"
  using mux_version_or(1) [of "cl_MuxVersion c"] by (auto simp: client_ok_def default_client_def)

lemma default_gateways_ok: "sni_gateway_ok (default_sni_gateway g)"
  "http_gateway_ok (default_http_gateway h)"
  by (simp_all add: sni_gateway_ok_def http_gateway_ok_def default_sni_gateway_def
      default_http_gateway_def)

lemma default_server_fixed: "server_ok level_ok s \<Longrightarrow> default_server level_ok s = s"
  by (rule ServerConfig.equality) (auto simp: server_ok_def default_server_def)

lemma default_client_fixed: "client_ok level_ok c \<Longrightarrow> default_client level_ok c = c"
  by (rule ClientConfig.equality) (auto simp: client_ok_def default_client_def)

lemma default_gateways_fixed: "sni_gateway_ok g \<Longrightarrow> default_sni_gateway g = g"
  "http_gateway_ok h \<Longrightarrow> default_http_gateway h = h"
  by (auto simp: sni_gateway_ok_def http_gateway_ok_def default_sni_gateway_def
      default_http_gateway_def intro: SNIGatewayConfig.equality HTTPGatewayConfig.equality)

lemma applyDefaults_config_ok: "level_ok ''info'' \<Longrightarrow> config_ok level_ok (applyDefaults level_ok cfg)"
  by (simp add: config_ok_def applyDefaults_def list_all_iff default_server_ok default_client_ok
      default_gateways_ok)

lemma config_ok_fixed: "config_ok level_ok cfg \<Longrightarrow> applyDefaults level_ok cfg = cfg"
  by (rule Config.equality) (auto simp: config_ok_def applyDefaults_def list_all_iff
      default_server_fixed default_client_fixed default_gateways_fixed intro: map_idI)

section \<open>Properties\<close>

text \<open>After \<^verbatim>\<open>applyDefaults\<close> every entry satisfies the contract the rest of the program
  relies on: tokens, log levels and buffer texts are set, sizes, intervals and timeouts are
  positive, and the mux version is 1 or 2, whatever the TOML file held.\<close>

theorem applyDefaults_establishes:
  assumes "level_ok ''info''"
  shows "config_ok level_ok (applyDefaults level_ok cfg)"
  using assms by (rule applyDefaults_config_ok)

theorem applyDefaults_establishes_witness:
  "config_ok (\<lambda>l. l = ''info'') (applyDefaults (\<lambda>l. l = ''info'')
     (zero_config\<lparr>cf_Servers := [zero_server], cf_Clients := [zero_client]\<rparr>))"
  by (rule applyDefaults_establishes) simp

text \<open>\<^verbatim>\<open>applyDefaults\<close> changes a configuration exactly when the configuration breaks the
  contract; explicit valid values are never overwritten, and running the pass twice (as a hot
  reload of the same file does) is running it once.\<close>

theorem applyDefaults_changes_iff:
  assumes "level_ok ''info''"
  shows "(applyDefaults level_ok cfg = cfg \<longleftrightarrow> config_ok level_ok cfg)
    \<and> applyDefaults level_ok (applyDefaults level_ok cfg) = applyDefaults level_ok cfg"
  using config_ok_fixed applyDefaults_config_ok assms by metis

theorem applyDefaults_changes_iff_witness:
  "applyDefaults (\<lambda>l. l = ''info'') zero_config = zero_config"
  using applyDefaults_changes_iff [of "\<lambda>l. l = ''info''" zero_config]
  by (simp add: config_ok_def zero_config_def)

end
