(* ===== verification/Byte_Size.thy ===== *)
theory Byte_Size
  imports Config
begin

text \<open>
  The size and duration options of \<^verbatim>\<open>cmd/validate.go\<close>: \<^verbatim>\<open>parseByteSize\<close>,
  \<^verbatim>\<open>parseTunnelTCPBuffer\<close>, \<^verbatim>\<open>parseTCPCopyBuffer\<close>, \<^verbatim>\<open>parseOptionalDuration\<close> and
  \<^verbatim>\<open>validateRuntimeConfig\<close>.  Sizes are computed in the 64-bit \<^verbatim>\<open>int\<close> of Go
  (\<^const>\<open>wrap64\<close>), so that the overflow guard of the source is what makes the result exact.
  \<^verbatim>\<open>time.ParseDuration\<close> is the parameter \<open>parse_dur\<close> (\<open>None\<close> is its error).
\<close>

section \<open>Byte sizes\<close>

datatype size_error =
  EmptyValue | InvalidValue string | AtoiFailed string | NotPositive string | TooLarge string
| AutoNotSupported string | BelowMin string | AboveMax string

definition isAllDigits :: "string \<Rightarrow> bool" where
  "isAllDigits s \<longleftrightarrow> list_all (\<lambda>r. \<not> ((of_char r :: nat) < 48 \<or> (of_char r :: nat) > 57)) s \<and> s \<noteq> []"

definition parseByteSize :: "string \<Rightarrow> size_error + int" where
  "parseByteSize value =
     (let v = ToLower (TrimSpace value) in
      if v = [] then Inl EmptyValue else
      let (multiplier, numStr) =
            (if HasSuffix v ''kb'' then (1024, TrimSuffix v ''kb'')
             else if HasSuffix v ''mb'' then (1024 * 1024, TrimSuffix v ''mb'')
             else (1, v)) in
      if numStr = [] \<or> \<not> isAllDigits numStr then Inl (InvalidValue value) else
      (case Atoi numStr of
         None \<Rightarrow> Inl (AtoiFailed value)
       | Some n \<Rightarrow>
           if n \<le> 0 then Inl (NotPositive value)
           else if n > MaxInt div multiplier then Inl (TooLarge value)
           else Inr (wrap64 (n * multiplier))))"

definition parseTunnelTCPBuffer :: "string \<Rightarrow> size_error + int" where
  "parseTunnelTCPBuffer value =
     (if ToLower (TrimSpace value) = ''auto'' then Inr 0 else parseByteSize value)"

definition minTCPCopyBuffer :: int where "minTCPCopyBuffer = 1024"
definition maxTCPCopyBuffer :: int where "maxTCPCopyBuffer = 1024 * 1024"

definition parseTCPCopyBuffer :: "string \<Rightarrow> size_error + int" where
  "parseTCPCopyBuffer value =
     (if ToLower (TrimSpace value) = ''auto'' then Inl (AutoNotSupported value) else
      sum_bind (parseByteSize value) (\<lambda>n.
        if n < minTCPCopyBuffer then Inl (BelowMin value)
        else if n > maxTCPCopyBuffer then Inl (AboveMax value)
        else Inr n))"

subsection \<open>What the parser accepts\<close>

text \<open>The grammar of the documentation: digits, then nothing, \<^verbatim>\<open>kb\<close> or \<^verbatim>\<open>mb\<close>.\<close>

definition size_units :: "(string \<times> int) set" where
  "size_units = {('''', 1), (''kb'', 1024), (''mb'', 1048576)}"

definition denotes_size :: "string \<Rightarrow> int \<Rightarrow> bool" where
  "denotes_size s k \<longleftrightarrow> (\<exists>ds suf m. ToLower (TrimSpace s) = ds @ suf \<and> (suf, m) \<in> size_units
     \<and> ds \<noteq> [] \<and> list_all is_digit ds \<and> k = int (digits_val ds) * m)"

lemma isAllDigits_iff: "isAllDigits s \<longleftrightarrow> list_all is_digit s \<and> s \<noteq> []"
  by (auto simp: isAllDigits_def is_digit_def list_all_iff not_less)

lemma digits_no_unit: "list_all is_digit ds \<Longrightarrow> \<not> HasSuffix ds ''kb''"
  "list_all is_digit ds \<Longrightarrow> \<not> HasSuffix ds ''mb''" "\<not> HasSuffix (ds @ ''mb'') ''kb''"
  by (auto simp: HasSuffix_iff is_digit_def)

lemma TrimSuffix_eqD: "HasSuffix v p \<Longrightarrow> v = TrimSuffix v p @ p"
  by (auto simp: HasSuffix_iff)

text \<open>The body of the parser once the unit is known.\<close>

definition size_of_digits :: "string \<Rightarrow> string \<Rightarrow> int \<Rightarrow> size_error + int" where
  "size_of_digits value ds m =
     (if ds = [] \<or> \<not> isAllDigits ds then Inl (InvalidValue value) else
      (case Atoi ds of
         None \<Rightarrow> Inl (AtoiFailed value)
       | Some n \<Rightarrow>
           if n \<le> 0 then Inl (NotPositive value)
           else if n > MaxInt div m then Inl (TooLarge value)
           else Inr (wrap64 (n * m))))"

lemma size_of_digits_Inr:
  assumes "m \<in> {1, 1024, 1048576}"
  shows "size_of_digits v ds m = Inr k \<longleftrightarrow>
    ds \<noteq> [] \<and> list_all is_digit ds \<and> k = int (digits_val ds) * m \<and> 0 < k \<and> k \<le> MaxInt"
proof (cases "ds \<noteq> [] \<and> list_all is_digit ds")
  case True
  have le: "int (digits_val ds) * m \<le> MaxInt \<longleftrightarrow> int (digits_val ds) \<le> MaxInt div m"
    using assms by (auto simp: MaxInt_def)
  then have "wrap64 (int (digits_val ds) * m) = int (digits_val ds) * m"
    if "int (digits_val ds) \<le> MaxInt div m"
    using that assms by (intro wrap64_id) (auto simp: MaxInt_def)
  with True assms le show ?thesis
    by (auto simp: size_of_digits_def isAllDigits_iff Atoi_digits MaxInt_def)
qed (auto simp: size_of_digits_def isAllDigits_iff)

lemma parseByteSize_unfold:
  "parseByteSize value =
     (let v = ToLower (TrimSpace value) in
      if v = [] then Inl EmptyValue
      else if HasSuffix v ''kb'' then size_of_digits value (TrimSuffix v ''kb'') 1024
      else if HasSuffix v ''mb'' then size_of_digits value (TrimSuffix v ''mb'') 1048576
      else size_of_digits value v 1)"
  by (simp add: parseByteSize_def size_of_digits_def Let_def)

lemma parseByteSize_sound: "parseByteSize s = Inr k \<Longrightarrow> denotes_size s k \<and> 0 < k \<and> k \<le> MaxInt"
proof -
  assume p: "parseByteSize s = Inr k"
  let ?v = "ToLower (TrimSpace s)"
  have unit: "denotes_size s k \<and> 0 < k \<and> k \<le> MaxInt"
    if "size_of_digits s ds m = Inr k" "(suf, m) \<in> size_units" "?v = ds @ suf" for ds suf m
    using that size_of_digits_Inr [of m s ds k] unfolding denotes_size_def size_units_def by auto
  consider "size_of_digits s (TrimSuffix ?v ''kb'') 1024 = Inr k" "HasSuffix ?v ''kb''"
    | "size_of_digits s (TrimSuffix ?v ''mb'') 1048576 = Inr k" "HasSuffix ?v ''mb''"
    | "size_of_digits s ?v 1 = Inr k"
    using p unfolding parseByteSize_unfold Let_def by (auto split: if_splits)
  then show ?thesis
  proof cases
    case 1
    then show ?thesis using unit [of _ 1024 "''kb''"] by (simp add: size_units_def TrimSuffix_eqD)
  next
    case 2
    then show ?thesis using unit [of _ 1048576 "''mb''"] by (simp add: size_units_def TrimSuffix_eqD)
  next
    case 3
    then show ?thesis using unit [of _ 1 "''''"] by (simp add: size_units_def)
  qed
qed

lemma parseByteSize_complete:
  assumes "denotes_size s k" "0 < k" "k \<le> MaxInt"
  shows "parseByteSize s = Inr k"
proof -
  from assms(1) obtain ds suf m where v: "ToLower (TrimSpace s) = ds @ suf"
    and u: "(suf, m) \<in> size_units" and ds: "ds \<noteq> []" "list_all is_digit ds"
    and k: "k = int (digits_val ds) * m"
    unfolding denotes_size_def by blast
  from u have "m \<in> {1, 1024, 1048576}" by (auto simp: size_units_def)
  with ds k assms(2,3) have body: "size_of_digits s ds m = Inr k" by (simp add: size_of_digits_Inr)
  from u ds show ?thesis
    unfolding parseByteSize_unfold v Let_def size_units_def
    using body by (auto simp: digits_no_unit)
qed

lemma parseByteSize_Inr: "parseByteSize s = Inr k \<longleftrightarrow> denotes_size s k \<and> 0 < k \<and> k \<le> MaxInt"
  using parseByteSize_sound parseByteSize_complete by blast

lemma auto_no_size: "ToLower (TrimSpace s) = ''auto'' \<Longrightarrow> \<not> denotes_size s k"
  by (auto simp: denotes_size_def size_units_def is_digit_def append_eq_Cons_conv dest: sym)

lemma parseTCPCopyBuffer_Inr:
  "parseTCPCopyBuffer s = Inr k \<longleftrightarrow> denotes_size s k \<and> 1024 \<le> k \<and> k \<le> 1048576"
proof (cases "ToLower (TrimSpace s) = ''auto''")
  case False
  have "k \<le> 1048576 \<Longrightarrow> k \<le> MaxInt" by (simp add: MaxInt_def)
  then show ?thesis
    using False parseByteSize_Inr [of s k]
    by (cases "parseByteSize s") (auto simp: parseTCPCopyBuffer_def minTCPCopyBuffer_def maxTCPCopyBuffer_def)
qed (simp add: parseTCPCopyBuffer_def auto_no_size)

lemma parseTunnelTCPBuffer_Inr:
  "parseTunnelTCPBuffer s = Inr k \<longleftrightarrow>
     (if ToLower (TrimSpace s) = ''auto'' then k = 0 else denotes_size s k \<and> 0 < k \<and> k \<le> MaxInt)"
  by (auto simp: parseTunnelTCPBuffer_def parseByteSize_Inr)

lemma default_sizes: "parseTCPCopyBuffer ''16kb'' = Inr 16384"
  "parseTunnelTCPBuffer ''2mb'' = Inr 2097152"
  by code_simp+

section \<open>Durations\<close>

datatype duration_error =
  InvalidDuration string | DurationNotPositive string | DurationTooShort string Duration

definition minMemoryReleaseInterval :: Duration where "minMemoryReleaseInterval = Second"
definition minAutoRestartInterval :: Duration where "minAutoRestartInterval = Minute"

definition parseOptionalDuration ::
  "(string \<Rightarrow> Duration option) \<Rightarrow> string \<Rightarrow> string \<Rightarrow> Duration \<Rightarrow> duration_error + Duration" where
  "parseOptionalDuration parse_dur nm value mn =
     (let v = TrimSpace value in
      if v = [] \<or> v = ''0'' \<or> v = ''0s'' then Inr 0 else
      (case parse_dur v of
         None \<Rightarrow> Inl (InvalidDuration nm)
       | Some d \<Rightarrow>
           if d \<le> 0 then Inl (DurationNotPositive nm)
           else if mn > 0 \<and> d < mn then Inl (DurationTooShort nm mn)
           else Inr d))"

definition validateRuntimeConfig ::
  "(string \<Rightarrow> Duration option) \<Rightarrow> RuntimeConfig \<Rightarrow> duration_error + RuntimeConfig" where
  "validateRuntimeConfig parse_dur r =
     sum_bind (parseOptionalDuration parse_dur ''memory_release_interval''
         (rt_MemoryReleaseInterval r) minMemoryReleaseInterval) (\<lambda>d.
     let r = r\<lparr>rt_MemoryReleaseIntervalDuration := d\<rparr> in
     sum_bind (parseOptionalDuration parse_dur ''auto_restart_interval''
         (rt_AutoRestartInterval r) minAutoRestartInterval) (\<lambda>d.
     Inr (r\<lparr>rt_AutoRestartIntervalDuration := d\<rparr>)))"

lemma parseOptionalDuration_bounds:
  "parseOptionalDuration parse_dur nm value mn = Inr d \<Longrightarrow> 0 < mn \<Longrightarrow>
     d = 0 \<or> (mn \<le> d \<and> parse_dur (TrimSpace value) = Some d)"
  by (auto simp: parseOptionalDuration_def Let_def split: if_splits option.splits)

lemma validateRuntimeConfig_bounds:
  assumes "validateRuntimeConfig parse_dur r = Inr r'"
  shows "(rt_MemoryReleaseIntervalDuration r' = 0 \<or> Second \<le> rt_MemoryReleaseIntervalDuration r')
    \<and> (rt_AutoRestartIntervalDuration r' = 0 \<or> Minute \<le> rt_AutoRestartIntervalDuration r')"
  using assms
  by (auto simp: validateRuntimeConfig_def Let_def minMemoryReleaseInterval_def
      minAutoRestartInterval_def Second_def Minute_def dest!: parseOptionalDuration_bounds)

section \<open>Properties\<close>

text \<open>\<^verbatim>\<open>parseByteSize\<close> accepts exactly the documented sizes: a text that denotes
  digits and an optional kb or mb unit, whose value is positive and fits an \<^verbatim>\<open>int\<close>; and the
  value it returns is the denoted number, never a wrapped product.\<close>

theorem parseByteSize_spec:
  "parseByteSize s = Inr k \<longleftrightarrow> denotes_size s k \<and> 0 < k \<and> k \<le> MaxInt"
  by (rule parseByteSize_Inr)

text \<open>The copy buffer the relay allocates is between 1 KB and 1 MB for every text that
  validation accepts, and every documented size in that range is accepted.\<close>

theorem parseTCPCopyBuffer_spec:
  "parseTCPCopyBuffer s = Inr k \<longleftrightarrow> denotes_size s k \<and> 1024 \<le> k \<and> k \<le> 1048576"
  by (rule parseTCPCopyBuffer_Inr)

text \<open>The tunnel buffer is 0 (leave it to the kernel) exactly for \<^verbatim>\<open>auto\<close>; every other
  accepted text gives its positive number of bytes.\<close>

theorem parseTunnelTCPBuffer_zero:
  "parseTunnelTCPBuffer s = Inr 0 \<longleftrightarrow> ToLower (TrimSpace s) = ''auto''"
  by (auto simp: parseTunnelTCPBuffer_Inr)

text \<open>A validated runtime section has each interval either disabled (0) or at least its
  minimum, one second for the memory release and one minute for the restart, whatever
  \<^verbatim>\<open>time.ParseDuration\<close> returns.\<close>

theorem validateRuntimeConfig_intervals:
  assumes "validateRuntimeConfig parse_dur r = Inr r'"
  shows "(rt_MemoryReleaseIntervalDuration r' = 0 \<or> Second \<le> rt_MemoryReleaseIntervalDuration r')
    \<and> (rt_AutoRestartIntervalDuration r' = 0 \<or> Minute \<le> rt_AutoRestartIntervalDuration r')"
  using assms by (rule validateRuntimeConfig_bounds)

theorem validateRuntimeConfig_intervals_witness:
  "Minute \<le> rt_AutoRestartIntervalDuration
     (cf_Runtime zero_config\<lparr>rt_AutoRestartInterval := ''5m'', rt_AutoRestartIntervalDuration := 300 * Second\<rparr>)"
  using validateRuntimeConfig_intervals [of "\<lambda>_. Some (300 * Second)"
      "cf_Runtime zero_config\<lparr>rt_AutoRestartInterval := ''5m''\<rparr>"
      "cf_Runtime zero_config\<lparr>rt_AutoRestartInterval := ''5m'', rt_AutoRestartIntervalDuration := 300 * Second\<rparr>"]
  by (simp add: validateRuntimeConfig_def parseOptionalDuration_def zero_config_def TrimSpace_def
      is_space_def minMemoryReleaseInterval_def minAutoRestartInterval_def Second_def Minute_def)

end
