(* ===== verification/Listen_Check.thy ===== *)
theory Listen_Check
  imports Listen_Addr
begin

text \<open>
  What \<^verbatim>\<open>validateListeners\<close> decides.  A claim is an address a configuration opens, with its
  owner; \<open>listen_claims\<close> lists them in the order of the loops of the source, and \<open>apart\<close>
  says that no two of them collide.  \<open>represents\<close> is the abstraction of the two maps: the
  claims registered so far.
\<close>

section \<open>The contract\<close>

type_synonym claim = "listenOwner \<times> string \<times> int"

abbreviation claim_addr :: "claim \<Rightarrow> string \<times> int" where "claim_addr c \<equiv> snd c"

definition collide :: "string \<times> int \<Rightarrow> string \<times> int \<Rightarrow> bool" where
  "collide a b \<longleftrightarrow> snd a = snd b
     \<and> (isWildcardHost (fst a) \<or> isWildcardHost (fst b) \<or> fst a = fst b)"

definition bind_claims :: "ServerConfig \<Rightarrow> claim list" where
  "bind_claims s = (case parseHostPort (srv_BindAddr s) of
     Inl _ \<Rightarrow> [] | Inr a \<Rightarrow> [(\<lparr>lo_kind = ownerBind, lo_name = srv_Name s\<rparr>, a)])"

definition mapping_claims :: "ServerConfig \<Rightarrow> string \<Rightarrow> claim list" where
  "mapping_claims s pm = (case portMappingListenAddrs pm of
     Inl _ \<Rightarrow> [] | Inr as \<Rightarrow> map (Pair \<lparr>lo_kind = ownerPort, lo_name = srv_Name s\<rparr>) as)"

definition server_claims :: "ServerConfig \<Rightarrow> claim list" where
  "server_claims s = bind_claims s @ concat (map (mapping_claims s) (srv_Ports s))"

definition gateway_claims :: "ownerKind \<Rightarrow> string \<times> string \<Rightarrow> claim list" where
  "gateway_claims kind g = (case parseHostPort (snd g) of
     Inl _ \<Rightarrow> [] | Inr a \<Rightarrow> [(\<lparr>lo_kind = kind, lo_name = fst g\<rparr>, a)])"

abbreviation sni_listeners :: "Config \<Rightarrow> (string \<times> string) list" where
  "sni_listeners cfg \<equiv> map (\<lambda>g. (sg_Name g, sg_ListenAddr g)) (cf_SNIGateways cfg)"

abbreviation http_listeners :: "Config \<Rightarrow> (string \<times> string) list" where
  "http_listeners cfg \<equiv> map (\<lambda>g. (hg_Name g, hg_ListenAddr g)) (cf_HTTPGateways cfg)"

definition listen_claims :: "Config \<Rightarrow> claim list" where
  "listen_claims cfg = concat (map server_claims (cf_Servers cfg))
     @ concat (map (gateway_claims ownerSNIGateway) (sni_listeners cfg))
     @ concat (map (gateway_claims ownerHTTPGateway) (http_listeners cfg))"

definition parses :: "'e + 'a \<Rightarrow> bool" where
  "parses r \<longleftrightarrow> (case r of Inl _ \<Rightarrow> False | Inr _ \<Rightarrow> True)"

definition addresses_parse :: "Config \<Rightarrow> bool" where
  "addresses_parse cfg \<longleftrightarrow>
     list_all (\<lambda>s. list_all (\<lambda>pm. parses (portMappingListenAddrs pm)) (srv_Ports s)) (cf_Servers cfg)
     \<and> list_all (\<lambda>g. parses (parseHostPort (snd g))) (sni_listeners cfg)
     \<and> list_all (\<lambda>g. parses (parseHostPort (snd g))) (http_listeners cfg)"

text \<open>No two listeners collide.\<close>

definition apart :: "claim list \<Rightarrow> bool" where
  "apart cs \<longleftrightarrow> sorted_wrt (\<lambda>c d. \<not> collide (claim_addr c) (claim_addr d)) cs"

text \<open>No server repeats one of its own addresses.\<close>

definition is_server :: "listenOwner \<Rightarrow> bool" where
  "is_server o' \<longleftrightarrow> lo_kind o' = ownerBind \<or> lo_kind o' = ownerPort"

definition own_apart :: "claim list \<Rightarrow> bool" where
  "own_apart cs \<longleftrightarrow> sorted_wrt (\<lambda>c d. is_server (fst d) \<and> lo_name (fst c) = lo_name (fst d)
     \<longrightarrow> \<not> collide (claim_addr c) (claim_addr d)) cs"

definition pick_ok :: "pick_host \<Rightarrow> bool" where
  "pick_ok pick \<longleftrightarrow> (\<forall>xs. xs \<noteq> [] \<longrightarrow> pick xs \<in> set xs)"

lemma parses_iff: "parses r \<longleftrightarrow> (\<exists>x. r = Inr x)"
  by (cases r) (auto simp: parses_def)

section \<open>One loop over all claims\<close>

definition claim_error :: "claim \<Rightarrow> listenOwner \<Rightarrow> listen_error" where
  "claim_error c existing =
     (let nm = lo_name (fst c); addr = formatListenAddr (fst (snd c)) (snd (snd c)) in
      case lo_kind (fst c) of
        ownerBind \<Rightarrow> DupBindAddr addr (lo_name existing) nm
      | ownerPort \<Rightarrow> DupPortListener addr (lo_name existing) nm
      | kind \<Rightarrow> gatewayConflictError kind nm addr existing)"

definition claim_step :: "pick_host \<Rightarrow> claim \<Rightarrow> listeners \<Rightarrow> listen_error + listeners" where
  "claim_step pick c st =
     (case register pick (fst (snd c)) (snd (snd c)) (fst c) st of
        (st', None) \<Rightarrow> Inr st'
      | (st', Some existing) \<Rightarrow>
          if is_server (fst c) \<and> lo_name existing = lo_name (fst c) then Inr st'
          else Inl (claim_error c existing))"

lemma register_bind_claims: "register_bind pick s st = fold_sum (claim_step pick) (bind_claims s) st"
  by (auto simp: register_bind_def bind_claims_def claim_step_def claim_error_def is_server_def
      Let_def sum_bind_def split: sum.split option.split prod.split)

lemma register_port_claim:
  "register_port pick s = (\<lambda>a. claim_step pick (\<lparr>lo_kind = ownerPort, lo_name = srv_Name s\<rparr>, a))"
  by (rule ext, rule ext) (auto simp: register_port_def claim_step_def claim_error_def is_server_def
      Let_def split: option.split prod.split)

lemma register_mapping_claims: "register_mapping pick s pm st = Inr t \<longleftrightarrow>
    parses (portMappingListenAddrs pm) \<and> fold_sum (claim_step pick) (mapping_claims s pm) st = Inr t"
  unfolding register_mapping_def mapping_claims_def parses_def register_port_claim
  by (cases "portMappingListenAddrs pm") (simp_all add: fold_sum_map)

lemma register_server_claims: "register_server pick s st = Inr t \<longleftrightarrow>
    list_all (\<lambda>pm. parses (portMappingListenAddrs pm)) (srv_Ports s)
    \<and> fold_sum (claim_step pick) (server_claims s) st = Inr t"
  by (auto simp: register_server_def server_claims_def register_bind_claims fold_sum_append
      fold_sum_concat [OF register_mapping_claims])

lemma register_gateway_claims:
  assumes "\<not> is_server \<lparr>lo_kind = kind, lo_name = fst g\<rparr>"
  shows "register_gateway pick kind g st = Inr t \<longleftrightarrow>
    parses (parseHostPort (snd g)) \<and> fold_sum (claim_step pick) (gateway_claims kind g) st = Inr t"
  using assms
  by (auto simp: register_gateway_def gateway_claims_def parses_def claim_step_def is_server_def
      split: sum.split option.split prod.split)

abbreviation no_listeners :: listeners where
  "no_listeners \<equiv> \<lparr>portWildcard = Map.empty, portHosts = (\<lambda>_. [])\<rparr>"

lemma validateListeners_claims: "validateListeners pick cfg = Inr t \<longleftrightarrow>
    addresses_parse cfg \<and> fold_sum (claim_step pick) (listen_claims cfg) no_listeners = Inr t"
proof -
  have sni: "fold_sum (register_gateway pick ownerSNIGateway) gs s = Inr u \<longleftrightarrow>
      list_all (\<lambda>g. parses (parseHostPort (snd g))) gs
      \<and> fold_sum (claim_step pick) (concat (map (gateway_claims ownerSNIGateway) gs)) s = Inr u" for gs s u
    by (rule fold_sum_concat) (rule register_gateway_claims, simp add: is_server_def)
  have http: "fold_sum (register_gateway pick ownerHTTPGateway) gs s = Inr u \<longleftrightarrow>
      list_all (\<lambda>g. parses (parseHostPort (snd g))) gs
      \<and> fold_sum (claim_step pick) (concat (map (gateway_claims ownerHTTPGateway) gs)) s = Inr u" for gs s u
    by (rule fold_sum_concat) (rule register_gateway_claims, simp add: is_server_def)
  show ?thesis
    unfolding validateListeners_def listen_claims_def addresses_parse_def fold_sum_append
      sum_bind_Inr sni http fold_sum_concat [OF register_server_claims] by blast
qed

section \<open>The maps represent the registered claims\<close>

definition represents :: "listeners \<Rightarrow> claim list \<Rightarrow> bool" where
  "represents st cs \<longleftrightarrow>
     (\<forall>p ow. portWildcard st p = Some ow \<longleftrightarrow> (\<exists>h. (ow, h, p) \<in> set cs \<and> isWildcardHost h))
     \<and> (\<forall>p h ow. map_of (portHosts st p) h = Some ow \<longleftrightarrow> (ow, h, p) \<in> set cs \<and> \<not> isWildcardHost h)
     \<and> (\<forall>p. distinct (map fst (portHosts st p)))"

lemma represents_empty: "represents no_listeners []"
  by (simp add: represents_def)

lemma represents_hosts:
  "represents st cs \<Longrightarrow> (h, ow) \<in> set (portHosts st p) \<longleftrightarrow> (ow, h, p) \<in> set cs \<and> \<not> isWildcardHost h"
  by (auto simp: represents_def)

lemma register_free:
  assumes "represents st cs" and "register pick h p ow st = (st', None)"
  shows "represents st' (cs @ [(ow, h, p)])" and "\<forall>c \<in> set cs. \<not> collide (claim_addr c) (h, p)"
proof -
  note R = assms(1) [unfolded represents_def]
  note W = R [THEN conjunct1] and H = represents_hosts [OF assms(1)]
  have w: "portWildcard st p = None"
    using assms(2) by (auto simp: register_def split: option.splits)
  then have w': "\<not> (\<exists>ow h. (ow, h, p) \<in> set cs \<and> isWildcardHost h)" using W by (metis option.discI)
  have hn: "isWildcardHost h \<Longrightarrow> portHosts st p = []" "\<not> isWildcardHost h \<Longrightarrow> map_of (portHosts st p) h = None"
    and st': "st' = (if isWildcardHost h then st\<lparr>portWildcard := (portWildcard st)(p \<mapsto> ow)\<rparr>
      else st\<lparr>portHosts := (portHosts st)(p := (h, ow) # portHosts st p)\<rparr>)"
    using assms(2) w by (auto simp: register_def split: if_splits option.splits)
  show "\<forall>c \<in> set cs. \<not> collide (claim_addr c) (h, p)"
  proof (clarsimp simp: collide_def)
    fix ow' h' assume c: "(ow', h', p) \<in> set cs"
    with w' have "\<not> isWildcardHost h'" by blast
    with c have "(h', ow') \<in> set (portHosts st p)" by (simp add: H)
    moreover from this have "h' \<in> fst ` set (portHosts st p)" by (rule rev_image_eqI) simp
    ultimately show "\<not> isWildcardHost h' \<and> \<not> isWildcardHost h \<and> h' \<noteq> h"
      using hn \<open>\<not> isWildcardHost h'\<close> by (auto simp: map_of_eq_None_iff)
  qed
  show "represents st' (cs @ [(ow, h, p)])"
  proof (cases "isWildcardHost h")
    case True
    with R w w' show ?thesis unfolding represents_def st' by auto
  next
    case False
    with R hn(2) show ?thesis unfolding represents_def st'
      by (auto simp: map_of_eq_None_iff)
  qed
qed

lemma register_taken:
  assumes "represents st cs" and "pick_ok pick" and "register pick h p ow st = (st', Some e)"
  shows "st' = st" and "\<exists>c \<in> set cs. fst c = e \<and> collide (claim_addr c) (h, p)"
proof -
  note R = assms(1) [unfolded represents_def] and H = represents_hosts [OF assms(1)]
  show "st' = st" using assms(3) by (auto simp: register_def split: option.splits if_splits)
  consider "portWildcard st p = Some e"
    | "isWildcardHost h" "portHosts st p \<noteq> []" "snd (pick (portHosts st p)) = e"
    | "map_of (portHosts st p) h = Some e"
    using assms(3) by (auto simp: register_def split: option.splits if_splits)
  then show "\<exists>c \<in> set cs. fst c = e \<and> collide (claim_addr c) (h, p)"
  proof cases
    case 1
    then obtain h' where "(e, h', p) \<in> set cs" "isWildcardHost h'" using R by blast
    then show ?thesis by (intro bexI [of _ "(e, h', p)"]) (auto simp: collide_def)
  next
    case 2
    then have "pick (portHosts st p) \<in> set (portHosts st p)" using assms(2) by (simp add: pick_ok_def)
    with 2 obtain h' where "(h', e) \<in> set (portHosts st p)" by (metis surjective_pairing)
    then have "(e, h', p) \<in> set cs" by (simp add: H)
    with 2 show ?thesis by (intro bexI [of _ "(e, h', p)"]) (auto simp: collide_def)
  next
    case 3
    then have "(e, h, p) \<in> set cs" using R by blast
    then show ?thesis by (intro bexI [of _ "(e, h, p)"]) (auto simp: collide_def)
  qed
qed

lemma apart_snoc: "apart (cs @ [c]) \<longleftrightarrow> apart cs \<and> (\<forall>d \<in> set cs. \<not> collide (claim_addr d) (claim_addr c))"
  by (simp add: apart_def sorted_wrt_append)

lemma own_apart_snoc: "own_apart (cs @ [c]) \<longleftrightarrow> own_apart cs \<and> (\<forall>d \<in> set cs. is_server (fst c)
    \<and> lo_name (fst d) = lo_name (fst c) \<longrightarrow> \<not> collide (claim_addr d) (claim_addr c))"
  by (auto simp: own_apart_def sorted_wrt_append)

text \<open>Where no server repeats an address, the loop ends well exactly on claims that are apart,
  and then both maps together hold all of them.\<close>

lemma claims_checked:
  assumes "pick_ok pick" and "own_apart cs"
  shows "(\<exists>st. fold_sum (claim_step pick) cs no_listeners = Inr st \<and> represents st cs) \<and> apart cs
    \<or> (\<exists>e. fold_sum (claim_step pick) cs no_listeners = Inl e) \<and> \<not> apart cs"
  using assms(2)
proof (induction cs rule: rev_induct)
  case Nil
  show ?case by (simp add: represents_empty apart_def)
next
  case (snoc c cs)
  then have IH: "(\<exists>st. fold_sum (claim_step pick) cs no_listeners = Inr st \<and> represents st cs) \<and> apart cs
    \<or> (\<exists>e. fold_sum (claim_step pick) cs no_listeners = Inl e) \<and> \<not> apart cs"
    by (simp add: own_apart_snoc)
  show ?case
  proof (cases "apart cs")
    case False
    with IH show ?thesis by (auto simp: fold_sum_append apart_snoc)
  next
    case True
    with IH obtain st where st: "fold_sum (claim_step pick) cs no_listeners = Inr st" "represents st cs"
      by auto
    obtain ow h p where c: "c = (ow, h, p)" by (cases c)
    show ?thesis
    proof (cases "register pick h p ow st")
      case (Pair st' r)
      show ?thesis
      proof (cases r)
        case None
        then have step: "claim_step pick c st = Inr st'" by (simp add: claim_step_def c Pair)
        from None Pair have "register pick h p ow st = (st', None)" by simp
        note free = register_free [OF st(2) this]
        from step have "fold_sum (claim_step pick) (cs @ [c]) no_listeners = Inr st'"
          unfolding fold_sum_append st(1) by simp
        with free True show ?thesis by (simp add: c apart_snoc)
      next
        case (Some e)
        with register_taken [OF st(2) assms(1)] Pair obtain d where
          d: "d \<in> set cs" "fst d = e" "collide (claim_addr d) (h, p)" by blast
        with snoc.prems c have "\<not> (is_server ow \<and> lo_name e = lo_name ow)"
          by (auto simp: own_apart_snoc)
        then have "claim_step pick c st = Inl (claim_error c e)"
          by (simp add: claim_step_def c Pair Some)
        then have "fold_sum (claim_step pick) (cs @ [c]) no_listeners = Inl (claim_error c e)"
          unfolding fold_sum_append st(1) by simp
        moreover have "\<not> apart (cs @ [c])" using d by (auto simp: apart_snoc c)
        ultimately show ?thesis by simp
      qed
    qed
  qed
qed

section \<open>Properties\<close>

text \<open>C18: \<^verbatim>\<open>validateListeners\<close> is exact on configurations in which no server repeats one of
  its own addresses: whatever order Go iterates its maps in, it accepts if and only if every
  mapping and gateway address parses and no two listeners (server binds, server ports, SNI and
  HTTP gateways) collide, wildcard addresses included.\<close>

theorem validateListeners_exact:
  assumes "pick_ok pick" and "own_apart (listen_claims cfg)"
  shows "(\<exists>st. validateListeners pick cfg = Inr st) \<longleftrightarrow> addresses_parse cfg \<and> apart (listen_claims cfg)"
  using claims_checked [OF assms] unfolding validateListeners_claims by auto

text \<open>Two servers and a gateway, each with its own port; the second server shares a port with
  the first one on another address.\<close>

definition two_servers :: Config where
  "two_servers = zero_config\<lparr>
     cf_Servers := [zero_server\<lparr>srv_Name := ''a'', srv_BindAddr := '':3080'', srv_Ports := [''1.2.3.4:80'']\<rparr>,
                    zero_server\<lparr>srv_Name := ''b'', srv_Ports := [''5.6.7.8:80'', ''90-91'']\<rparr>],
     cf_SNIGateways := [\<lparr>sg_Name = ''g'', sg_ListenAddr = '':443'', sg_InspectTimeout = 1,
       sg_DefaultAction = ''reject'', sg_Routes = [], sg_RouteMap = Map.empty\<rparr>]\<rparr>"

lemma pick_ok_hd: "pick_ok hd"
  by (simp add: pick_ok_def)

lemma two_servers_apart: "addresses_parse two_servers" "own_apart (listen_claims two_servers)"
  "apart (listen_claims two_servers)"
  by code_simp+

theorem validateListeners_exact_witness: "\<exists>st. validateListeners hd two_servers = Inr st"
  using validateListeners_exact [of hd two_servers] pick_ok_hd two_servers_apart by blast

definition overlapping :: "string list \<Rightarrow> Config" where
  "overlapping ports = zero_config\<lparr>
     cf_Servers := [zero_server\<lparr>srv_Name := ''a'', srv_Ports := ports\<rparr>,
                    zero_server\<lparr>srv_Name := ''b'', srv_Ports := [''5.6.7.8:80'']\<rparr>]\<rparr>"

text \<open>\<^verbatim>\<open>validateListeners\<close> can accept a configuration whose listeners collide.  A server
  that lists \<^verbatim>\<open>1.2.3.4:80\<close> and then \<^verbatim>\<open>80\<close> opens the wildcard port 80, but the overlap with
  its own first address is skipped without entering the wildcard in the map, so the second
  server's \<^verbatim>\<open>5.6.7.8:80\<close> is not refused; with the two mappings in the other order it is.\<close>

theorem validateListeners_misses_collision:
  "parses (validateListeners hd (overlapping [''1.2.3.4:80'', ''80'']))
   \<and> \<not> parses (validateListeners hd (overlapping [''80'', ''1.2.3.4:80'']))
   \<and> \<not> apart (listen_claims (overlapping [''1.2.3.4:80'', ''80'']))"
  by code_simp

end
