(* ===== verification/Validate.thy ===== *)
theory Validate
  imports Defaults Byte_Size Listen_Check Http_Preread
begin

text \<open>
  \<^verbatim>\<open>validateConfig\<close> of \<^verbatim>\<open>cmd/validate.go\<close>, with the passes over the gateways.  Each function
  returns the configuration as the pass leaves it; \<open>referenced\<close> is the set of keys of the map
  of that name.  \<open>valid_config\<close> and \<open>resolve_config\<close> say in one formula what is accepted and what
  the result is.
\<close>

section \<open>The program\<close>

definition normalizeSNIHost :: "string \<Rightarrow> string" where
  "normalizeSNIHost s = TrimSuffix (ToLower (TrimSpace s)) ''.''"

datatype validate_error =
  RuntimeError duration_error
| EmptyServerName string
| DuplicateServerName string
| EmptyListenAddr ownerKind string
| BadDefaultAction ownerKind string string
| BadMaxHeaderBytes string int
| MissingField ownerKind string string
| DuplicateRoute ownerKind string string
| UnknownServer ownerKind string string string
| UDPServer ownerKind string string string
| ListenError listen_error
| NoInbound string
| BadTunnelBuffer string size_error
| BadServerCopyBuffer string size_error
| BadClientCopyBuffer string size_error

definition map_error :: "('a \<Rightarrow> 'b) \<Rightarrow> 'a + 'c \<Rightarrow> 'b + 'c" where
  "map_error f r = (case r of Inl e \<Rightarrow> Inl (f e) | Inr x \<Rightarrow> Inr x)"

definition index_server ::
  "ServerConfig \<Rightarrow> (string \<rightharpoonup> ServerConfig) \<times> string set
   \<Rightarrow> validate_error + (string \<rightharpoonup> ServerConfig) \<times> string set" where
  "index_server s st =
     (if TrimSpace (srv_Name s) = [] then Inl (EmptyServerName (srv_BindAddr s))
      else if fst st (srv_Name s) \<noteq> None then Inl (DuplicateServerName (srv_Name s))
      else Inr ((fst st)(srv_Name s \<mapsto> s), snd st))"

definition add_sni_route ::
  "(string \<rightharpoonup> ServerConfig) \<Rightarrow> string \<Rightarrow> SNIGatewayRouteConfig
   \<Rightarrow> (string \<rightharpoonup> SNIGatewayRoute) \<times> string set
   \<Rightarrow> validate_error + (string \<rightharpoonup> SNIGatewayRoute) \<times> string set" where
  "add_sni_route serverByName gname route st =
     (let (routeMap, referenced) = st; kind = ownerSNIGateway; sni = normalizeSNIHost (sr_SNI route) in
      if sni = [] then Inl (MissingField kind gname ''sni'') else
      let srv = TrimSpace (sr_Server route) in
      if srv = [] then Inl (MissingField kind gname ''server'') else
      let target = TrimSpace (sr_Target route) in
      if target = [] then Inl (MissingField kind gname ''target'') else
      if routeMap sni \<noteq> None then Inl (DuplicateRoute kind gname sni) else
      (case serverByName srv of
         None \<Rightarrow> Inl (UnknownServer kind gname sni srv)
       | Some ref \<Rightarrow>
           if srv_Transport ref = UDP then Inl (UDPServer kind gname sni srv)
           else Inr (routeMap(sni \<mapsto> \<lparr>sr_SNI = sni, sr_Server = srv, sr_Target = target\<rparr>),
                     referenced \<union> {srv})))"

definition validate_sni_gateway ::
  "(string \<rightharpoonup> ServerConfig) \<Rightarrow> SNIGatewayConfig \<Rightarrow> string set
   \<Rightarrow> validate_error + SNIGatewayConfig \<times> string set" where
  "validate_sni_gateway serverByName g referenced =
     (if TrimSpace (sg_ListenAddr g) = [] then Inl (EmptyListenAddr ownerSNIGateway (sg_Name g))
      else if sg_DefaultAction g \<noteq> ''reject''
      then Inl (BadDefaultAction ownerSNIGateway (sg_Name g) (sg_DefaultAction g)) else
      sum_bind (fold_sum (add_sni_route serverByName (sg_Name g)) (sg_Routes g) (Map.empty, referenced))
        (\<lambda>(routeMap, referenced). Inr (g\<lparr>sg_RouteMap := routeMap\<rparr>, referenced)))"

definition validateGateways ::
  "Config \<Rightarrow> (string \<rightharpoonup> ServerConfig) \<Rightarrow> string set \<Rightarrow> validate_error + Config \<times> string set" where
  "validateGateways cfg serverByName referenced =
     sum_bind (traverse_st (validate_sni_gateway serverByName) (cf_SNIGateways cfg) referenced)
       (\<lambda>(gs, referenced). Inr (cfg\<lparr>cf_SNIGateways := gs\<rparr>, referenced))"

definition minHTTPMaxHeaderBytes :: int where "minHTTPMaxHeaderBytes = 128"
definition maxHTTPMaxHeaderBytes :: int where "maxHTTPMaxHeaderBytes = 1048576"

definition add_http_route ::
  "(string \<rightharpoonup> ServerConfig) \<Rightarrow> string \<Rightarrow> HTTPGatewayRouteConfig
   \<Rightarrow> (string \<rightharpoonup> HTTPGatewayRoute) \<times> string set
   \<Rightarrow> validate_error + (string \<rightharpoonup> HTTPGatewayRoute) \<times> string set" where
  "add_http_route serverByName gname route st =
     (let (routeMap, referenced) = st; kind = ownerHTTPGateway; host = NormalizeHTTPHost (hr_Host route) in
      if host = [] then Inl (MissingField kind gname ''host'') else
      let srv = TrimSpace (hr_Server route) in
      if srv = [] then Inl (MissingField kind gname ''server'') else
      let target = TrimSpace (hr_Target route) in
      if target = [] then Inl (MissingField kind gname ''target'') else
      if routeMap host \<noteq> None then Inl (DuplicateRoute kind gname host) else
      (case serverByName srv of
         None \<Rightarrow> Inl (UnknownServer kind gname host srv)
       | Some ref \<Rightarrow>
           if srv_Transport ref = UDP then Inl (UDPServer kind gname host srv)
           else Inr (routeMap(host \<mapsto> \<lparr>hr_Host = host, hr_Server = srv, hr_Target = target\<rparr>),
                     referenced \<union> {srv})))"

definition validate_http_gateway ::
  "(string \<rightharpoonup> ServerConfig) \<Rightarrow> HTTPGatewayConfig \<Rightarrow> string set
   \<Rightarrow> validate_error + HTTPGatewayConfig \<times> string set" where
  "validate_http_gateway serverByName g referenced =
     (if TrimSpace (hg_ListenAddr g) = [] then Inl (EmptyListenAddr ownerHTTPGateway (hg_Name g))
      else if hg_DefaultAction g \<noteq> ''reject''
      then Inl (BadDefaultAction ownerHTTPGateway (hg_Name g) (hg_DefaultAction g))
      else if hg_MaxHeaderBytes g < minHTTPMaxHeaderBytes \<or> hg_MaxHeaderBytes g > maxHTTPMaxHeaderBytes
      then Inl (BadMaxHeaderBytes (hg_Name g) (hg_MaxHeaderBytes g)) else
      sum_bind (fold_sum (add_http_route serverByName (hg_Name g)) (hg_Routes g) (Map.empty, referenced))
        (\<lambda>(routeMap, referenced). Inr (g\<lparr>hg_RouteMap := routeMap\<rparr>, referenced)))"

definition validateHTTPGateways ::
  "Config \<Rightarrow> (string \<rightharpoonup> ServerConfig) \<Rightarrow> string set \<Rightarrow> validate_error + Config \<times> string set" where
  "validateHTTPGateways cfg serverByName referenced =
     sum_bind (traverse_st (validate_http_gateway serverByName) (cf_HTTPGateways cfg) referenced)
       (\<lambda>(gs, referenced). Inr (cfg\<lparr>cf_HTTPGateways := gs\<rparr>, referenced))"

definition validateConfig ::
  "(string \<Rightarrow> Duration option) \<Rightarrow> pick_host \<Rightarrow> Config \<Rightarrow> validate_error + Config" where
  "validateConfig parse_dur pick cfg =
     sum_bind (map_error RuntimeError (validateRuntimeConfig parse_dur (cf_Runtime cfg))) (\<lambda>rt.
     let cfg = cfg\<lparr>cf_Runtime := rt\<rparr> in
     sum_bind (fold_sum index_server (cf_Servers cfg) (Map.empty, {})) (\<lambda>(serverByName, _).
     sum_bind (validateGateways cfg serverByName {}) (\<lambda>(cfg, referenced).
     sum_bind (validateHTTPGateways cfg serverByName referenced) (\<lambda>(cfg, referenced).
     sum_bind (map_error ListenError (validateListeners pick cfg)) (\<lambda>_.
     sum_bind (fold_sum (\<lambda>s u. check (\<not> (length (srv_Ports s) = 0 \<and> srv_Name s \<notin> referenced))
         (NoInbound (srv_Name s))) (cf_Servers cfg) ()) (\<lambda>_.
     sum_bind (traverse (\<lambda>c. sum_bind (map_error (BadTunnelBuffer (cl_Name c))
         (parseTunnelTCPBuffer (cl_TunnelTCPBuffer c)))
         (\<lambda>b. Inr (c\<lparr>cl_TunnelTCPBufferBytes := b\<rparr>))) (cf_Clients cfg)) (\<lambda>cs.
     let cfg = cfg\<lparr>cf_Clients := cs\<rparr> in
     sum_bind (traverse (\<lambda>s. sum_bind (map_error (BadServerCopyBuffer (srv_Name s))
         (parseTCPCopyBuffer (srv_TCPCopyBuffer s)))
         (\<lambda>b. Inr (s\<lparr>srv_TCPCopyBufferBytes := b\<rparr>))) (cf_Servers cfg)) (\<lambda>ss.
     let cfg = cfg\<lparr>cf_Servers := ss\<rparr> in
     sum_bind (traverse (\<lambda>c. sum_bind (map_error (BadClientCopyBuffer (cl_Name c))
         (parseTCPCopyBuffer (cl_TCPCopyBuffer c)))
         (\<lambda>b. Inr (c\<lparr>cl_TCPCopyBufferBytes := b\<rparr>))) (cf_Clients cfg)) (\<lambda>cs.
     Inr (cfg\<lparr>cf_Clients := cs\<rparr>))))))))))"

end
