(* ===== verification/Validate_Spec.thy ===== *)
theory Validate_Spec
  imports Validate
begin

text \<open>
  The contract of \<^verbatim>\<open>validateConfig\<close>: \<open>valid_config\<close> is the conjunction of its checks, free of
  loops and maps under construction, and \<open>resolve_config\<close> the configuration it leaves.
\<close>

section \<open>The contract\<close>

definition servers_by_name :: "Config \<Rightarrow> string \<rightharpoonup> ServerConfig" where
  "servers_by_name cfg = map_of (map (\<lambda>s. (srv_Name s, s)) (cf_Servers cfg))"

definition route_ok :: "(string \<rightharpoonup> ServerConfig) \<Rightarrow> string \<Rightarrow> string \<Rightarrow> string \<Rightarrow> bool" where
  "route_ok sbn host srv target \<longleftrightarrow> host \<noteq> [] \<and> TrimSpace srv \<noteq> [] \<and> TrimSpace target \<noteq> []
     \<and> (case sbn (TrimSpace srv) of None \<Rightarrow> False | Some s \<Rightarrow> srv_Transport s \<noteq> UDP)"

definition sni_key :: "SNIGatewayRouteConfig \<Rightarrow> string" where
  "sni_key r = normalizeSNIHost (sr_SNI r)"

definition sni_entry :: "SNIGatewayRouteConfig \<Rightarrow> SNIGatewayRoute" where
  "sni_entry r = \<lparr>sr_SNI = sni_key r, sr_Server = TrimSpace (sr_Server r), sr_Target = TrimSpace (sr_Target r)\<rparr>"

definition sni_routes_ok :: "(string \<rightharpoonup> ServerConfig) \<Rightarrow> SNIGatewayConfig \<Rightarrow> bool" where
  "sni_routes_ok sbn g \<longleftrightarrow> TrimSpace (sg_ListenAddr g) \<noteq> [] \<and> sg_DefaultAction g = ''reject''
     \<and> list_all (\<lambda>r. route_ok sbn (sni_key r) (sr_Server r) (sr_Target r)) (sg_Routes g)
     \<and> distinct (map sni_key (sg_Routes g))"

definition sni_resolved :: "SNIGatewayConfig \<Rightarrow> SNIGatewayConfig" where
  "sni_resolved g = g\<lparr>sg_RouteMap := map_of (map (\<lambda>r. (sni_key r, sni_entry r)) (sg_Routes g))\<rparr>"

definition http_key :: "HTTPGatewayRouteConfig \<Rightarrow> string" where
  "http_key r = NormalizeHTTPHost (hr_Host r)"

definition http_entry :: "HTTPGatewayRouteConfig \<Rightarrow> HTTPGatewayRoute" where
  "http_entry r = \<lparr>hr_Host = http_key r, hr_Server = TrimSpace (hr_Server r), hr_Target = TrimSpace (hr_Target r)\<rparr>"

definition http_routes_ok :: "(string \<rightharpoonup> ServerConfig) \<Rightarrow> HTTPGatewayConfig \<Rightarrow> bool" where
  "http_routes_ok sbn g \<longleftrightarrow> TrimSpace (hg_ListenAddr g) \<noteq> [] \<and> hg_DefaultAction g = ''reject''
     \<and> 128 \<le> hg_MaxHeaderBytes g \<and> hg_MaxHeaderBytes g \<le> 1048576
     \<and> list_all (\<lambda>r. route_ok sbn (http_key r) (hr_Server r) (hr_Target r)) (hg_Routes g)
     \<and> distinct (map http_key (hg_Routes g))"

definition http_resolved :: "HTTPGatewayConfig \<Rightarrow> HTTPGatewayConfig" where
  "http_resolved g = g\<lparr>hg_RouteMap := map_of (map (\<lambda>r. (http_key r, http_entry r)) (hg_Routes g))\<rparr>"

definition sni_servers :: "SNIGatewayConfig \<Rightarrow> string set" where
  "sni_servers g = (\<Union>r \<in> set (sg_Routes g). {TrimSpace (sr_Server r)})"

definition http_servers :: "HTTPGatewayConfig \<Rightarrow> string set" where
  "http_servers g = (\<Union>r \<in> set (hg_Routes g). {TrimSpace (hr_Server r)})"

definition referenced_servers :: "Config \<Rightarrow> string set" where
  "referenced_servers cfg = \<Union> (set (map sni_servers (cf_SNIGateways cfg)))
     \<union> \<Union> (set (map http_servers (cf_HTTPGateways cfg)))"

definition names_ok :: "Config \<Rightarrow> bool" where
  "names_ok cfg \<longleftrightarrow> list_all (\<lambda>s. TrimSpace (srv_Name s) \<noteq> []) (cf_Servers cfg)
     \<and> distinct (map srv_Name (cf_Servers cfg))"

definition gateways_ok :: "Config \<Rightarrow> bool" where
  "gateways_ok cfg \<longleftrightarrow> list_all (sni_routes_ok (servers_by_name cfg)) (cf_SNIGateways cfg)
     \<and> list_all (http_routes_ok (servers_by_name cfg)) (cf_HTTPGateways cfg)"

definition inbound_ok :: "Config \<Rightarrow> bool" where
  "inbound_ok cfg \<longleftrightarrow>
     list_all (\<lambda>s. srv_Ports s \<noteq> [] \<or> srv_Name s \<in> referenced_servers cfg) (cf_Servers cfg)"

definition sizes_ok :: "Config \<Rightarrow> bool" where
  "sizes_ok cfg \<longleftrightarrow>
     list_all (\<lambda>c. parses (parseTunnelTCPBuffer (cl_TunnelTCPBuffer c))
       \<and> parses (parseTCPCopyBuffer (cl_TCPCopyBuffer c))) (cf_Clients cfg)
     \<and> list_all (\<lambda>s. parses (parseTCPCopyBuffer (srv_TCPCopyBuffer s))) (cf_Servers cfg)"

definition valid_config :: "(string \<Rightarrow> Duration option) \<Rightarrow> pick_host \<Rightarrow> Config \<Rightarrow> bool" where
  "valid_config parse_dur pick cfg \<longleftrightarrow> parses (validateRuntimeConfig parse_dur (cf_Runtime cfg))
     \<and> names_ok cfg \<and> gateways_ok cfg \<and> parses (validateListeners pick cfg)
     \<and> inbound_ok cfg \<and> sizes_ok cfg"

definition result :: "'a \<Rightarrow> 'e + 'a \<Rightarrow> 'a" where
  "result d r = (case r of Inl _ \<Rightarrow> d | Inr x \<Rightarrow> x)"

definition resolve_config :: "(string \<Rightarrow> Duration option) \<Rightarrow> Config \<Rightarrow> Config" where
  "resolve_config parse_dur cfg =
     \<lparr>cf_Runtime = result (cf_Runtime cfg) (validateRuntimeConfig parse_dur (cf_Runtime cfg)),
      cf_Servers = map (\<lambda>s. s\<lparr>srv_TCPCopyBufferBytes := result 0 (parseTCPCopyBuffer (srv_TCPCopyBuffer s))\<rparr>)
        (cf_Servers cfg),
      cf_Clients = map (\<lambda>c. c\<lparr>cl_TunnelTCPBufferBytes := result 0 (parseTunnelTCPBuffer (cl_TunnelTCPBuffer c)),
        cl_TCPCopyBufferBytes := result 0 (parseTCPCopyBuffer (cl_TCPCopyBuffer c))\<rparr>) (cf_Clients cfg),
      cf_SNIGateways = map sni_resolved (cf_SNIGateways cfg),
      cf_HTTPGateways = map http_resolved (cf_HTTPGateways cfg)\<rparr>"

section \<open>The passes, each in one formula\<close>

named_theorems passes \<open>the result of each pass\<close>

lemma result_simps [simp]: "result d (Inr x) = x" "result d (Inl e) = d"
  by (simp_all add: result_def)

lemma parses_simps [simp]: "parses (Inr x)" "\<not> parses (Inl e)"
  by (simp_all add: parses_def)

lemma map_error_Inr [simp]: "map_error f r = Inr x \<longleftrightarrow> r = Inr x"
  by (auto simp: map_error_def split: sum.splits)

lemma parsed: "r = Inr x \<longleftrightarrow> parses r \<and> x = result d r"
  by (cases r) auto

lemma map_error_result [simp]: "parses (map_error f r) \<longleftrightarrow> parses r" "result d (map_error f r) = result d r"
  by (cases r; simp add: map_error_def)+

lemma index_server_Inr: "index_server s (m, t) = Inr y \<longleftrightarrow>
    TrimSpace (srv_Name s) \<noteq> [] \<and> m (srv_Name s) = None \<and> y = (m(srv_Name s \<mapsto> s), t \<union> {})"
  by (auto simp: index_server_def)

lemma index_servers [passes]:
  "fold_sum index_server ss (Map.empty, {}) = Inr y \<longleftrightarrow>
     list_all (\<lambda>s. TrimSpace (srv_Name s) \<noteq> []) ss \<and> distinct (map srv_Name ss)
     \<and> y = (map_of (map (\<lambda>s. (srv_Name s, s)) ss), {})"
  unfolding fold_sum_map_of [OF index_server_Inr] by simp

lemma add_sni_route_Inr: "add_sni_route sbn n r (m, s) = Inr y \<longleftrightarrow>
    route_ok sbn (sni_key r) (sr_Server r) (sr_Target r) \<and> m (sni_key r) = None
    \<and> y = (m(sni_key r \<mapsto> sni_entry r), s \<union> {TrimSpace (sr_Server r)})"
  by (auto simp: add_sni_route_def Let_def route_ok_def sni_key_def sni_entry_def split: option.splits)

lemma add_http_route_Inr: "add_http_route sbn n r (m, s) = Inr y \<longleftrightarrow>
    route_ok sbn (http_key r) (hr_Server r) (hr_Target r) \<and> m (http_key r) = None
    \<and> y = (m(http_key r \<mapsto> http_entry r), s \<union> {TrimSpace (hr_Server r)})"
  by (auto simp: add_http_route_def Let_def route_ok_def http_key_def http_entry_def split: option.splits)

lemma validate_sni_gateway_Inr: "validate_sni_gateway sbn g s = Inr (g', t) \<longleftrightarrow>
    sni_routes_ok sbn g \<and> g' = sni_resolved g \<and> t = s \<union> sni_servers g"
  unfolding validate_sni_gateway_def sni_routes_ok_def sni_resolved_def sni_servers_def
  by (auto simp: fold_sum_map_of [OF add_sni_route_Inr])

lemma validate_http_gateway_Inr: "validate_http_gateway sbn g s = Inr (g', t) \<longleftrightarrow>
    http_routes_ok sbn g \<and> g' = http_resolved g \<and> t = s \<union> http_servers g"
  unfolding validate_http_gateway_def http_routes_ok_def http_resolved_def http_servers_def
    minHTTPMaxHeaderBytes_def maxHTTPMaxHeaderBytes_def
  by (auto simp: fold_sum_map_of [OF add_http_route_Inr])

lemma validateGateways_Inr [passes]: "validateGateways cfg sbn s = Inr (cfg', t) \<longleftrightarrow>
    list_all (sni_routes_ok sbn) (cf_SNIGateways cfg)
    \<and> cfg' = cfg\<lparr>cf_SNIGateways := map sni_resolved (cf_SNIGateways cfg)\<rparr>
    \<and> t = s \<union> \<Union> (set (map sni_servers (cf_SNIGateways cfg)))"
  by (auto simp: validateGateways_def traverse_st_Inr [OF validate_sni_gateway_Inr])

lemma validateHTTPGateways_Inr [passes]: "validateHTTPGateways cfg sbn s = Inr (cfg', t) \<longleftrightarrow>
    list_all (http_routes_ok sbn) (cf_HTTPGateways cfg)
    \<and> cfg' = cfg\<lparr>cf_HTTPGateways := map http_resolved (cf_HTTPGateways cfg)\<rparr>
    \<and> t = s \<union> \<Union> (set (map http_servers (cf_HTTPGateways cfg)))"
  by (auto simp: validateHTTPGateways_def traverse_st_Inr [OF validate_http_gateway_Inr])

text \<open>The listener check looks at servers and gateway addresses only.\<close>

lemma validateListeners_cong:
  assumes "cf_Servers c = cf_Servers d" and "sni_listeners c = sni_listeners d"
    and "http_listeners c = http_listeners d"
  shows "validateListeners pick c = validateListeners pick d"
  using assms by (simp add: validateListeners_def)

lemma validateListeners_resolved [simp]:
  "validateListeners pick (cfg\<lparr>cf_Runtime := r, cf_SNIGateways := map sni_resolved (cf_SNIGateways cfg),
     cf_HTTPGateways := map http_resolved (cf_HTTPGateways cfg)\<rparr>) = validateListeners pick cfg"
  by (rule validateListeners_cong) (simp_all add: sni_resolved_def http_resolved_def)

lemma sized_clients: "traverse (\<lambda>c. sum_bind (map_error (e c) (p (f c))) (\<lambda>b. Inr (g c b))) cs = Inr y \<longleftrightarrow>
    list_all (\<lambda>c. parses (p (f c))) cs \<and> y = map (\<lambda>c. g c (result 0 (p (f c)))) cs"
  by (rule traverse_map) (auto simp: parsed [where d = 0])

lemmas sized_passes [passes] =
  sized_clients [where p = parseTunnelTCPBuffer and f = cl_TunnelTCPBuffer
    and g = "\<lambda>c b. c\<lparr>cl_TunnelTCPBufferBytes := b\<rparr>" and e = "\<lambda>c. BadTunnelBuffer (cl_Name c)"]
  sized_clients [where p = parseTCPCopyBuffer and f = srv_TCPCopyBuffer
    and g = "\<lambda>s b. s\<lparr>srv_TCPCopyBufferBytes := b\<rparr>" and e = "\<lambda>s. BadServerCopyBuffer (srv_Name s)"]
  sized_clients [where p = parseTCPCopyBuffer and f = cl_TCPCopyBuffer
    and g = "\<lambda>c b. c\<lparr>cl_TCPCopyBufferBytes := b\<rparr>" and e = "\<lambda>c. BadClientCopyBuffer (cl_Name c)"]

lemma validateConfig_Inr: "validateConfig parse_dur pick cfg = Inr cfg' \<longleftrightarrow>
    valid_config parse_dur pick cfg \<and> cfg' = resolve_config parse_dur cfg"
proof -
  have rt: "validateRuntimeConfig parse_dur r = Inr x \<longleftrightarrow>
      parses (validateRuntimeConfig parse_dur r) \<and> x = result r (validateRuntimeConfig parse_dur r)" for r x
    by (rule parsed)
  have ls: "(\<exists>x. validateListeners pick c = Inr x \<and> P) \<longleftrightarrow> parses (validateListeners pick c) \<and> P" for c P
    by (cases "validateListeners pick c") auto
  show ?thesis
    unfolding validateConfig_def sum_bind_Inr map_error_Inr rt Let_def split_paired_Ex prod.case
    by (auto simp: passes fold_sum_check ls parses_iff [of "validateListeners pick cfg", symmetric] valid_config_def names_ok_def gateways_ok_def
        inbound_ok_def sizes_ok_def referenced_servers_def servers_by_name_def resolve_config_def
        list_all_iff comp_def)
qed

section \<open>What the runtime may rely on\<close>

lemma resolved_entry:
  assumes "route_ok (servers_by_name cfg) h srv tgt" and "names_ok cfg"
  shows "\<exists>s \<in> set (cf_Servers cfg). srv_Name s = TrimSpace srv \<and> srv_Transport s \<noteq> UDP"
proof -
  from assms(1) obtain s where s: "servers_by_name cfg (TrimSpace srv) = Some s" "srv_Transport s \<noteq> UDP"
    by (auto simp: route_ok_def split: option.splits)
  from map_of_SomeD [OF s(1) [unfolded servers_by_name_def]] s(2) show ?thesis by auto
qed

lemma resolved_servers:
  "s \<in> set (cf_Servers cfg) \<Longrightarrow> \<exists>t \<in> set (cf_Servers (resolve_config parse_dur cfg)).
     srv_Name t = srv_Name s \<and> srv_Transport t = srv_Transport s \<and> srv_Ports t = srv_Ports s"
  by (fastforce simp: resolve_config_def)

lemma sni_map_of: "sg_RouteMap (sni_resolved g) h = Some r \<Longrightarrow>
    \<exists>q \<in> set (sg_Routes g). h = sni_key q \<and> r = sni_entry q"
  by (auto simp: sni_resolved_def dest!: map_of_SomeD)

lemma http_map_of: "hg_RouteMap (http_resolved g) h = Some r \<Longrightarrow>
    \<exists>q \<in> set (hg_Routes g). h = http_key q \<and> r = http_entry q"
  by (auto simp: http_resolved_def dest!: map_of_SomeD)

lemma sni_map_complete: "distinct (map sni_key (sg_Routes g)) \<Longrightarrow> q \<in> set (sg_Routes g) \<Longrightarrow>
    sg_RouteMap (sni_resolved g) (sni_key q) = Some (sni_entry q)"
  by (auto simp: sni_resolved_def comp_def intro!: map_of_is_SomeI)

lemma http_map_complete: "distinct (map http_key (hg_Routes g)) \<Longrightarrow> q \<in> set (hg_Routes g) \<Longrightarrow>
    hg_RouteMap (http_resolved g) (http_key q) = Some (http_entry q)"
  by (auto simp: http_resolved_def comp_def intro!: map_of_is_SomeI)

lemma validated_sni_map:
  assumes "validateConfig parse_dur pick cfg = Inr cfg'" and "g \<in> set (cf_SNIGateways cfg')"
    and "q \<in> set (sg_Routes g)"
  shows "sg_RouteMap g (normalizeSNIHost (sr_SNI q)) = Some (sni_entry q)"
proof -
  from assms obtain g0 where g0: "g0 \<in> set (cf_SNIGateways cfg)" "g = sni_resolved g0"
    by (auto simp: validateConfig_Inr resolve_config_def)
  from assms(1) g0(1) have "distinct (map sni_key (sg_Routes g0))"
    by (auto simp: validateConfig_Inr valid_config_def gateways_ok_def list_all_iff sni_routes_ok_def)
  with assms(3) g0(2) show ?thesis
    using sni_map_complete [of g0 q] by (simp add: sni_key_def sni_resolved_def)
qed

lemma validated_http_map:
  assumes "validateConfig parse_dur pick cfg = Inr cfg'" and "g \<in> set (cf_HTTPGateways cfg')"
    and "q \<in> set (hg_Routes g)"
  shows "hg_RouteMap g (NormalizeHTTPHost (hr_Host q)) = Some (http_entry q)"
proof -
  from assms obtain g0 where g0: "g0 \<in> set (cf_HTTPGateways cfg)" "g = http_resolved g0"
    by (auto simp: validateConfig_Inr resolve_config_def)
  from assms(1) g0(1) have "distinct (map http_key (hg_Routes g0))"
    by (auto simp: validateConfig_Inr valid_config_def gateways_ok_def list_all_iff http_routes_ok_def)
  with assms(3) g0(2) show ?thesis
    using http_map_complete [of g0 q] by (simp add: http_key_def http_resolved_def)
qed

section \<open>Properties\<close>

text \<open>Defaults do not touch addresses.\<close>

lemma fold_sum_map_eq: "(\<And>x. x \<in> set xs \<Longrightarrow> f (g x) = f x) \<Longrightarrow> fold_sum f (map g xs) s = fold_sum f xs s"
  by (induction xs arbitrary: s) (auto simp: sum_bind_def split: sum.split)

lemma default_addresses [simp]: "srv_Name (default_server l s) = srv_Name s"
  "srv_BindAddr (default_server l s) = srv_BindAddr s" "srv_Ports (default_server l s) = srv_Ports s"
  by (simp_all add: default_server_def)

lemma register_server_default [simp]: "register_server pick (default_server l s) = register_server pick s"
proof -
  have p: "register_port pick (default_server l s) = register_port pick s"
    unfolding register_port_def default_addresses ..
  have "register_mapping pick (default_server l s) = register_mapping pick s"
    unfolding register_mapping_def p default_addresses ..
  moreover have "register_bind pick (default_server l s) = register_bind pick s"
    unfolding register_bind_def default_addresses ..
  ultimately show ?thesis by (intro ext) (simp add: register_server_def)
qed

lemma validateListeners_defaults:
  "validateListeners pick (applyDefaults l cfg) = validateListeners pick cfg"
  by (simp add: validateListeners_def applyDefaults_def fold_sum_map_eq comp_def
      default_sni_gateway_def default_http_gateway_def)

definition demo_raw :: Config where
  "demo_raw = zero_config\<lparr>
     cf_Servers := [zero_server\<lparr>srv_Name := ''a'', srv_BindAddr := '':30'', srv_Transport := TCP,
                      srv_Ports := [''80'']\<rparr>,
                    zero_server\<lparr>srv_Name := ''b'', srv_BindAddr := '':31'', srv_Transport := TCPMUX\<rparr>],
     cf_Clients := [zero_client\<lparr>cl_RemoteAddr := ''h:1''\<rparr>],
     cf_SNIGateways := [\<lparr>sg_Name = ''s'', sg_ListenAddr = '':43'', sg_InspectTimeout = 0,
       sg_DefaultAction = [], sg_Routes = [\<lparr>sr_SNI = ''Ex.com.'', sr_Server = '' b'', sr_Target = ''443''\<rparr>],
       sg_RouteMap = Map.empty\<rparr>],
     cf_HTTPGateways := [\<lparr>hg_Name = ''h'', hg_ListenAddr = '':88'', hg_InspectTimeout = 0,
       hg_MaxHeaderBytes = 0, hg_DefaultAction = [],
       hg_Routes = [\<lparr>hr_Host = ''ex.com:80'', hr_Server = ''b'', hr_Target = ''80''\<rparr>],
       hg_RouteMap = Map.empty\<rparr>]\<rparr>"

definition demo_config :: Config where
  "demo_config = applyDefaults (\<lambda>_. True) demo_raw"

abbreviation demo_resolved :: Config where
  "demo_resolved \<equiv> resolve_config (\<lambda>_. None) demo_config"

lemma demo_norms: "normalizeSNIHost ''Ex.com.'' = ''ex.com''" "NormalizeHTTPHost ''ex.com:80'' = ''ex.com''"
  "TrimSpace '' b'' = ''b''" "TrimSpace ''b'' = ''b''" "TrimSpace ''443'' = ''443''" "TrimSpace ''80'' = ''80''"
  "TrimSpace '':43'' = '':43''" "TrimSpace '':88'' = '':88''"
  by code_simp+

lemma demo_config_valid: "valid_config (\<lambda>_. None) hd demo_config"
proof -
  have "parses (validateRuntimeConfig (\<lambda>_. None) (cf_Runtime demo_config))" by code_simp
  moreover have "names_ok demo_config" by code_simp
  moreover have "gateways_ok demo_config"
    by (simp add: gateways_ok_def demo_config_def demo_raw_def applyDefaults_def sni_routes_ok_def http_routes_ok_def
        default_sni_gateway_def default_http_gateway_def default_server_def nonempty_or_def positive_or_def
        route_ok_def sni_key_def http_key_def demo_norms servers_by_name_def zero_server_def transport_defs)
  moreover have "parses (validateListeners hd demo_raw)" by code_simp
  then have "parses (validateListeners hd demo_config)"
    by (simp add: demo_config_def validateListeners_defaults)
  moreover have "inbound_ok demo_config"
    by (simp add: inbound_ok_def demo_config_def demo_raw_def applyDefaults_def default_server_def zero_server_def
        referenced_servers_def sni_servers_def default_sni_gateway_def demo_norms)
  moreover have "sizes_ok demo_config"
    by (simp add: sizes_ok_def demo_config_def demo_raw_def applyDefaults_def default_server_def default_client_def
        nonblank_or_def zero_server_def zero_client_def default_sizes)
  ultimately show ?thesis by (simp add: valid_config_def)
qed

lemma demo_validated: "validateConfig (\<lambda>_. None) hd demo_config = Inr demo_resolved"
  using demo_config_valid by (simp add: validateConfig_Inr)

text \<open>C17: \<^verbatim>\<open>validateConfig\<close> is exactly its specification: it accepts the configurations with
  valid intervals, unique non-blank server names, gateway routes that have distinct keys after
  normalisation and lead to a server that can take them, listeners that register, an inbound
  for every server and parseable sizes; and what it leaves is the configuration with these
  values and route maps filled in, nothing else changed.\<close>

theorem validateConfig_spec:
  "validateConfig parse_dur pick cfg = Inr cfg' \<longleftrightarrow>
     valid_config parse_dur pick cfg \<and> cfg' = resolve_config parse_dur cfg"
  by (rule validateConfig_Inr)

text \<open>Every SNI route of a validated configuration resolves: the map of the gateway finds
  exactly the configured routes under their normalised names, and each leads to a configured
  server whose transport is not udp, with a non-empty target.\<close>

theorem validateConfig_sni_routes:
  assumes "validateConfig parse_dur pick cfg = Inr cfg'" and "g \<in> set (cf_SNIGateways cfg')"
  shows "(\<forall>q \<in> set (sg_Routes g). sg_RouteMap g (normalizeSNIHost (sr_SNI q)) = Some (sni_entry q))
    \<and> (\<forall>h r. sg_RouteMap g h = Some r \<longrightarrow> h \<noteq> [] \<and> sr_Target r \<noteq> []
         \<and> (\<exists>s \<in> set (cf_Servers cfg'). srv_Name s = sr_Server r \<and> srv_Transport s \<noteq> UDP))"
proof -
  from assms have v: "valid_config parse_dur pick cfg" "cfg' = resolve_config parse_dur cfg"
    by (simp_all add: validateConfig_Inr)
  with assms(2) obtain g0 where g0: "g0 \<in> set (cf_SNIGateways cfg)" "g = sni_resolved g0"
    by (auto simp: resolve_config_def)
  with v have ok: "sni_routes_ok (servers_by_name cfg) g0" "names_ok cfg"
    by (auto simp: valid_config_def gateways_ok_def list_all_iff)
  have "\<exists>s \<in> set (cf_Servers cfg'). srv_Name s = sr_Server r \<and> srv_Transport s \<noteq> UDP"
    "h \<noteq> [] \<and> sr_Target r \<noteq> []" if hr: "sg_RouteMap g h = Some r" for h r
  proof -
    from sni_map_of hr g0 obtain q where q: "q \<in> set (sg_Routes g0)" "h = sni_key q" "r = sni_entry q"
      by blast
    with ok have rok: "route_ok (servers_by_name cfg) (sni_key q) (sr_Server q) (sr_Target q)"
      by (auto simp: sni_routes_ok_def list_all_iff)
    with q show "h \<noteq> [] \<and> sr_Target r \<noteq> []" by (simp add: route_ok_def sni_entry_def)
    from resolved_entry [OF rok ok(2)] q resolved_servers v(2)
    show "\<exists>s \<in> set (cf_Servers cfg'). srv_Name s = sr_Server r \<and> srv_Transport s \<noteq> UDP"
      by (fastforce simp: sni_entry_def)
  qed
  moreover have "sg_RouteMap g (normalizeSNIHost (sr_SNI q)) = Some (sni_entry q)"
    if "q \<in> set (sg_Routes g)" for q
    using that ok(1) sni_map_complete [of g0 q] g0
    by (simp add: sni_routes_ok_def sni_key_def sni_resolved_def)
  ultimately show ?thesis by blast
qed

theorem validateConfig_sni_routes_witness:
  "sg_RouteMap (hd (cf_SNIGateways demo_resolved)) ''ex.com''
     = Some \<lparr>sr_SNI = ''ex.com'', sr_Server = ''b'', sr_Target = ''443''\<rparr>"
proof -
  have "\<forall>q \<in> set (sg_Routes (hd (cf_SNIGateways demo_resolved))).
      sg_RouteMap (hd (cf_SNIGateways demo_resolved)) (normalizeSNIHost (sr_SNI q)) = Some (sni_entry q)"
    by (rule validateConfig_sni_routes [OF demo_validated, THEN conjunct1])
      (simp add: resolve_config_def demo_config_def demo_raw_def applyDefaults_def)
  moreover have "\<lparr>sr_SNI = ''Ex.com.'', sr_Server = '' b'', sr_Target = ''443''\<rparr>
      \<in> set (sg_Routes (hd (cf_SNIGateways demo_resolved)))"
    by (simp add: resolve_config_def demo_config_def demo_raw_def applyDefaults_def sni_resolved_def default_sni_gateway_def)
  moreover have "normalizeSNIHost ''Ex.com.'' = ''ex.com''"
    "sni_entry \<lparr>sr_SNI = ''Ex.com.'', sr_Server = '' b'', sr_Target = ''443''\<rparr>
      = \<lparr>sr_SNI = ''ex.com'', sr_Server = ''b'', sr_Target = ''443''\<rparr>" by code_simp+
  ultimately show ?thesis by fastforce
qed

text \<open>The same for the HTTP gateways, whose header limit is between 128 bytes and
  1 MB.\<close>

theorem validateConfig_http_routes:
  assumes "validateConfig parse_dur pick cfg = Inr cfg'" and "g \<in> set (cf_HTTPGateways cfg')"
  shows "128 \<le> hg_MaxHeaderBytes g \<and> hg_MaxHeaderBytes g \<le> 1048576
    \<and> (\<forall>q \<in> set (hg_Routes g). hg_RouteMap g (NormalizeHTTPHost (hr_Host q)) = Some (http_entry q))
    \<and> (\<forall>h r. hg_RouteMap g h = Some r \<longrightarrow> h \<noteq> [] \<and> hr_Target r \<noteq> []
         \<and> (\<exists>s \<in> set (cf_Servers cfg'). srv_Name s = hr_Server r \<and> srv_Transport s \<noteq> UDP))"
proof -
  from assms have v: "valid_config parse_dur pick cfg" "cfg' = resolve_config parse_dur cfg"
    by (simp_all add: validateConfig_Inr)
  with assms(2) obtain g0 where g0: "g0 \<in> set (cf_HTTPGateways cfg)" "g = http_resolved g0"
    by (auto simp: resolve_config_def)
  with v have ok: "http_routes_ok (servers_by_name cfg) g0" "names_ok cfg"
    by (auto simp: valid_config_def gateways_ok_def list_all_iff)
  have "\<exists>s \<in> set (cf_Servers cfg'). srv_Name s = hr_Server r \<and> srv_Transport s \<noteq> UDP"
    "h \<noteq> [] \<and> hr_Target r \<noteq> []" if hr: "hg_RouteMap g h = Some r" for h r
  proof -
    from http_map_of hr g0 obtain q where q: "q \<in> set (hg_Routes g0)" "h = http_key q" "r = http_entry q"
      by blast
    with ok have rok: "route_ok (servers_by_name cfg) (http_key q) (hr_Server q) (hr_Target q)"
      by (auto simp: http_routes_ok_def list_all_iff)
    with q show "h \<noteq> [] \<and> hr_Target r \<noteq> []" by (simp add: route_ok_def http_entry_def)
    from resolved_entry [OF rok ok(2)] q resolved_servers v(2)
    show "\<exists>s \<in> set (cf_Servers cfg'). srv_Name s = hr_Server r \<and> srv_Transport s \<noteq> UDP"
      by (fastforce simp: http_entry_def)
  qed
  moreover have "hg_RouteMap g (NormalizeHTTPHost (hr_Host q)) = Some (http_entry q)"
    if "q \<in> set (hg_Routes g)" for q
    using that ok(1) http_map_complete [of g0 q] g0
    by (simp add: http_routes_ok_def http_key_def http_resolved_def)
  moreover have "128 \<le> hg_MaxHeaderBytes g" "hg_MaxHeaderBytes g \<le> 1048576"
    using ok(1) g0(2) by (simp_all add: http_routes_ok_def http_resolved_def)
  ultimately show ?thesis by blast
qed

theorem validateConfig_http_routes_witness:
  "hg_MaxHeaderBytes (hd (cf_HTTPGateways demo_resolved)) \<le> 1048576"
  by (rule validateConfig_http_routes [OF demo_validated, THEN conjunct2, THEN conjunct1])
    (simp add: resolve_config_def demo_config_def demo_raw_def applyDefaults_def)

text \<open>Every server of a validated configuration has a way in: ports of its own, or a route
  of some gateway that leads to it.\<close>

theorem validateConfig_inbound:
  assumes "validateConfig parse_dur pick cfg = Inr cfg'" and "s \<in> set (cf_Servers cfg')"
  shows "srv_Ports s \<noteq> []
    \<or> (\<exists>g \<in> set (cf_SNIGateways cfg'). \<exists>h r. sg_RouteMap g h = Some r \<and> sr_Server r = srv_Name s)
    \<or> (\<exists>g \<in> set (cf_HTTPGateways cfg'). \<exists>h r. hg_RouteMap g h = Some r \<and> hr_Server r = srv_Name s)"
proof -
  from assms have v: "valid_config parse_dur pick cfg" "cfg' = resolve_config parse_dur cfg"
    by (simp_all add: validateConfig_Inr)
  with assms(2) obtain s0 where s0: "s0 \<in> set (cf_Servers cfg)" "srv_Name s = srv_Name s0"
    "srv_Ports s = srv_Ports s0" by (auto simp: resolve_config_def)
  have gs: "cf_SNIGateways cfg' = map sni_resolved (cf_SNIGateways cfg)"
    "cf_HTTPGateways cfg' = map http_resolved (cf_HTTPGateways cfg)"
    using v(2) by (simp_all add: resolve_config_def)
  from v s0(1) consider "srv_Ports s0 \<noteq> []"
    | g q where "g \<in> set (cf_SNIGateways cfg)" "q \<in> set (sg_Routes g)" "srv_Name s0 = TrimSpace (sr_Server q)"
    | g q where "g \<in> set (cf_HTTPGateways cfg)" "q \<in> set (hg_Routes g)" "srv_Name s0 = TrimSpace (hr_Server q)"
    by (auto simp: valid_config_def inbound_ok_def list_all_iff referenced_servers_def sni_servers_def
        http_servers_def)
  then show ?thesis
  proof cases
    case 2
    with v(1) have "sg_RouteMap (sni_resolved g) (sni_key q) = Some (sni_entry q)"
      by (intro sni_map_complete) (auto simp: valid_config_def gateways_ok_def list_all_iff sni_routes_ok_def)
    with 2 s0(2) show ?thesis unfolding gs by (force simp: sni_entry_def)
  next
    case 3
    with v(1) have "hg_RouteMap (http_resolved g) (http_key q) = Some (http_entry q)"
      by (intro http_map_complete) (auto simp: valid_config_def gateways_ok_def list_all_iff http_routes_ok_def)
    with 3 s0(2) show ?thesis unfolding gs by (force simp: http_entry_def)
  qed (simp add: s0)
qed

theorem validateConfig_inbound_witness:
  "\<exists>s \<in> set (cf_Servers demo_resolved). srv_Ports s = []
     \<and> ((\<exists>g \<in> set (cf_SNIGateways demo_resolved). \<exists>h r. sg_RouteMap g h = Some r \<and> sr_Server r = srv_Name s)
      \<or> (\<exists>g \<in> set (cf_HTTPGateways demo_resolved). \<exists>h r. hg_RouteMap g h = Some r \<and> hr_Server r = srv_Name s))"
proof -
  have "\<exists>s \<in> set (cf_Servers demo_resolved). srv_Ports s = []"
    by (simp add: resolve_config_def demo_config_def demo_raw_def applyDefaults_def default_server_def zero_server_def)
  then show ?thesis using validateConfig_inbound [OF demo_validated] by blast
qed

text \<open>The buffers a validated configuration hands to the relay are in range: 1 KB to 1 MB
  for the copy loop of servers and clients, and a non-negative socket buffer.\<close>

theorem validateConfig_buffers:
  assumes "validateConfig parse_dur pick cfg = Inr cfg'"
  shows "list_all (\<lambda>s. 1024 \<le> srv_TCPCopyBufferBytes s \<and> srv_TCPCopyBufferBytes s \<le> 1048576) (cf_Servers cfg')
    \<and> list_all (\<lambda>c. 1024 \<le> cl_TCPCopyBufferBytes c \<and> cl_TCPCopyBufferBytes c \<le> 1048576
        \<and> 0 \<le> cl_TunnelTCPBufferBytes c) (cf_Clients cfg')"
proof -
  from assms have v: "sizes_ok cfg" "cfg' = resolve_config parse_dur cfg"
    by (simp_all add: validateConfig_Inr valid_config_def)
  have copy: "1024 \<le> result 0 (parseTCPCopyBuffer x) \<and> result 0 (parseTCPCopyBuffer x) \<le> 1048576"
    if "parses (parseTCPCopyBuffer x)" for x
    using that parseTCPCopyBuffer_Inr [of x] by (cases "parseTCPCopyBuffer x") auto
  have tunnel: "0 \<le> result 0 (parseTunnelTCPBuffer x)" if "parses (parseTunnelTCPBuffer x)" for x
    using that parseTunnelTCPBuffer_Inr [of x "result 0 (parseTunnelTCPBuffer x)"]
    by (auto simp: parses_iff split: if_splits)
  from v show ?thesis
    by (auto simp: sizes_ok_def list_all_iff resolve_config_def copy tunnel)
qed

theorem validateConfig_buffers_witness:
  "list_all (\<lambda>s. 1024 \<le> srv_TCPCopyBufferBytes s) (cf_Servers demo_resolved) \<and> cf_Servers demo_resolved \<noteq> []"
  using validateConfig_buffers [OF demo_validated]
  by (auto simp: list_all_iff resolve_config_def demo_config_def demo_raw_def applyDefaults_def)

end
