(* ===== verification/Gateway.thy ===== *)
theory Gateway
  imports Sni_Spec Http_Spec Tcp_Server Validate_Spec
begin

text \<open>
  The gateways: \<^verbatim>\<open>internal/server/transport/gateway.go\<close>, \<^verbatim>\<open>http_gateway.go\<close> and \<^verbatim>\<open>registry.go\<close>,
  and the translation of their configuration in \<^verbatim>\<open>cmd/cmd.go\<close>.  A gateway knows a runtime only
  through \<^verbatim>\<open>InboundTarget\<close>: \<open>rdy\<close> and \<open>enq\<close> are its two methods, and the lemmas on
  \<^verbatim>\<open>handleConn\<close> are proved in the locale \<open>inbound_target\<close>, for every runtime that interprets it.
\<close>

section \<open>Registry\<close>

type_synonym 'r registry = "string \<rightharpoonup> 'r"

definition NewRegistry :: "'r registry" where
  "NewRegistry = Map.empty"

definition Register :: "string \<Rightarrow> 'r \<Rightarrow> 'r registry \<Rightarrow> 'r registry" where
  "Register name target r = r(name \<mapsto> target)"

definition Lookup :: "string \<Rightarrow> 'r registry \<Rightarrow> 'r option" where
  "Lookup name r = r name"

section \<open>Configuration\<close>

record GatewayRoute =
  gr_Server :: string
  gr_Target :: string

record GatewayConfig =
  gw_Name :: string
  gw_ListenAddr :: string
  gw_InspectTimeout :: Duration
  gw_DefaultAction :: string
  gw_Routes :: "string \<rightharpoonup> GatewayRoute"

record Gateway =
  gt_config :: GatewayConfig

definition SNIDefaultActionReject :: string where "SNIDefaultActionReject = ''reject''"

definition NewGateway :: "GatewayConfig \<Rightarrow> Gateway" where
  "NewGateway cfg =
     (let cfg = (if gw_InspectTimeout cfg \<le> 0 then cfg\<lparr>gw_InspectTimeout := Second\<rparr> else cfg);
          cfg = (if gw_DefaultAction cfg = [] then cfg\<lparr>gw_DefaultAction := SNIDefaultActionReject\<rparr> else cfg)
      in \<lparr>gt_config = cfg\<rparr>)"

definition gatewayRuntimeConfig :: "SNIGatewayConfig \<Rightarrow> GatewayConfig" where
  "gatewayRuntimeConfig g =
     \<lparr>gw_Name = sg_Name g, gw_ListenAddr = sg_ListenAddr g,
      gw_InspectTimeout = wrap64 (sg_InspectTimeout g * Second),
      gw_DefaultAction = sg_DefaultAction g,
      gw_Routes = (\<lambda>sni. map_option (\<lambda>r. \<lparr>gr_Server = sr_Server r, gr_Target = sr_Target r\<rparr>)
        (sg_RouteMap g sni))\<rparr>"

record HTTPGatewaySettings =
  hw_Name :: string
  hw_ListenAddr :: string
  hw_InspectTimeout :: Duration
  hw_MaxHeaderBytes :: int
  hw_DefaultAction :: string
  hw_Routes :: "string \<rightharpoonup> GatewayRoute"

record HTTPGateway =
  ht_config :: HTTPGatewaySettings

definition HTTPDefaultActionReject :: string where "HTTPDefaultActionReject = ''reject''"

definition NewHTTPGateway :: "HTTPGatewaySettings \<Rightarrow> HTTPGateway" where
  "NewHTTPGateway cfg =
     (let cfg = (if hw_InspectTimeout cfg \<le> 0 then cfg\<lparr>hw_InspectTimeout := Second\<rparr> else cfg);
          cfg = (if hw_MaxHeaderBytes cfg \<le> 0 then cfg\<lparr>hw_MaxHeaderBytes := defaultMaxHTTPHeaderBytes\<rparr> else cfg);
          cfg = (if hw_DefaultAction cfg = [] then cfg\<lparr>hw_DefaultAction := HTTPDefaultActionReject\<rparr> else cfg)
      in \<lparr>ht_config = cfg\<rparr>)"

definition httpGatewayRuntimeConfig :: "HTTPGatewayConfig \<Rightarrow> HTTPGatewaySettings" where
  "httpGatewayRuntimeConfig g =
     \<lparr>hw_Name = hg_Name g, hw_ListenAddr = hg_ListenAddr g,
      hw_InspectTimeout = wrap64 (hg_InspectTimeout g * Second),
      hw_MaxHeaderBytes = hg_MaxHeaderBytes g,
      hw_DefaultAction = hg_DefaultAction g,
      hw_Routes = (\<lambda>host. map_option (\<lambda>r. \<lparr>gr_Server = hr_Server r, gr_Target = hr_Target r\<rparr>)
        (hg_RouteMap g host))\<rparr>"

section \<open>Connections\<close>

text \<open>An accepted connection: its identity, what reading it yields, its local port.\<close>

record accepted =
  ac_id :: nat
  ac_peer :: peer
  ac_port :: "int option"

datatype outcome = ClosedConn | EnqueuedAt string

text \<open>The part of \<^verbatim>\<open>handleConn\<close> behind the inspection, the same text in both files.\<close>

definition dispatch ::
  "('r \<Rightarrow> bool) \<Rightarrow> (offer \<Rightarrow> 'r \<Rightarrow> bool \<times> 'r) \<Rightarrow> int \<Rightarrow> (string \<rightharpoonup> GatewayRoute) \<Rightarrow> string
   \<Rightarrow> string \<Rightarrow> accepted \<Rightarrow> conn \<Rightarrow> 'r registry \<Rightarrow> outcome \<times> 'r registry" where
  "dispatch rdy enq now routes key firstBytes a c registry =
     (case routes key of
        None \<Rightarrow> (ClosedConn, registry)
      | Some route \<Rightarrow>
          (case Lookup (gr_Server route) registry of
             None \<Rightarrow> (ClosedConn, registry)
           | Some target \<Rightarrow>
               if \<not> rdy target then (ClosedConn, registry) else
               let wrapped = NewPrefixedConn c firstBytes;
                   reportPort = PortFromTarget (gr_Target route);
                   sock = \<lparr>sk_id = ac_id a, sk_in = wrapped, sk_port = ac_port a\<rparr> in
               (case enq (now, sock, gr_Target route, reportPort) target of
                  (ok, target) \<Rightarrow>
                    (if ok then EnqueuedAt (gr_Server route) else ClosedConn,
                     registry(gr_Server route \<mapsto> target)))))"

definition sni_handleConn ::
  "('r \<Rightarrow> bool) \<Rightarrow> (offer \<Rightarrow> 'r \<Rightarrow> bool \<times> 'r) \<Rightarrow> int \<Rightarrow> Gateway \<Rightarrow> accepted \<Rightarrow> 'r registry
   \<Rightarrow> outcome \<times> 'r registry" where
  "sni_handleConn rdy enq now g a registry =
     (case ReadTLSClientHelloSNI (ac_peer a) (gw_InspectTimeout (gt_config g)) of
        Inl _ \<Rightarrow> (ClosedConn, registry)
      | Inr (sni, firstBytes, c) \<Rightarrow>
          dispatch rdy enq now (gw_Routes (gt_config g)) sni firstBytes a c registry)"

definition http_handleConn ::
  "('r \<Rightarrow> bool) \<Rightarrow> (offer \<Rightarrow> 'r \<Rightarrow> bool \<times> 'r) \<Rightarrow> int \<Rightarrow> HTTPGateway \<Rightarrow> accepted \<Rightarrow> 'r registry
   \<Rightarrow> outcome \<times> 'r registry" where
  "http_handleConn rdy enq now g a registry =
     (case ReadHTTPHost (ac_peer a) (hw_InspectTimeout (ht_config g)) (hw_MaxHeaderBytes (ht_config g)) of
        (Inl _, _, _) \<Rightarrow> (ClosedConn, registry)
      | (Inr host, firstBytes, c) \<Rightarrow>
          dispatch rdy enq now (hw_Routes (ht_config g)) host firstBytes a c registry)"

text \<open>The public listener: \<open>listens\<close> says whether an address can be bound, the result is the error
  with the name and address of the gateway.  The loop gets a connection or an error, with whether
  the context has ended; it returns the connections it started \<^verbatim>\<open>handleConn\<close> for, and whether it
  ended.  Both files have the same text.\<close>

definition Gateway_Start :: "(string \<Rightarrow> bool) \<Rightarrow> Gateway \<Rightarrow> (string \<times> string) option" where
  "Gateway_Start listens g =
     (if \<not> listens (gw_ListenAddr (gt_config g)) then Some (gw_Name (gt_config g), gw_ListenAddr (gt_config g)) else None)"

definition HTTPGateway_Start :: "(string \<Rightarrow> bool) \<Rightarrow> HTTPGateway \<Rightarrow> (string \<times> string) option" where
  "HTTPGateway_Start listens g =
     (if \<not> listens (hw_ListenAddr (ht_config g)) then Some (hw_Name (ht_config g), hw_ListenAddr (ht_config g)) else None)"

fun acceptLoop :: "(bool + accepted) list \<Rightarrow> accepted list \<times> bool" where
  "acceptLoop [] = ([], False)"
| "acceptLoop (Inl ended # evs) = (if ended then ([], True) else acceptLoop evs)"
| "acceptLoop (Inr conn # evs) = (case acceptLoop evs of (conns, r) \<Rightarrow> (conn # conns, r))"

text \<open>Until the context ends, no error stops the loop, and every connection is handled.\<close>

lemma acceptLoop_goes_on: "Inl True \<notin> set evs \<Longrightarrow> Inr conn \<in> set evs \<Longrightarrow> conn \<in> set (fst (acceptLoop evs)) \<and> \<not> snd (acceptLoop evs)"
proof -
  have "Inl True \<notin> set evs \<Longrightarrow> acceptLoop evs = (concat (map (\<lambda>e. case e of Inr c \<Rightarrow> [c] | Inl _ \<Rightarrow> []) evs), False)"
    by (induction evs rule: acceptLoop.induct) auto
  then show "Inl True \<notin> set evs \<Longrightarrow> Inr conn \<in> set evs \<Longrightarrow> ?thesis" by force
qed

section \<open>Dispatching, for every runtime\<close>

context inbound_target
begin

text \<open>A closed connection leaves every queue as it was; an enqueued one is the last entry of
  exactly one queue, and carries the bytes read during inspection in front of the rest.\<close>

lemma dispatch_closed:
  "dispatch isReady enqueue now routes key fb a c reg = (ClosedConn, reg') \<Longrightarrow> reg' = reg"
  using refuses by (auto simp: dispatch_def Lookup_def Let_def split: option.splits if_splits prod.splits)

lemma dispatch_enqueued:
  assumes "dispatch isReady enqueue now routes key fb a c reg = (EnqueuedAt srv, reg')"
  shows "\<exists>r s t. routes key = Some r \<and> gr_Server r = srv \<and> reg srv = Some s \<and> isReady s
    \<and> reg' = reg(srv \<mapsto> t)
    \<and> queue t = queue s @ [local_of (now, \<lparr>sk_id = ac_id a, sk_in = NewPrefixedConn c fb, sk_port = ac_port a\<rparr>,
        gr_Target r, PortFromTarget (gr_Target r))]"
proof -
  from assms obtain r s t where r: "routes key = Some r" "reg (gr_Server r) = Some s" "isReady s"
    "enqueue (now, \<lparr>sk_id = ac_id a, sk_in = NewPrefixedConn c fb, sk_port = ac_port a\<rparr>,
      gr_Target r, PortFromTarget (gr_Target r)) s = (True, t)"
    "srv = gr_Server r" "reg' = reg(srv \<mapsto> t)"
    by (auto simp: dispatch_def Lookup_def Let_def split: option.splits if_splits prod.splits)
  with accepts [OF r(4)] show ?thesis by blast
qed

lemma dispatch_succeeds:
  assumes "routes key = Some r" and "reg (gr_Server r) = Some s" and "isReady s"
    and "length (queue s) < bound s"
  shows "fst (dispatch isReady enqueue now routes key fb a c reg) = EnqueuedAt (gr_Server r)"
  using assms room [OF assms(3,4)]
  by (auto simp: dispatch_def Lookup_def Let_def split: prod.splits) (metis fst_conv)

text \<open>Within its capacity, a runtime takes a connection exactly when it is ready and has room.\<close>

lemma enqueue_exact:
  assumes "length (queue s) \<le> bound s"
  shows "fst (enqueue q s) \<longleftrightarrow> isReady s \<and> length (queue s) < bound s"
proof -
  obtain ok t where e: "enqueue q s = (ok, t)" by (metis prod.exhaust)
  show ?thesis
  proof (cases ok)
    case True
    with e accepts [of q s t] keeps [of q s ok t] assms show ?thesis by auto
  next
    case False
    with e refuses [of q s t] show ?thesis by auto
  qed
qed

lemma dispatch_exact:
  assumes "routes key = Some r" and "reg (gr_Server r) = Some s" and "length (queue s) \<le> bound s"
  shows "fst (dispatch isReady enqueue now routes key fb a c reg)
    = (if isReady s \<and> length (queue s) < bound s then EnqueuedAt (gr_Server r) else ClosedConn)"
  using assms(1,2) enqueue_exact [OF assms(3)]
  by (auto simp: dispatch_def Lookup_def Let_def split: prod.splits) (metis fst_conv)+

lemma sni_closed: "sni_handleConn isReady enqueue now g a reg = (ClosedConn, reg') \<Longrightarrow> reg' = reg"
  by (auto simp: sni_handleConn_def split: sum.splits prod.splits dest: dispatch_closed)

lemma http_closed: "http_handleConn isReady enqueue now g a reg = (ClosedConn, reg') \<Longrightarrow> reg' = reg"
  by (auto simp: http_handleConn_def split: sum.splits prod.splits dest: dispatch_closed)

lemma sni_enqueued:
  assumes "sni_handleConn isReady enqueue now g a reg = (EnqueuedAt srv, reg')"
    and "ac_peer a (effective_timeout (gw_InspectTimeout (gt_config g))) = Inr c"
  shows "\<exists>s t l. reg srv = Some s \<and> isReady s \<and> reg' = reg(srv \<mapsto> t) \<and> queue t = queue s @ [l]
    \<and> sk_id (lc_conn l) = ac_id a \<and> net_pending (sk_in (lc_conn l)) = pending c"
proof -
  from assms(1) obtain sni fb c' where
    r: "ReadTLSClientHelloSNI (ac_peer a) (gw_InspectTimeout (gt_config g)) = Inr (sni, fb, c')"
    and d: "dispatch isReady enqueue now (gw_Routes (gt_config g)) sni fb a c' reg = (EnqueuedAt srv, reg')"
    by (auto simp: sni_handleConn_def split: sum.splits)
  from ReadTLS_lossless [OF assms(2) r] have "fb @ pending c' = pending c" by blast
  with dispatch_enqueued [OF d] show ?thesis by (fastforce simp: local_of_def)
qed

lemma http_enqueued:
  assumes "http_handleConn isReady enqueue now g a reg = (EnqueuedAt srv, reg')"
    and "ac_peer a (effective_timeout (hw_InspectTimeout (ht_config g))) = Inr c"
  shows "\<exists>s t l. reg srv = Some s \<and> isReady s \<and> reg' = reg(srv \<mapsto> t) \<and> queue t = queue s @ [l]
    \<and> sk_id (lc_conn l) = ac_id a \<and> net_pending (sk_in (lc_conn l)) = pending c"
proof -
  let ?m = "hw_MaxHeaderBytes (ht_config g)"
  from assms(1) obtain host fb c' where
    r: "ReadHTTPHost (ac_peer a) (hw_InspectTimeout (ht_config g)) ?m = (Inr host, fb, c')"
    and d: "dispatch isReady enqueue now (hw_Routes (ht_config g)) host fb a c' reg = (EnqueuedAt srv, reg')"
    by (auto simp: http_handleConn_def split: sum.splits prod.splits)
  from r assms(2) have "preread_loop (effective_max ?m) False [] c = (Inr host, fb, c')"
    by (simp add: ReadHTTPHost_def)
  from preread_bytes [OF this] have "fb @ pending c' = pending c" by simp
  with dispatch_enqueued [OF d] show ?thesis by (fastforce simp: local_of_def)
qed

text \<open>A well-formed ClientHello is dispatched under its name, and reaches a ready runtime with
  room.\<close>

lemma sni_dispatched:
  assumes "ac_peer a (effective_timeout (gw_InspectTimeout (gt_config g))) = Inr c" and "no_error c"
    and "pending c = concat (map tls_record rs) @ q" and "list_all record_ok rs"
    and "length (concat (map tls_record rs)) \<le> maxClientHelloSize"
    and "concat (map snd rs) = handshake_bytes m" and "parseSNIFromClientHello m = Inr host"
  obtains fb c' where "sni_handleConn isReady enqueue now g a reg
    = dispatch isReady enqueue now (gw_Routes (gt_config g)) (NormalizeSNIHost host) fb a c' reg"
proof -
  from ReadTLS_records [of "ac_peer a", OF assms(1-6)] assms(7) obtain fb c' where
    "ReadTLSClientHelloSNI (ac_peer a) (gw_InspectTimeout (gt_config g)) = Inr (NormalizeSNIHost host, fb, c')"
    by auto
  then have "sni_handleConn isReady enqueue now g a reg
      = dispatch isReady enqueue now (gw_Routes (gt_config g)) (NormalizeSNIHost host) fb a c' reg"
    by (simp add: sni_handleConn_def)
  then show thesis by (rule that)
qed

lemma sni_routes:
  assumes "ac_peer a (effective_timeout (gw_InspectTimeout (gt_config g))) = Inr c" and "no_error c"
    and "pending c = concat (map tls_record rs) @ q" and "list_all record_ok rs"
    and "length (concat (map tls_record rs)) \<le> maxClientHelloSize"
    and "concat (map snd rs) = handshake_bytes m" and "parseSNIFromClientHello m = Inr host"
    and "gw_Routes (gt_config g) (NormalizeSNIHost host) = Some r"
    and "reg (gr_Server r) = Some s" and "isReady s" and "length (queue s) < bound s"
  shows "fst (sni_handleConn isReady enqueue now g a reg) = EnqueuedAt (gr_Server r)"
  by (rule sni_dispatched [OF assms(1-7), of now reg])
    (simp add: dispatch_succeeds [where routes = "gw_Routes (gt_config g)" and reg = reg, OF assms(8-11)])

lemma http_dispatched:
  assumes "ac_peer a (effective_timeout (hw_InspectTimeout (ht_config g))) = Inr c" and "no_error c"
    and "http_host (effective_max (hw_MaxHeaderBytes (ht_config g))) (pending c) = Some host"
  obtains fb c' where "http_handleConn isReady enqueue now g a reg
    = dispatch isReady enqueue now (hw_Routes (ht_config g)) host fb a c' reg"
proof -
  let ?m = "effective_max (hw_MaxHeaderBytes (ht_config g))"
  have "Index [] httpHeaderTerminator = None" by (simp add: httpHeaderTerminator_def crlf_def)
  with preread_spec [OF assms(2), of "[]" ?m False host] assms(3)
  obtain fb c' where "preread_loop ?m False [] c = (Inr host, fb, c')"
    by (cases "preread_loop ?m False [] c") auto
  then have "http_handleConn isReady enqueue now g a reg
      = dispatch isReady enqueue now (hw_Routes (ht_config g)) host fb a c' reg"
    using assms(1) by (simp add: http_handleConn_def ReadHTTPHost_def)
  then show thesis by (rule that)
qed

lemma http_routes:
  assumes "ac_peer a (effective_timeout (hw_InspectTimeout (ht_config g))) = Inr c" and "no_error c"
    and "http_host (effective_max (hw_MaxHeaderBytes (ht_config g))) (pending c) = Some host"
    and "hw_Routes (ht_config g) host = Some r"
    and "reg (gr_Server r) = Some s" and "isReady s" and "length (queue s) < bound s"
  shows "fst (http_handleConn isReady enqueue now g a reg) = EnqueuedAt (gr_Server r)"
  by (rule http_dispatched [OF assms(1-3), of now reg])
    (simp add: dispatch_succeeds [where routes = "hw_Routes (ht_config g)" and reg = reg, OF assms(4-7)])

end

end
