(* ===== verification/Tcp_Spec.thy ===== *)
theory Tcp_Spec
  imports Tcp_Server
begin

text \<open>
  What the TCP server runtime promises, over every interleaving of its goroutines: the
  reachable states, the authentication of the control channel, the pairing of local with tunnel
  connections, and what goes over the control channel.
\<close>

section \<open>Reachable states\<close>

definition tcp_inv :: "TcpTransport \<Rightarrow> bool" where
  "tcp_inv s \<longleftrightarrow> (tt_ready s \<longleftrightarrow> tt_controlChannel s \<noteq> None)
     \<and> (let n = nat (tcp_ChannelSize (tt_config s)) in
        chan_ok n (tt_tunnelChannel s) \<and> chan_ok n (tt_localChannel s) \<and> chan_ok n (tt_reqNewConnChan s))"

lemma channelHandshake_inv:
  "tcp_inv s \<Longrightarrow> tt_controlChannel s = None \<Longrightarrow> tcp_inv (snd (channelHandshake oks s))"
proof (induction oks s rule: channelHandshake.induct)
  case (2 ok oks s)
  show ?case
  proof (cases "try_recv (tt_tunnelChannel s)")
    case (Some x)
    obtain conn ch where x: "x = (conn, ch)" by (cases x)
    let ?s = "s\<lparr>tt_tunnelChannel := ch\<rparr>"
    have inv: "tcp_inv ?s" "tt_controlChannel ?s = None"
      using 2(2,3) Some x by (auto simp: tcp_inv_def Let_def intro: chan)
    show ?thesis
    proof (cases "handshake_conn ok (tcp_Token (tt_config ?s)) conn")
      case None
      from 2(1) [OF Some x [symmetric] refl None inv] Some x None show ?thesis
        by (auto split: prod.split)
    next
      case (Some c)
      with inv \<open>try_recv _ = Some x\<close> x show ?thesis by (simp add: tcp_inv_def Let_def)
    qed
  qed (use 2 in simp)
qed simp

lemma control_send_inv: "tcp_inv s \<Longrightarrow> tcp_inv (snd (control_send x s))"
  by (auto simp: control_send_def tcp_inv_def split: option.split prod.split)

lemma channelHandler_inv: "tcp_inv s \<Longrightarrow> tcp_inv (snd (channelHandler_start s))"
  "tcp_inv s \<Longrightarrow> tcp_inv (snd (channelHandler_step rtt ev s))"
proof -
  assume s: "tcp_inv s"
  have c: "control_send x u = (e, t) \<Longrightarrow> tcp_inv u \<Longrightarrow> tcp_inv t" for x u e t
    using control_send_inv [of u x] by simp
  show "tcp_inv (snd (channelHandler_start s))"
    using s c by (auto simp: channelHandler_start_def split: prod.split option.split)
  have r: "try_recv (tt_reqNewConnChan s) = Some (x, ch) \<Longrightarrow> tcp_inv (s\<lparr>tt_reqNewConnChan := ch\<rparr>)" for x ch
    using s by (auto simp: tcp_inv_def Let_def intro: chan)
  have t: "tcp_inv (s\<lparr>tt_rtt := n\<rparr>)" for n using s by (simp add: tcp_inv_def)
  show "tcp_inv (snd (channelHandler_step rtt ev s))"
    using s c r t control_send_inv [OF s]
    by (auto simp: channelHandler_step_def split: control_event.split option.split prod.split)
qed

lemma pair_loop_inv: "pair_loop nows l ch = (cl, p, ch') \<Longrightarrow> chan_ok n ch \<Longrightarrow> chan_ok n ch'"
proof (induction nows l ch arbitrary: cl rule: pair_loop.induct)
  case (2 now nows l ch)
  show ?case
  proof (cases "now - lc_timeCreated l > 3000 \<or> try_recv ch = None")
    case True
    with 2 show ?thesis by (auto split: if_splits)
  next
    case False
    then obtain c0 ch1 where r: "\<not> now - lc_timeCreated l > 3000" "try_recv ch = Some (c0, ch1)" by auto
    obtain e w where snd: "SendBinaryTransportString (tn_wire c0) (lc_remoteAddr l) SG_TCP = (e, w)"
      by (metis prod.exhaust)
    from r(2) 2(3) have ok: "chan_ok n ch1" by (rule chan)
    show ?thesis
    proof (cases e)
      case None
      with 2(2) r snd ok show ?thesis by auto
    next
      case (Some err)
      obtain cl' where "pair_loop nows l ch1 = (cl', p, ch')" using 2(2) r snd Some by (auto split: prod.splits)
      from "2.IH" [OF r refl snd [symmetric] Some this ok] show ?thesis .
    qed
  qed
qed simp

lemma enqueueInbound_inv: "tcp_inv s \<Longrightarrow> tcp_inv (snd (enqueueInbound now c tg p s))"
  by (auto simp: enqueueInbound_def tcp_inv_def Let_def split: prod.split bool.split intro: chan)

lemma tcp_step_inv: "tcp_step s (es, t) \<Longrightarrow> tcp_inv s \<Longrightarrow> tcp_inv t"
proof (erule tcp_stepE)
  assume s: "tcp_inv s"
  note E = enqueueInbound_inv [OF s]
  show "(es, t) = acceptTunnelConn c s \<Longrightarrow> tcp_inv t" for c
    using s by (auto simp: acceptTunnelConn_def tcp_inv_def Let_def
        split: option.splits if_splits prod.splits bool.splits intro: chan)
  show "tcp_inv t" if "(es, t) = channelHandshake oks s" "tt_controlChannel s = None" for oks
    using channelHandshake_inv [OF s that(2), of oks] that(1) [symmetric] by simp
  show "t = snd (channelHandler_start s) \<Longrightarrow> tcp_inv t"
    using channelHandler_inv(1) [OF s] by simp
  show "t = snd (channelHandler_step rtt ev s) \<Longrightarrow> tcp_inv t" for rtt ev
    using channelHandler_inv(2) [OF s] by simp
  show "(es, t) = acceptLocalConn now sk addr s \<Longrightarrow> tcp_inv t" for now sk addr
    using s E [of now sk addr 0] by (auto simp: acceptLocalConn_def split: if_splits prod.splits bool.splits)
  show "t = snd (EnqueueInbound now sk addr port s) \<Longrightarrow> tcp_inv t" for now sk addr port
    using s E by (auto simp: EnqueueInbound_def)
  show "tcp_inv t" if "(es, t) = handleLoop_turn nows s" for nows
  proof (cases "try_recv (tt_localChannel s)")
    case (Some x)
    obtain l ch where x: "x = (l, ch)" by (cases x)
    obtain cl p ch' where pl: "pair_loop nows l (tt_tunnelChannel s) = (cl, p, ch')" by (metis prod.exhaust)
    from that Some x pl have "t = s\<lparr>tt_localChannel := ch, tt_tunnelChannel := ch'\<rparr>"
      by (simp add: handleLoop_turn_def)
    with s Some x pair_loop_inv [OF pl] show ?thesis by (auto simp: tcp_inv_def Let_def intro: chan)
  qed (use that s in \<open>simp add: handleLoop_turn_def\<close>)
  show "(es, t) = Restart s \<Longrightarrow> tcp_inv t"
    by (simp add: Restart_def tcp_inv_def chan)
  show "t = snd (Start_begin s) \<Longrightarrow> tcp_inv t" "t = snd (Start_connected n s) \<Longrightarrow> tcp_inv t" for n
    using s by (auto simp: Start_begin_def Start_connected_def tcp_inv_def Let_def)
qed

lemma tcp_reachable_inv: "tcp_reachable config s \<Longrightarrow> tcp_inv s"
proof (induction rule: tcp_reachable.induct)
  case start
  show ?case by (simp add: NewTCPServer_def tcp_inv_def chan)
next
  case (step s es t)
  from tcp_step_inv [OF step(2,3)] show ?case .
qed

section \<open>Authentication\<close>

lemma handshake_conn_Some:
  assumes "handshake_conn ok token conn = Some c"
  shows "pending (w_in (tn_wire conn)) = frame (token, SG_Chan) @ pending (w_in (tn_wire c))
    \<and> length token < 65536 \<and> ok
    \<and> (w_fail (tn_wire conn) = None \<longrightarrow> w_out (tn_wire c) = w_out (tn_wire conn) @ frame (token, SG_Chan))"
proof -
  from assms obtain w where r: "ReceiveBinaryTransportString (tn_wire conn) = ((token, SG_Chan, None), w)"
    and s: "SendBinaryTransportString w token SG_Chan = (None, tn_wire c)" and ok
    by (auto simp: handshake_conn_def split: if_splits prod.splits option.splits)
  from ReceiveTransport_exact [OF r] have p: "length token < 65536"
    "pending (w_in (tn_wire conn)) = frame (token, SG_Chan) @ pending (w_in w)"
    by (simp_all add: frame_enc)
  from ReceiveTransport_out [of "tn_wire conn"] r
  have "w_fail w = w_fail (tn_wire conn)" "w_out w = w_out (tn_wire conn)" by simp_all
  with p \<open>ok\<close> SendTransport_None [OF s] show ?thesis by simp
qed

lemma handshake_conn_accepts:
  assumes "receives (tn_wire conn) (frame (token, SG_Chan) @ q)" and "w_fail (tn_wire conn) = None"
    and "length token < 65536"
  shows "\<exists>c. handshake_conn True token conn = Some c"
proof -
  from ReceiveTransport_frame [OF assms(1)] assms(3) obtain w where
    r: "ReceiveBinaryTransportString (tn_wire conn) = ((token, SG_Chan, None), w)" by auto
  with ReceiveTransport_out [of "tn_wire conn"] assms have "usable w" by (simp add: usable_def receives_def)
  with r show ?thesis by (simp add: handshake_conn_def SendBinaryTransportString_def send_usable)
qed

lemma channelHandshake_ready:
  "channelHandshake oks s = (es, t) \<Longrightarrow> tt_controlChannel s = None \<Longrightarrow>
     (tt_controlChannel t = Some c \<longrightarrow>
       (\<exists>conn \<in> set (ch_buf (tt_tunnelChannel s)). handshake_conn True (tcp_Token (tt_config s)) conn = Some c))"
proof (induction oks s arbitrary: es rule: channelHandshake.induct)
  case (2 ok oks s)
  show ?case
  proof (cases "try_recv (tt_tunnelChannel s)")
    case None
    with 2 show ?thesis by simp
  next
    case (Some x)
    obtain conn ch where x: "x = (conn, ch)" by (cases x)
    let ?s = "s\<lparr>tt_tunnelChannel := ch\<rparr>"
    from Some x have b: "ch_buf (tt_tunnelChannel s) = conn # ch_buf ch"
      using go_chan.recv_some by simp
    show ?thesis
    proof (cases "handshake_conn ok (tcp_Token (tt_config ?s)) conn")
      case None
      obtain es' where "channelHandshake oks ?s = (es', t)"
        using 2(2) Some x None by (auto split: prod.splits)
      from 2(1) [OF Some x [symmetric] refl None this] 2(3) b show ?thesis by auto
    next
      case (Some c')
      moreover from this have "ok" using handshake_conn_Some by blast
      ultimately show ?thesis using 2(2) \<open>try_recv _ = Some x\<close> x b by auto
    qed
  qed
qed auto

section \<open>Pairing\<close>

lemma pair_loop_outcome: "pair_loop nows l ch = (closed, p, ch') \<Longrightarrow>
    (case p of
       Paired c \<Rightarrow> (\<exists>bad c0. ch_buf ch = bad @ c0 # ch_buf ch' \<and> closed = map tn_id bad
         \<and> tn_id c = tn_id c0
         \<and> SendBinaryTransportString (tn_wire c0) (lc_remoteAddr l) SG_TCP = (None, tn_wire c)
         \<and> (\<exists>now \<in> set nows. now - lc_timeCreated l \<le> 3000))
     | _ \<Rightarrow> (\<exists>bad. ch_buf ch = bad @ ch_buf ch' \<and> closed = map tn_id bad))"
proof (induction nows l ch arbitrary: closed rule: pair_loop.induct)
  case (2 now nows l ch)
  show ?case
  proof (cases "now - lc_timeCreated l > 3000")
    case True
    with "2.prems" show ?thesis by (auto simp: exI [of _ "[]"])
  next
    case False
    show ?thesis
    proof (cases "try_recv ch")
      case None
      with "2.prems" False show ?thesis by auto
    next
      case (Some x)
      obtain c0 ch1 where x: "x = (c0, ch1)" by (cases x)
      with Some have b: "ch_buf ch = c0 # ch_buf ch1" using go_chan.recv_some by simp
      obtain e w where snd: "SendBinaryTransportString (tn_wire c0) (lc_remoteAddr l) SG_TCP = (e, w)"
        by (metis prod.exhaust)
      show ?thesis
      proof (cases e)
        case None
        with "2.prems" False Some x snd b show ?thesis
          by (auto intro!: exI [of _ "[]"] exI [of _ c0])
      next
        case (Some err)
        obtain cl where cl: "pair_loop nows l ch1 = (cl, p, ch')" "closed = tn_id c0 # cl"
          using "2.prems" False \<open>try_recv ch = Some x\<close> x snd Some by (auto split: prod.splits)
        from "2.IH" [OF False \<open>try_recv ch = Some x\<close> x [symmetric] snd [symmetric] Some cl(1)] cl(2) b show ?thesis
          by (auto split: pairing.splits intro: exI [of _ "c0 # _"])
      qed
    qed
  qed
qed auto

section \<open>Signals\<close>

fun handler_run :: "int \<Rightarrow> control_event list \<Rightarrow> TcpTransport \<Rightarrow> handler_next \<times> TcpTransport" where
  "handler_run rtt [] s = (Running, s)"
| "handler_run rtt (ev # evs) s =
     (case channelHandler_step rtt ev s of
        (Running, s) \<Rightarrow> handler_run rtt evs s | (n, s) \<Rightarrow> (n, s))"

text \<open>What a run sends, from its events and the number of queued requests.\<close>

fun control_output :: "control_event list \<Rightarrow> nat \<Rightarrow> string" where
  "control_output [] n = []"
| "control_output (CtxDone # evs) n = [SG_Closed]"
| "control_output (ReqNewConn # evs) n =
     (if n = 0 then control_output evs n else SG_Chan # control_output evs (n - 1))"
| "control_output (Tick # evs) n = SG_HB # control_output evs n"
| "control_output (Message m now # evs) n = (if m = SG_Closed then [] else control_output evs n)"
| "control_output (ReaderError # evs) n = []"

lemma control_send_usable:
  assumes "tt_controlChannel s = Some c" and "usable (tn_wire c)"
  obtains c' where "control_send x s = (None, s\<lparr>tt_controlChannel := Some c'\<rparr>)"
    "w_out (tn_wire c') = w_out (tn_wire c) @ [x]" "usable (tn_wire c')"
  using assms by (simp add: control_send_def SendBinaryByte_def send_usable usable_def)

lemma handler_run_output:
  "tt_controlChannel s = Some c \<Longrightarrow> usable (tn_wire c) \<Longrightarrow>
     \<exists>c'. tt_controlChannel (snd (handler_run rtt evs s)) = Some c'
       \<and> w_out (tn_wire c') = w_out (tn_wire c) @ control_output evs (length (ch_buf (tt_reqNewConnChan s)))"
proof (induction evs arbitrary: s c)
  case (Cons ev evs)
  show ?case
  proof (cases ev)
    case CtxDone
    obtain c' where "control_send SG_Closed s = (None, s\<lparr>tt_controlChannel := Some c'\<rparr>)"
      "w_out (tn_wire c') = w_out (tn_wire c) @ [SG_Closed]"
      using control_send_usable [OF Cons.prems] .
    then show ?thesis by (simp add: CtxDone channelHandler_step_def)
  next
    case ReqNewConn
    show ?thesis
    proof (cases "try_recv (tt_reqNewConnChan s)")
      case None
      then have "ch_buf (tt_reqNewConnChan s) = []" by (rule go_chan.recv_none)
      with None Cons.IH [OF Cons.prems] show ?thesis by (simp add: ReqNewConn channelHandler_step_def)
    next
      case (Some x)
      obtain u ch where x: "x = (u, ch)" by (cases x)
      with Some have b: "ch_buf (tt_reqNewConnChan s) = u # ch_buf ch" using go_chan.recv_some by simp
      let ?s = "s\<lparr>tt_reqNewConnChan := ch\<rparr>"
      have "tt_controlChannel ?s = Some c" using Cons.prems by simp
      from control_send_usable [OF this Cons.prems(2)] obtain c' where
        c': "control_send SG_Chan ?s = (None, ?s\<lparr>tt_controlChannel := Some c'\<rparr>)"
        "w_out (tn_wire c') = w_out (tn_wire c) @ [SG_Chan]" "usable (tn_wire c')" .
      with Cons.IH [of "?s\<lparr>tt_controlChannel := Some c'\<rparr>" c'] Some x b show ?thesis
        by (simp add: ReqNewConn channelHandler_step_def)
    qed
  next
    case Tick
    obtain c' where "control_send SG_HB s = (None, s\<lparr>tt_controlChannel := Some c'\<rparr>)"
      "w_out (tn_wire c') = w_out (tn_wire c) @ [SG_HB]" "usable (tn_wire c')"
      using control_send_usable [OF Cons.prems] .
    with Cons.IH [of "s\<lparr>tt_controlChannel := Some c'\<rparr>" c'] show ?thesis
      by (simp add: Tick channelHandler_step_def)
  next
    case (Message m now)
    with Cons.prems Cons.IH [of "s\<lparr>tt_rtt := now - rtt\<rparr>" c] Cons.IH [of s c] show ?thesis
      by (simp add: channelHandler_step_def)
  next
    case ReaderError
    with Cons.prems show ?thesis by (simp add: channelHandler_step_def)
  qed
qed simp

section \<open>Properties\<close>

definition demo_tcp_config :: TcpConfig where
  "demo_tcp_config = \<lparr>tcp_BindAddr = '':3080'', tcp_Token = ''musix'', tcp_SnifferLog = [],
     tcp_TunnelStatus = [], tcp_Ports = [''80''], tcp_Nodelay = True, tcp_Sniffer = False,
     tcp_KeepAlive = 75 * Second, tcp_Heartbeat = 40 * Second, tcp_ChannelSize = 2, tcp_WebPort = 0,
     tcp_AcceptUDP = False, tcp_AllowMultiIP = False, tcp_TCPCopyBuffer = 16384\<rparr>"

definition demo_peer :: tunnel_conn where
  "demo_peer = \<lparr>tn_id = 1, tn_ip = Some ''1.2.3.4'', tn_wire = fresh_wire [(frame (''musix'', SG_Chan), None)]\<rparr>"

definition demo_socket :: socket where
  "demo_socket = \<lparr>sk_id = 7, sk_in = RawConn [], sk_port = Some 80\<rparr>"

lemma demo_peer_usable: "usable (tn_wire demo_peer)" "w_fail (tn_wire demo_peer) = None"
  by (simp_all add: demo_peer_def usable_def fresh_wire_def)

lemma demo_peer_ready: "\<exists>c. handshake_conn True ''musix'' demo_peer = Some c"
  by (rule handshake_conn_accepts [where q = "[]"]) (simp_all add: demo_peer_def receives_def fresh_wire_def)

text \<open>C20: in every reachable state of the TCP server, under any interleaving of its goroutines
  and any number of restarts, it reports ready exactly if it has a control channel, and no
  channel holds more than its configured capacity.\<close>

theorem tcp_server_invariant:
  assumes "tcp_reachable config s"
  shows "(IsReady s \<longleftrightarrow> tt_controlChannel s \<noteq> None)
    \<and> length (ch_buf (tt_localChannel s)) \<le> nat (tcp_ChannelSize (tt_config s))
    \<and> length (ch_buf (tt_tunnelChannel s)) \<le> nat (tcp_ChannelSize (tt_config s))
    \<and> length (ch_buf (tt_reqNewConnChan s)) \<le> nat (tcp_ChannelSize (tt_config s))"
  using tcp_reachable_inv [OF assms] by (simp add: tcp_inv_def Let_def chan_ok_def IsReady_def)

theorem tcp_server_invariant_witness:
  "length (ch_buf (tt_tunnelChannel (snd (acceptTunnelConn demo_peer (NewTCPServer demo_tcp_config))))) \<le> 2"
proof -
  let ?s = "snd (acceptTunnelConn demo_peer (NewTCPServer demo_tcp_config))"
  have "tcp_step (NewTCPServer demo_tcp_config) (fst (acceptTunnelConn demo_peer (NewTCPServer demo_tcp_config)), ?s)"
    using tcp_step.intros(1) [of "NewTCPServer demo_tcp_config" demo_peer] by simp
  then have "tcp_reachable demo_tcp_config ?s" by (blast intro: tcp_reachable.intros)
  from tcp_server_invariant [OF this]
  have "length (ch_buf (tt_tunnelChannel ?s)) \<le> nat (tcp_ChannelSize (tt_config ?s))" by blast
  moreover have "tcp_ChannelSize (tt_config ?s) = 2"
    by (simp add: acceptTunnelConn_def demo_peer_def NewTCPServer_def demo_tcp_config_def try_send_def make_chan_def)
  ultimately show ?thesis by simp
qed

text \<open>No connection becomes the control channel without the token: if the handshake loop
  ends with a control channel, then that connection was in the tunnel queue, its first bytes
  were the token framed with the channel signal, and the server answered with the same frame.\<close>

theorem channelHandshake_authenticates:
  assumes "channelHandshake oks s = (es, t)" and "tt_controlChannel s = None"
    and "tt_controlChannel t = Some c"
    and "list_all (\<lambda>q. w_fail (tn_wire q) = None) (ch_buf (tt_tunnelChannel s))"
  shows "\<exists>q \<in> set (ch_buf (tt_tunnelChannel s)).
    pending (w_in (tn_wire q)) = frame (tcp_Token (tt_config s), SG_Chan) @ pending (w_in (tn_wire c))
    \<and> w_out (tn_wire c) = w_out (tn_wire q) @ frame (tcp_Token (tt_config s), SG_Chan)"
proof -
  from channelHandshake_ready [OF assms(1,2)] assms(3) obtain q where
    q: "q \<in> set (ch_buf (tt_tunnelChannel s))" "handshake_conn True (tcp_Token (tt_config s)) q = Some c"
    by blast
  from handshake_conn_Some [OF q(2)] assms(4) q(1) show ?thesis
    by (intro bexI [of _ q]) (simp_all add: list_all_iff)
qed

theorem channelHandshake_authenticates_witness:
  "\<exists>c. tt_controlChannel (snd (channelHandshake [True]
       (snd (acceptTunnelConn demo_peer (NewTCPServer demo_tcp_config))))) = Some c
     \<and> w_out (tn_wire c) = frame (''musix'', SG_Chan)"
proof -
  let ?s = "snd (acceptTunnelConn demo_peer (NewTCPServer demo_tcp_config))"
  have s: "ch_buf (tt_tunnelChannel ?s) = [demo_peer]" "tt_controlChannel ?s = None"
    "tcp_Token (tt_config ?s) = ''musix''"
    by (simp_all add: acceptTunnelConn_def demo_peer_def NewTCPServer_def demo_tcp_config_def
        try_send_def make_chan_def)
  obtain c where c: "handshake_conn True ''musix'' demo_peer = Some c" using demo_peer_ready by blast
  obtain es t where t: "channelHandshake [True] ?s = (es, t)" by fastforce
  then have ct: "tt_controlChannel t = Some c"
    using s c by (auto simp: try_recv_def Let_def)
  from channelHandshake_authenticates [OF t s(2) ct] s demo_peer_usable(2)
  have "w_out (tn_wire c) = w_out (tn_wire demo_peer) @ frame (''musix'', SG_Chan)" by simp
  with t ct show ?thesis by (simp add: demo_peer_def fresh_wire_def)
qed

text \<open>A client that presents the token is let in: with a token below 64 KB and a healthy
  connection the handshake succeeds, in any segmentation of its bytes.\<close>

theorem handshake_accepts_token:
  assumes "receives (tn_wire conn) (frame (token, SG_Chan) @ q)" and "w_fail (tn_wire conn) = None"
    and "length token < 65536"
  shows "handshake_conn True token conn \<noteq> None"
  using handshake_conn_accepts [OF assms] by auto

theorem handshake_accepts_token_witness: "handshake_conn True ''musix'' demo_peer \<noteq> None"
  by (rule handshake_accepts_token [where q = "[]"]) (simp_all add: demo_peer_def receives_def fresh_wire_def)

text \<open>Pairing conserves connections: one turn of the handle loop takes tunnel connections
  from the head of their queue, closes those that cannot be written, and relays the local
  connection with the next one, after writing its target framed with the TCP signal and only if
  it had waited at most 3 seconds when the turn began; or it pairs none of them.\<close>

theorem pair_loop_conserves:
  "case pair_loop nows l ch of
     (closed, Paired c, ch') \<Rightarrow>
       (\<exists>bad c0. ch_buf ch = bad @ c0 # ch_buf ch' \<and> closed = map tn_id bad \<and> tn_id c = tn_id c0
         \<and> SendBinaryTransportString (tn_wire c0) (lc_remoteAddr l) SG_TCP = (None, tn_wire c)
         \<and> (\<exists>now \<in> set nows. now - lc_timeCreated l \<le> 3000))
   | (closed, p, ch') \<Rightarrow> (\<exists>bad. ch_buf ch = bad @ ch_buf ch' \<and> closed = map tn_id bad)"
  using pair_loop_outcome [of nows l ch]
  by (cases "pair_loop nows l ch") (auto split: pairing.splits)

text \<open>What the client hears on the control channel is determined by the events: one
  connection request per queued request taken, one heartbeat per tick, a closing signal on
  shutdown, and nothing after the handler ended.\<close>

theorem channelHandler_signals:
  assumes "tt_controlChannel s = Some c" and "usable (tn_wire c)"
  shows "\<exists>c'. tt_controlChannel (snd (handler_run rtt evs s)) = Some c'
    \<and> w_out (tn_wire c') = w_out (tn_wire c) @ control_output evs (length (ch_buf (tt_reqNewConnChan s)))"
  using assms by (rule handler_run_output)

theorem channelHandler_signals_witness:
  "\<exists>c'. tt_controlChannel (snd (handler_run 0 [Tick, ReqNewConn, Message SG_RTT 5, CtxDone]
       ((NewTCPServer demo_tcp_config)\<lparr>tt_controlChannel := Some demo_peer\<rparr>))) = Some c'
     \<and> w_out (tn_wire c') = [SG_HB, SG_Closed]"
  using channelHandler_signals [of "(NewTCPServer demo_tcp_config)\<lparr>tt_controlChannel := Some demo_peer\<rparr>"
      demo_peer 0 "[Tick, ReqNewConn, Message SG_RTT 5, CtxDone]"] demo_peer_usable(1)
  by (simp add: NewTCPServer_def make_chan_def signal_defs byte_eq_iff demo_peer_def fresh_wire_def
      del: handler_run.simps)

text \<open>A restart forgets what is queued: afterwards the runtime is not ready and its queues
  are empty, but of all connections only the control channel was closed; local and tunnel
  connections that were waiting are dropped without being closed.\<close>

theorem Restart_drops_queues:
  "case Restart s of (es, t) \<Rightarrow>
     \<not> IsReady t \<and> ch_buf (tt_localChannel t) = [] \<and> ch_buf (tt_tunnelChannel t) = []
     \<and> es = (case tt_controlChannel s of Some c \<Rightarrow> [CloseTunnel (tn_id c)] | None \<Rightarrow> [])"
  by (simp add: Restart_def IsReady_def make_chan_def)

text \<open>The TCP runtime keeps the contract of \<^verbatim>\<open>InboundTarget\<close>: every connection offered to it
  is queued exactly once, in order, or refused; none is queued while it is not ready, and the
  queue stays within its capacity.\<close>

theorem tcp_EnqueueInbound_contract:
  assumes "offer_all enqueue_offer qs s = (a, r, t)"
  shows "ch_buf (tt_localChannel t) = ch_buf (tt_localChannel s) @ map local_of a
    \<and> mset a + mset r = mset qs \<and> (\<not> IsReady s \<longrightarrow> a = [])
    \<and> (length (ch_buf (tt_localChannel s)) \<le> ch_cap (tt_localChannel s)
       \<longrightarrow> length (ch_buf (tt_localChannel t)) \<le> ch_cap (tt_localChannel s))"
  using tcp_target.offers_split [OF assms] by blast

theorem tcp_EnqueueInbound_contract_witness:
  "ch_buf (tt_localChannel (snd (snd (offer_all enqueue_offer
       [(0, demo_socket, ''443'', 443)] ((NewTCPServer demo_tcp_config)\<lparr>tt_ready := True\<rparr>)))))
     = [local_of (0, demo_socket, ''443'', 443)]"
proof -
  let ?s = "(NewTCPServer demo_tcp_config)\<lparr>tt_ready := True\<rparr>" and ?q = "(0 :: int, demo_socket, ''443'', 443 :: int)"
  obtain t where t: "offer_all enqueue_offer [?q] ?s = ([?q], [], t)"
    by (simp add: enqueue_offer_def EnqueueInbound_def enqueueInbound_def try_send_def NewTCPServer_def
        make_chan_def demo_tcp_config_def)
  from tcp_EnqueueInbound_contract [OF t] t show ?thesis by (simp add: NewTCPServer_def make_chan_def)
qed

end
