(* ===== verification/Gateway_Spec.thy ===== *)
theory Gateway_Spec
  imports Gateway Tcp_Spec
begin

text \<open>
  The gateways on TCP runtimes: what happens to each accepted connection, and the way from a
  line of the configuration file to the queue of a server.
\<close>

section \<open>From the configuration to the routes\<close>

lemma NewGateway_routes: "gw_Routes (gt_config (NewGateway (gatewayRuntimeConfig g))) h
    = map_option (\<lambda>r. \<lparr>gr_Server = sr_Server r, gr_Target = sr_Target r\<rparr>) (sg_RouteMap g h)"
  by (simp add: NewGateway_def gatewayRuntimeConfig_def Let_def)

lemma NewHTTPGateway_routes: "hw_Routes (ht_config (NewHTTPGateway (httpGatewayRuntimeConfig g))) h
    = map_option (\<lambda>r. \<lparr>gr_Server = hr_Server r, gr_Target = hr_Target r\<rparr>) (hg_RouteMap g h)"
  by (simp add: NewHTTPGateway_def httpGatewayRuntimeConfig_def Let_def)

text \<open>The gateway of a section, and the time it gives a client.\<close>

abbreviation sni_gateway :: "SNIGatewayConfig \<Rightarrow> Gateway" where
  "sni_gateway g \<equiv> NewGateway (gatewayRuntimeConfig g)"

abbreviation http_gateway :: "HTTPGatewayConfig \<Rightarrow> HTTPGateway" where
  "http_gateway g \<equiv> NewHTTPGateway (httpGatewayRuntimeConfig g)"

abbreviation sni_timeout :: "Gateway \<Rightarrow> Duration" where
  "sni_timeout g \<equiv> effective_timeout (gw_InspectTimeout (gt_config g))"

abbreviation http_timeout :: "HTTPGateway \<Rightarrow> Duration" where
  "http_timeout g \<equiv> effective_timeout (hw_InspectTimeout (ht_config g))"

section \<open>Properties\<close>

definition ready_tcp :: TcpTransport where
  "ready_tcp = (NewTCPServer demo_tcp_config)\<lparr>tt_controlChannel := Some demo_peer, tt_ready := True\<rparr>"

abbreviation demo_registry :: "TcpTransport registry" where
  "demo_registry \<equiv> Register ''b'' ready_tcp NewRegistry"

definition demo_tls_client :: accepted where
  "demo_tls_client = \<lparr>ac_id = 9, ac_peer = (\<lambda>_. Inr demo_conn), ac_port = Some 443\<rparr>"

definition demo_http_client :: accepted where
  "demo_http_client = \<lparr>ac_id = 9, ac_peer = (\<lambda>_. Inr demo_http), ac_port = Some 80\<rparr>"

abbreviation demo_sni :: SNIGatewayConfig where "demo_sni \<equiv> hd (cf_SNIGateways demo_resolved)"
abbreviation demo_hg :: HTTPGatewayConfig where "demo_hg \<equiv> hd (cf_HTTPGateways demo_resolved)"

lemma ready_tcp_room: "IsReady ready_tcp" "ch_buf (tt_localChannel ready_tcp) = []"
  "ch_cap (tt_localChannel ready_tcp) = 2"
  by (simp_all add: ready_tcp_def IsReady_def NewTCPServer_def demo_tcp_config_def make_chan_def)

lemma demo_registry_b: "demo_registry ''b'' = Some ready_tcp"
  by (simp add: Register_def)

lemma demo_sni_route: "demo_sni \<in> set (cf_SNIGateways demo_resolved)"
  "\<lparr>sr_SNI = ''Ex.com.'', sr_Server = '' b'', sr_Target = ''443''\<rparr> \<in> set (sg_Routes demo_sni)"
  by (simp_all add: resolve_config_def demo_config_def demo_raw_def applyDefaults_def sni_resolved_def
      default_sni_gateway_def)

lemma demo_http_route: "demo_hg \<in> set (cf_HTTPGateways demo_resolved)"
  "\<lparr>hr_Host = ''ex.com:80'', hr_Server = ''b'', hr_Target = ''80''\<rparr> \<in> set (hg_Routes demo_hg)"
  "effective_max (hw_MaxHeaderBytes (ht_config (http_gateway demo_hg))) = effective_max 0"
  by (simp_all add: resolve_config_def demo_config_def demo_raw_def applyDefaults_def http_resolved_def
      default_http_gateway_def positive_or_def NewHTTPGateway_def httpGatewayRuntimeConfig_def Let_def
      effective_max_def defaultMaxHTTPHeaderBytes_def)

text \<open>What becomes of a connection to an SNI gateway: it is closed, and then no server
  queue changed; or it is appended to the queue of exactly one server, which was ready, and the
  queued connection will deliver every byte the client sends, from the first byte of its
  ClientHello on.\<close>

theorem sni_gateway_connection:
  assumes "ac_peer a (sni_timeout g) = Inr c"
  shows "case sni_handleConn IsReady enqueue_offer now g a reg of
      (ClosedConn, reg') \<Rightarrow> reg' = reg
    | (EnqueuedAt srv, reg') \<Rightarrow>
        \<exists>s t l. reg srv = Some s \<and> IsReady s \<and> reg' = reg(srv \<mapsto> t)
          \<and> ch_buf (tt_localChannel t) = ch_buf (tt_localChannel s) @ [l]
          \<and> sk_id (lc_conn l) = ac_id a \<and> net_pending (sk_in (lc_conn l)) = pending c"
  using tcp_target.sni_closed [of now g a reg] tcp_target.sni_enqueued [OF _ assms, where now = now and reg = reg]
  by (auto split: prod.splits outcome.splits)

theorem sni_gateway_connection_witness:
  "case sni_handleConn IsReady enqueue_offer 0 (sni_gateway demo_sni) demo_tls_client demo_registry of
     (ClosedConn, reg') \<Rightarrow> reg' = demo_registry
   | (EnqueuedAt srv, reg') \<Rightarrow> \<exists>t l. reg' srv = Some t \<and> l \<in> set (ch_buf (tt_localChannel t))
       \<and> net_pending (sk_in (lc_conn l)) = pending demo_conn"
proof -
  have "ac_peer demo_tls_client (sni_timeout (sni_gateway demo_sni)) = Inr demo_conn"
    by (simp add: demo_tls_client_def)
  from sni_gateway_connection [OF this, where now = 0 and reg = demo_registry] show ?thesis
    by (auto split: prod.splits outcome.splits)
qed

text \<open>The same for an HTTP gateway, where the bytes replayed are the header and what was read
  of the body with it.\<close>

theorem http_gateway_connection:
  assumes "ac_peer a (http_timeout g) = Inr c"
  shows "case http_handleConn IsReady enqueue_offer now g a reg of
      (ClosedConn, reg') \<Rightarrow> reg' = reg
    | (EnqueuedAt srv, reg') \<Rightarrow>
        \<exists>s t l. reg srv = Some s \<and> IsReady s \<and> reg' = reg(srv \<mapsto> t)
          \<and> ch_buf (tt_localChannel t) = ch_buf (tt_localChannel s) @ [l]
          \<and> sk_id (lc_conn l) = ac_id a \<and> net_pending (sk_in (lc_conn l)) = pending c"
  using tcp_target.http_closed [of now g a reg] tcp_target.http_enqueued [OF _ assms, where now = now and reg = reg]
  by (auto split: prod.splits outcome.splits)

theorem http_gateway_connection_witness:
  "case http_handleConn IsReady enqueue_offer 0 (http_gateway demo_hg) demo_http_client demo_registry of
     (ClosedConn, reg') \<Rightarrow> reg' = demo_registry
   | (EnqueuedAt srv, reg') \<Rightarrow> \<exists>t l. reg' srv = Some t \<and> l \<in> set (ch_buf (tt_localChannel t))
       \<and> net_pending (sk_in (lc_conn l)) = pending demo_http"
proof -
  have "ac_peer demo_http_client (http_timeout (http_gateway demo_hg)) = Inr demo_http"
    by (simp add: demo_http_client_def)
  from http_gateway_connection [OF this, where now = 0 and reg = demo_registry] show ?thesis
    by (auto split: prod.splits outcome.splits)
qed

text \<open>From the configuration file to the server: with a validated configuration, a client
  that sends a ClientHello for the name of a route, in any fragmentation, case or with the
  final dot, is handed to the server the route names, if that is ready and has room.\<close>

theorem sni_route_end_to_end:
  assumes "validateConfig parse_dur pick cfg = Inr cfg'" and "g \<in> set (cf_SNIGateways cfg')"
    and "q \<in> set (sg_Routes g)"
    and "ac_peer a (sni_timeout (sni_gateway g)) = Inr c" and "no_error c"
    and "pending c = concat (map tls_record rs) @ rest" and "list_all record_ok rs"
    and "length (concat (map tls_record rs)) \<le> maxClientHelloSize"
    and "concat (map snd rs) = handshake_bytes m" and "parseSNIFromClientHello m = Inr host"
    and "NormalizeSNIHost host = normalizeSNIHost (sr_SNI q)"
    and "reg (TrimSpace (sr_Server q)) = Some s" and "IsReady s"
    and "length (ch_buf (tt_localChannel s)) < ch_cap (tt_localChannel s)"
  shows "fst (sni_handleConn IsReady enqueue_offer now (sni_gateway g) a reg)
    = EnqueuedAt (TrimSpace (sr_Server q))"
proof -
  let ?r = "\<lparr>gr_Server = TrimSpace (sr_Server q), gr_Target = TrimSpace (sr_Target q)\<rparr>"
  have "gw_Routes (gt_config (sni_gateway g)) (NormalizeSNIHost host) = Some ?r"
    using validated_sni_map [OF assms(1-3)] assms(11) by (simp add: NewGateway_routes sni_entry_def)
  from tcp_target.sni_routes [OF assms(4-10) this, of reg s now] assms(12-14) show ?thesis by simp
qed

theorem sni_route_end_to_end_witness:
  "fst (sni_handleConn IsReady enqueue_offer 0 (sni_gateway demo_sni) demo_tls_client demo_registry)
     = EnqueuedAt ''b''"
proof -
  have "ac_peer demo_tls_client (sni_timeout (sni_gateway demo_sni)) = Inr demo_conn"
    by (simp add: demo_tls_client_def)
  from sni_route_end_to_end [OF demo_validated demo_sni_route this demo_conn_ok(2,1) demo_records_ok(3,2,1)
      demo_parse, of demo_registry ready_tcp 0]
  show ?thesis using ready_tcp_room by (simp add: demo_registry_b demo_norms demo_normal)
qed

text \<open>The same for HTTP: a request whose Host matches a route after normalisation reaches the
  server of the route.\<close>

theorem http_route_end_to_end:
  assumes "validateConfig parse_dur pick cfg = Inr cfg'" and "g \<in> set (cf_HTTPGateways cfg')"
    and "q \<in> set (hg_Routes g)"
    and "ac_peer a (http_timeout (http_gateway g)) = Inr c" and "no_error c"
    and "http_host (effective_max (hw_MaxHeaderBytes (ht_config (http_gateway g)))) (pending c)
      = Some (NormalizeHTTPHost (hr_Host q))"
    and "reg (TrimSpace (hr_Server q)) = Some s" and "IsReady s"
    and "length (ch_buf (tt_localChannel s)) < ch_cap (tt_localChannel s)"
  shows "fst (http_handleConn IsReady enqueue_offer now (http_gateway g) a reg)
    = EnqueuedAt (TrimSpace (hr_Server q))"
proof -
  let ?r = "\<lparr>gr_Server = TrimSpace (hr_Server q), gr_Target = TrimSpace (hr_Target q)\<rparr>"
  have "hw_Routes (ht_config (http_gateway g)) (NormalizeHTTPHost (hr_Host q)) = Some ?r"
    using validated_http_map [OF assms(1-3)] by (simp add: NewHTTPGateway_routes http_entry_def)
  from tcp_target.http_routes [OF assms(4-6) this, of reg s now] assms(7-9) show ?thesis by simp
qed

theorem http_route_end_to_end_witness:
  "fst (http_handleConn IsReady enqueue_offer 0 (http_gateway demo_hg) demo_http_client demo_registry)
     = EnqueuedAt ''b''"
proof -
  have "ac_peer demo_http_client (http_timeout (http_gateway demo_hg)) = Inr demo_http"
    by (simp add: demo_http_client_def)
  from http_route_end_to_end [OF demo_validated demo_http_route(1,2) this demo_http_ok(1), of demo_registry ready_tcp 0]
  show ?thesis
    using ready_tcp_room demo_http_ok by (simp add: demo_http_route(3) demo_registry_b demo_norms)
qed

end
