(* ===== verification/Mux_Sessions.thy ===== *)
theory Mux_Sessions
  imports Inbound Wire Config
begin

text \<open>
  What the two multiplexed server runtimes (\<^verbatim>\<open>internal/server/transport/tcpmux.go\<close> and
  \<^verbatim>\<open>wsmux.go\<close>) have in common, in the same text: the queues, the counters of streams and
  sessions, and the goroutines of the sessions.  \<open>mux_core\<close> is the common part of their state,
  which both extend; \<open>muxCon\<close> is their option \<^verbatim>\<open>mux_con\<close>.  The sessions are those of a
  third-party library: what \<^verbatim>\<open>OpenStream\<close> returns is an argument.  The goroutine of a session is
  a state machine, \<open>handleSession_step\<close>, whose phases are the points where it waits.
\<close>

section \<open>State\<close>

text \<open>The configuration of the session library.\<close>

record SmuxConfig =
  sx_Version :: int
  sx_KeepAliveInterval :: Duration
  sx_KeepAliveTimeout :: Duration
  sx_MaxFrameSize :: int
  sx_MaxReceiveBuffer :: int
  sx_MaxStreamBuffer :: int

record 'c mux_session =
  ms_id :: nat
  ms_conn :: 'c

text \<open>The goroutine of one session: the used slots of its \<^verbatim>\<open>counter\<close>, its running streams, and
  where it waits.  \<open>PutBack l fin\<close> is the blocking send back to the local channel, from which it
  returns (\<open>fin\<close>) or continues.\<close>

datatype phase = AtAcquire | AtSelect | PutBack LocalTCPConn bool | Returned

record 'c session_handler =
  sh_session :: "'c mux_session"
  sh_slots :: nat
  sh_streams :: nat
  sh_phase :: phase

record 'c mux_core =
  mx_tunnelChannel :: "'c mux_session chan"
  mx_localChannel :: "LocalTCPConn chan"
  mx_reqNewConnChan :: "unit chan"
  mx_streamCounter :: "32 word"
  mx_sessionCounter :: "32 word"
  mx_ready :: bool
  mx_handlers :: "'c session_handler list"

datatype mux_effect =
  CloseConn nat | CloseLocalConn nat | CloseSession nat | RelayStream LocalTCPConn wire


section \<open>Inbound connections\<close>

definition mux_IsReady :: "('c, 'z) mux_core_scheme \<Rightarrow> bool" where
  "mux_IsReady s = mx_ready s"

text \<open>\<^verbatim>\<open>select { case s.reqNewConnChan <- struct{}{}: default: }\<close>.\<close>

definition mux_request :: "('c, 'z) mux_core_scheme \<Rightarrow> ('c, 'z) mux_core_scheme" where
  "mux_request s = s\<lparr>mx_reqNewConnChan := snd (try_send () (mx_reqNewConnChan s))\<rparr>"

text \<open>Are the sessions full?  \<^verbatim>\<open>int32\<close> arithmetic: the product wraps, the comparison is signed.\<close>

definition needs_session :: "int \<Rightarrow> ('c, 'z) mux_core_scheme \<Rightarrow> bool" where
  "needs_session muxCon s \<longleftrightarrow>
     sint (mx_streamCounter s) \<ge> sint (mx_sessionCounter s * of_int muxCon)"

definition mux_enqueueInbound ::
  "int \<Rightarrow> int \<Rightarrow> socket \<Rightarrow> string \<Rightarrow> int \<Rightarrow> ('c, 'z) mux_core_scheme \<Rightarrow> bool \<times> ('c, 'z) mux_core_scheme" where
  "mux_enqueueInbound muxCon now conn target reportPort s =
     (case try_send \<lparr>lc_conn = conn, lc_remoteAddr = target, lc_timeCreated = now,
                      lc_reportPort = reportPort\<rparr> (mx_localChannel s) of
        (True, ch) \<Rightarrow>
          let s = s\<lparr>mx_localChannel := ch, mx_streamCounter := mx_streamCounter s + 1\<rparr> in
          (True, if needs_session muxCon s then mux_request s else s)
      | (False, _) \<Rightarrow> (False, s))"

definition mux_EnqueueInbound ::
  "int \<Rightarrow> int \<Rightarrow> socket \<Rightarrow> string \<Rightarrow> int \<Rightarrow> ('c, 'z) mux_core_scheme \<Rightarrow> bool \<times> ('c, 'z) mux_core_scheme" where
  "mux_EnqueueInbound muxCon now conn target reportPort s =
     (if \<not> mx_ready s then (False, s) else mux_enqueueInbound muxCon now conn target reportPort s)"

definition mux_acceptLocalConn ::
  "int \<Rightarrow> int \<Rightarrow> socket \<Rightarrow> string \<Rightarrow> ('c, 'z) mux_core_scheme \<Rightarrow> mux_effect list \<times> ('c, 'z) mux_core_scheme" where
  "mux_acceptLocalConn muxCon now conn remoteAddr s =
     (if sk_port conn = None then ([CloseLocalConn (sk_id conn)], s)
      else case mux_enqueueInbound muxCon now conn remoteAddr 0 s of
        (True, s) \<Rightarrow> ([], s)
      | (False, s) \<Rightarrow> ([CloseLocalConn (sk_id conn)], s))"


section \<open>Sessions\<close>

definition mux_handleLoop_turn :: "('c, 'z) mux_core_scheme \<Rightarrow> ('c, 'z) mux_core_scheme" where
  "mux_handleLoop_turn s =
     (case try_recv (mx_tunnelChannel s) of
        None \<Rightarrow> s
      | Some (session, ch) \<Rightarrow>
          s\<lparr>mx_tunnelChannel := ch, mx_sessionCounter := mx_sessionCounter s + 1,
            mx_handlers := mx_handlers s
              @ [\<lparr>sh_session = session, sh_slots = 0, sh_streams = 0, sh_phase = AtAcquire\<rparr>]\<rparr>)"

text \<open>What a handler can see: a free slot of its \<^verbatim>\<open>counter\<close>, the end of the context, a local
  connection (with the clock and what \<^verbatim>\<open>OpenStream\<close> returns), room in the local channel, and the
  end of one of its streams.\<close>

datatype session_event = Acquire | Done | Take int "wire option" | Put | StreamEnd

text \<open>\<^verbatim>\<open>handleSessionError\<close>: before its blocking send, and after it.\<close>

definition handleSessionError_begin :: "LocalTCPConn \<Rightarrow> 'c session_handler \<Rightarrow> ('c, 'z) mux_core_scheme
    \<Rightarrow> 'c session_handler \<times> ('c, 'z) mux_core_scheme" where
  "handleSessionError_begin incomingConn h s =
     (h\<lparr>sh_phase := PutBack incomingConn True\<rparr>,
      s\<lparr>mx_sessionCounter := mx_sessionCounter s - 1\<rparr>)"

definition handleSession_take :: "int \<Rightarrow> wire option \<Rightarrow> 'c session_handler \<Rightarrow> ('c, 'z) mux_core_scheme
    \<Rightarrow> mux_effect list \<times> 'c session_handler \<times> ('c, 'z) mux_core_scheme" where
  "handleSession_take now opened h s =
     (case try_recv (mx_localChannel s) of
        None \<Rightarrow> ([], h, s)
      | Some (incomingConn, ch) \<Rightarrow>
          let s = s\<lparr>mx_localChannel := ch\<rparr> in
          if now - lc_timeCreated incomingConn > 3000 then
            ([CloseLocalConn (sk_id (lc_conn incomingConn))],
             h\<lparr>sh_slots := sh_slots h - 1, sh_phase := AtAcquire\<rparr>,
             s\<lparr>mx_streamCounter := mx_streamCounter s - 1\<rparr>)
          else
            (case opened of
               None \<Rightarrow> ([], handleSessionError_begin incomingConn h s)
             | Some stream \<Rightarrow>
                 (case SendBinaryString stream (lc_remoteAddr incomingConn) of
                    (Some _, _) \<Rightarrow> ([], h\<lparr>sh_phase := PutBack incomingConn False\<rparr>, s)
                  | (None, stream) \<Rightarrow>
                      ([RelayStream incomingConn stream],
                       h\<lparr>sh_streams := sh_streams h + 1, sh_phase := AtAcquire\<rparr>, s))))"

definition handleSession_step :: "int \<Rightarrow> session_event \<Rightarrow> 'c session_handler \<Rightarrow> ('c, 'z) mux_core_scheme
    \<Rightarrow> mux_effect list \<times> 'c session_handler \<times> ('c, 'z) mux_core_scheme" where
  "handleSession_step muxCon ev h s =
     (case ev of
        Acquire \<Rightarrow>
          if sh_phase h = AtAcquire \<and> int (sh_slots h) < muxCon
          then ([], h\<lparr>sh_slots := sh_slots h + 1, sh_phase := AtSelect\<rparr>, s) else ([], h, s)
      | Done \<Rightarrow>
          if sh_phase h = AtSelect
          then ([CloseSession (ms_id (sh_session h))], h\<lparr>sh_phase := Returned\<rparr>, s) else ([], h, s)
      | Take now opened \<Rightarrow>
          if sh_phase h = AtSelect then handleSession_take now opened h s else ([], h, s)
      | Put \<Rightarrow>
          (case sh_phase h of
             PutBack l fin \<Rightarrow>
               (case try_send l (mx_localChannel s) of
                  (False, _) \<Rightarrow> ([], h, s)
                | (True, ch) \<Rightarrow>
                    let s = s\<lparr>mx_localChannel := ch\<rparr> in
                    if fin then ([CloseSession (ms_id (sh_session h))], h\<lparr>sh_phase := Returned\<rparr>, mux_request s)
                    else ([], h\<lparr>sh_phase := AtAcquire\<rparr>, s))
           | _ \<Rightarrow> ([], h, s))
      | StreamEnd \<Rightarrow>
          if sh_streams h > 0
          then ([], h\<lparr>sh_streams := sh_streams h - 1, sh_slots := sh_slots h - 1\<rparr>,
                s\<lparr>mx_streamCounter := mx_streamCounter s - 1\<rparr>)
          else ([], h, s))"

definition session_step :: "int \<Rightarrow> nat \<Rightarrow> session_event \<Rightarrow> ('c, 'z) mux_core_scheme \<Rightarrow> mux_effect list \<times> ('c, 'z) mux_core_scheme" where
  "session_step muxCon i ev s =
     (case handleSession_step muxCon ev (mx_handlers s ! i) s of
        (es, h, s) \<Rightarrow> (es, s\<lparr>mx_handlers := (mx_handlers s)[i := h]\<rparr>))"


lemma mux_request_fields [simp]:
  "mx_localChannel (mux_request s) = mx_localChannel s" "mx_ready (mux_request s) = mx_ready s"
  "mx_tunnelChannel (mux_request s) = mx_tunnelChannel s" "mx_handlers (mux_request s) = mx_handlers s"
  "mx_streamCounter (mux_request s) = mx_streamCounter s"
  "mx_sessionCounter (mux_request s) = mx_sessionCounter s"
  "mux_core.more (mux_request s) = mux_core.more s"
  by (simp_all add: mux_request_def)

lemma mux_enqueueInbound_cases:
  "mux_enqueueInbound muxCon now c tg p s = (ok, t) \<Longrightarrow>
     (if ok then length (ch_buf (mx_localChannel s)) < ch_cap (mx_localChannel s)
        \<and> ch_buf (mx_localChannel t) = ch_buf (mx_localChannel s) @ [local_of (now, c, tg, p)]
      else t = s \<and> ch_cap (mx_localChannel s) \<le> length (ch_buf (mx_localChannel s)))
     \<and> mx_ready t = mx_ready s \<and> ch_cap (mx_localChannel t) = ch_cap (mx_localChannel s)"
  by (auto simp: mux_enqueueInbound_def try_send_def local_of_def Let_def split: if_splits)


text \<open>A runtime with this core is an inbound target, wherever it keeps \<open>muxCon\<close>.\<close>

definition mux_offer :: "(('c, 'z) mux_core_scheme \<Rightarrow> int) \<Rightarrow> offer \<Rightarrow> ('c, 'z) mux_core_scheme
    \<Rightarrow> bool \<times> ('c, 'z) mux_core_scheme" where
  "mux_offer muxCon q s =
     (case q of (now, c, target, port) \<Rightarrow> mux_EnqueueInbound (muxCon s) now c target port s)"

lemma mux_core_target:
  fixes muxCon :: "('c, 'z) mux_core_scheme \<Rightarrow> int"
  shows "inbound_target mux_IsReady (mux_offer muxCon)
    (\<lambda>s. ch_buf (mx_localChannel s)) (\<lambda>s. ch_cap (mx_localChannel s))"
proof
  fix q :: offer and s t :: "('c, 'z) mux_core_scheme"
  obtain now c tg p where q: "q = (now, c, tg, p)" by (metis prod.exhaust)
  note C = mux_enqueueInbound_cases [of "muxCon s" now c tg p s _ t]
  note D = mux_offer_def mux_EnqueueInbound_def mux_IsReady_def q
  show "mux_offer muxCon q s = (True, t) \<Longrightarrow>
      mux_IsReady s \<and> ch_buf (mx_localChannel t) = ch_buf (mx_localChannel s) @ [local_of q]"
    using C [of True] by (auto simp: D split: if_splits)
  show "mux_offer muxCon q s = (False, t) \<Longrightarrow>
      t = s \<and> (\<not> mux_IsReady s \<or> ch_cap (mx_localChannel s) \<le> length (ch_buf (mx_localChannel s)))"
    using C [of False] by (auto simp: D split: if_splits)
  show "mux_offer muxCon q s = (ok, t) \<Longrightarrow> mux_IsReady t = mux_IsReady s
      \<and> ch_cap (mx_localChannel t) = ch_cap (mx_localChannel s)
      \<and> (length (ch_buf (mx_localChannel s)) \<le> ch_cap (mx_localChannel s)
         \<longrightarrow> length (ch_buf (mx_localChannel t)) \<le> ch_cap (mx_localChannel t))" for ok
    using C [of ok] by (cases ok) (auto simp: D split: if_splits)
qed

end
