(* ===== verification/Tcpmux_Server.thy ===== *)
theory Tcpmux_Server
  imports Tcp_Server Mux_Sessions
begin

text \<open>
  The multiplexed TCP server runtime, \<^verbatim>\<open>internal/server/transport/tcpmux.go\<close>: its control
  channels, of which more can be promoted from tunnel connections, and what leads to the
  sessions of \<open>Mux_Sessions\<close>.  What \<^verbatim>\<open>smux.Client\<close> returns is an argument.
\<close>

section \<open>State\<close>

record TcpMuxConfig =
  tm_BindAddr :: string
  tm_TunnelStatus :: string
  tm_SnifferLog :: string
  tm_Token :: string
  tm_Ports :: "string list"
  tm_Nodelay :: bool
  tm_Sniffer :: bool
  tm_ChannelSize :: int
  tm_MuxCon :: int
  tm_MuxVersion :: int
  tm_MaxFrameSize :: int
  tm_MaxReceiveBuffer :: int
  tm_MaxStreamBuffer :: int
  tm_WebPort :: int
  tm_KeepAlive :: Duration
  tm_Heartbeat :: Duration
  tm_AllowMultiIP :: bool
  tm_TCPCopyBuffer :: int

text \<open>A connection that may have been probed: \<open>mq_tcp\<close> tells whether it still is a
  \<^verbatim>\<open>*net.TCPConn\<close>, or a \<^verbatim>\<open>PrefixedConn\<close> around one, whose reads are those of \<open>replay\<close>.\<close>

record mux_conn =
  mq_conn :: tunnel_conn
  mq_tcp :: bool

fun replay :: "net_conn \<Rightarrow> conn" where
  "replay (RawConn c) = c"
| "replay (Prefixed p) =
     (if pc_prefix p = [] then pc_Conn p else (drop (pc_off p) (pc_prefix p), None) # pc_Conn p)"

text \<open>The handshake goroutine, and with it the unbuffered \<^verbatim>\<open>handshakeChannel\<close>: a send succeeds
  exactly while the goroutine waits in its select.\<close>

datatype handshaking = Idle | Waiting | Busy mux_conn

record TcpMuxTransport = "mux_conn mux_core" +
  mx_config :: TcpMuxConfig
  mx_smuxConfig :: SmuxConfig
  mx_handshakeChannel :: handshaking
  mx_controlChannel :: "tunnel_conn option"
  mx_extraCtrlConns :: "tunnel_conn list"
  mx_rrControlIdx :: nat

definition NewTcpMuxServer :: "TcpMuxConfig \<Rightarrow> TcpMuxTransport" where
  "NewTcpMuxServer config =
     \<lparr>mx_tunnelChannel = make_chan (nat (tm_ChannelSize config)),
      mx_localChannel = make_chan (nat (tm_ChannelSize config)),
      mx_reqNewConnChan = make_chan (nat (tm_ChannelSize config)),
      mx_streamCounter = 0, mx_sessionCounter = 0, mx_ready = False, mx_handlers = [],
      mx_config = config,
      mx_smuxConfig = \<lparr>sx_Version = tm_MuxVersion config, sx_KeepAliveInterval = 20 * Second,
        sx_KeepAliveTimeout = 40 * Second, sx_MaxFrameSize = tm_MaxFrameSize config,
        sx_MaxReceiveBuffer = tm_MaxReceiveBuffer config,
        sx_MaxStreamBuffer = tm_MaxStreamBuffer config\<rparr>,
      mx_handshakeChannel = Idle, mx_controlChannel = None, mx_extraCtrlConns = [],
      mx_rrControlIdx = 0\<rparr>"

section \<open>Start and restart\<close>

definition mux_Start_begin :: "TcpMuxTransport \<Rightarrow> goroutine list \<times> TcpMuxTransport" where
  "mux_Start_begin s =
     ((if tm_WebPort (mx_config s) > 0 then [UsageMonitor] else [])
        @ [TunnelListener (tm_BindAddr (mx_config s))],
      s\<lparr>mx_config := (mx_config s)\<lparr>tm_TunnelStatus := ''Disconnected (TCPMux)''\<rparr>,
        mx_handshakeChannel := Waiting\<rparr>)"

definition mux_Start_connected :: "nat \<Rightarrow> TcpMuxTransport \<Rightarrow> goroutine list \<times> TcpMuxTransport" where
  "mux_Start_connected numCPU s =
     (if mx_controlChannel s \<noteq> None
      then ([ParsePortMappings, ChannelHandler] @ replicate (if numCPU > 4 then 4 else numCPU) HandleLoop,
            s\<lparr>mx_config := (mx_config s)\<lparr>tm_TunnelStatus := ''Connected (TCPMux)''\<rparr>\<rparr>)
      else ([], s))"

text \<open>The goroutines of sessions survive a restart until they next look at the context.\<close>

definition mux_Restart :: "TcpMuxTransport \<Rightarrow> mux_effect list \<times> TcpMuxTransport" where
  "mux_Restart s =
     ((case mx_controlChannel s of Some c \<Rightarrow> [CloseConn (tn_id c)] | None \<Rightarrow> [])
        @ map (\<lambda>c. CloseConn (tn_id c)) (mx_extraCtrlConns s),
      s\<lparr>mx_tunnelChannel := make_chan (nat (tm_ChannelSize (mx_config s))),
        mx_localChannel := make_chan (nat (tm_ChannelSize (mx_config s))),
        mx_reqNewConnChan := make_chan (nat (tm_ChannelSize (mx_config s))),
        mx_controlChannel := None, mx_ready := False,
        mx_config := (mx_config s)\<lparr>tm_TunnelStatus := ''''\<rparr>,
        mx_streamCounter := 0, mx_sessionCounter := 0,
        mx_extraCtrlConns := [], mx_rrControlIdx := 0\<rparr>)"

text \<open>The turn of the handshake loop for the connection it received.  The exchange of tokens is
  that of the plain TCP runtime; a connection that was probed before is refused afterwards.\<close>

definition mux_channelHandshake :: "bool \<Rightarrow> TcpMuxTransport \<Rightarrow> mux_effect list \<times> TcpMuxTransport" where
  "mux_channelHandshake deadline_ok s =
     (case mx_handshakeChannel s of
        Busy c \<Rightarrow>
          (case handshake_conn deadline_ok (tm_Token (mx_config s)) (mq_conn c) of
             None \<Rightarrow> ([CloseConn (tn_id (mq_conn c))], s\<lparr>mx_handshakeChannel := Waiting\<rparr>)
           | Some conn \<Rightarrow>
               if \<not> mq_tcp c then ([CloseConn (tn_id conn)], s\<lparr>mx_handshakeChannel := Waiting\<rparr>)
               else ([], s\<lparr>mx_controlChannel := Some conn, mx_ready := True,
                           mx_handshakeChannel := Idle\<rparr>))
      | _ \<Rightarrow> ([], s))"

section \<open>The control channels\<close>

text \<open>The main channel and the extra ones in the order of the source, and writing them back.\<close>

definition channels :: "TcpMuxTransport \<Rightarrow> tunnel_conn list" where
  "channels s = (case mx_controlChannel s of Some c \<Rightarrow> [c] | None \<Rightarrow> []) @ mx_extraCtrlConns s"

definition put_channels :: "tunnel_conn list \<Rightarrow> TcpMuxTransport \<Rightarrow> TcpMuxTransport" where
  "put_channels cs s =
     (case mx_controlChannel s of
        None \<Rightarrow> s\<lparr>mx_extraCtrlConns := cs\<rparr>
      | Some _ \<Rightarrow> s\<lparr>mx_controlChannel := Some (hd cs), mx_extraCtrlConns := tl cs\<rparr>)"

definition send_signal :: "char \<Rightarrow> tunnel_conn \<Rightarrow> bool \<times> tunnel_conn" where
  "send_signal sig c =
     (case SendBinaryByte (tn_wire c) sig of (e, w) \<Rightarrow> (e = None, c\<lparr>tn_wire := w\<rparr>))"

text \<open>A closed connection: every further write fails and puts nothing out.\<close>

definition close_conn :: "tunnel_conn \<Rightarrow> tunnel_conn" where
  "close_conn c = c\<lparr>tn_wire := (tn_wire c)\<lparr>w_fail := Some (ErrReset, 0)\<rparr>\<rparr>"

text \<open>The loop over \<^verbatim>\<open>i\<close>: the index that took the signal, the connections closed on the way.\<close>

fun rr_loop :: "nat list \<Rightarrow> nat \<Rightarrow> tunnel_conn list \<Rightarrow> nat option \<times> nat list \<times> tunnel_conn list" where
  "rr_loop [] start cs = (None, [], cs)"
| "rr_loop (i # is) start cs =
     (let idx = (start + i) mod length cs in
      case send_signal SG_Chan (cs ! idx) of
        (True, c) \<Rightarrow> (Some idx, [], cs[idx := c])
      | (False, c) \<Rightarrow>
          (case rr_loop is start (cs[idx := close_conn c]) of
             (r, closed, cs) \<Rightarrow> (r, tn_id c # closed, cs)))"

definition sendNewConnSignalRoundRobin ::
  "TcpMuxTransport \<Rightarrow> bool \<times> mux_effect list \<times> TcpMuxTransport" where
  "sendNewConnSignalRoundRobin s =
     (let cs = channels s in
      if length cs = 0 then (False, [], s)
      else
        let start = mx_rrControlIdx s mod length cs in
        (case rr_loop [0..<length cs] start cs of
           (Some idx, closed, cs) \<Rightarrow>
             (True, map CloseConn closed,
              (put_channels cs s)\<lparr>mx_rrControlIdx := (idx + 1) mod length cs\<rparr>)
         | (None, closed, cs) \<Rightarrow> (False, map CloseConn closed, put_channels cs s)))"

text \<open>The loop over the channels: those alive and those closed; then the result.\<close>

fun heartbeat_loop :: "tunnel_conn list \<Rightarrow> tunnel_conn list \<times> nat list" where
  "heartbeat_loop [] = ([], [])"
| "heartbeat_loop (c # cs) =
     (case heartbeat_loop cs of (alive, closed) \<Rightarrow>
        (case send_signal SG_HB c of
           (True, c) \<Rightarrow> (c # alive, closed)
         | (False, c) \<Rightarrow> (alive, tn_id c # closed)))"

definition broadcastHeartbeat :: "TcpMuxTransport \<Rightarrow> bool \<times> mux_effect list \<times> TcpMuxTransport" where
  "broadcastHeartbeat s =
     (case mx_controlChannel s of
        None \<Rightarrow>
          if mx_extraCtrlConns s = [] then (False, [], s)
          else (case heartbeat_loop (mx_extraCtrlConns s) of
                  (alive, closed) \<Rightarrow> (True, map CloseConn closed, s\<lparr>mx_extraCtrlConns := alive\<rparr>))
      | Some c \<Rightarrow>
          (case send_signal SG_HB c of
             (mainAlive, c') \<Rightarrow>
               (case heartbeat_loop (mx_extraCtrlConns s) of
                  (alive, closed) \<Rightarrow>
                    (mainAlive,
                     map CloseConn ((if mainAlive then [] else [tn_id c]) @ closed),
                     s\<lparr>mx_controlChannel := Some (if mainAlive then c' else close_conn c'),
                       mx_extraCtrlConns := alive\<rparr>))))"

text \<open>One turn of \<^verbatim>\<open>channelHandler\<close>; its reading goroutine reads a single message.\<close>

definition mux_channelHandler_step ::
  "control_event \<Rightarrow> TcpMuxTransport \<Rightarrow> handler_next \<times> mux_effect list \<times> TcpMuxTransport" where
  "mux_channelHandler_step ev s =
     (case ev of
        CtxDone \<Rightarrow>
          (Stopped, [],
           (case mx_controlChannel s of
              None \<Rightarrow> s
            | Some c \<Rightarrow> s\<lparr>mx_controlChannel := Some (snd (send_signal SG_Closed c))\<rparr>))
      | ReqNewConn \<Rightarrow>
          (case try_recv (mx_reqNewConnChan s) of
             None \<Rightarrow> (Running, [], s)
           | Some (_, ch) \<Rightarrow>
               (case sendNewConnSignalRoundRobin (s\<lparr>mx_reqNewConnChan := ch\<rparr>) of
                  (ok, es, s) \<Rightarrow> (if ok then Running else Restarting, es, s)))
      | Tick \<Rightarrow>
          (case broadcastHeartbeat s of
             (ok, es, s) \<Rightarrow> (if ok then Running else Restarting, es, s))
      | Message m _ \<Rightarrow> (if m = SG_Closed then Restarting else Running, [], s)
      | ReaderError \<Rightarrow> (Restarting, [], s))"

section \<open>Probing and accepting tunnel connections\<close>

definition shouldProbeForExtraControl :: "string \<Rightarrow> TcpMuxTransport \<Rightarrow> bool" where
  "shouldProbeForExtraControl remoteIP s =
     (case mx_controlChannel s of
        None \<Rightarrow> True
      | Some c \<Rightarrow>
          if tn_ip c = Some remoteIP then False
          else \<not> list_ex (\<lambda>extra. tn_ip extra = Some remoteIP) (mx_extraCtrlConns s))"

definition maxTokenLen :: nat where
  "maxTokenLen = 512"

text \<open>The first result of the source is whether the connection was dealt with; the second the
  connection to go on with.\<close>

datatype probe = NotControl mux_conn | Handled "mux_effect list"

definition not_control :: "tunnel_conn \<Rightarrow> conn \<Rightarrow> string \<Rightarrow> probe" where
  "not_control conn rest prefix =
     (case NewPrefixedConn rest prefix of nc \<Rightarrow>
        NotControl \<lparr>mq_conn = conn\<lparr>tn_wire := (tn_wire conn)\<lparr>w_in := replay nc\<rparr>\<rparr>,
                    mq_tcp = (case nc of RawConn _ \<Rightarrow> True | Prefixed _ \<Rightarrow> False)\<rparr>)"

definition tryPromoteExtraControlChannel ::
  "bool \<Rightarrow> tunnel_conn \<Rightarrow> TcpMuxTransport \<Rightarrow> probe \<times> TcpMuxTransport" where
  "tryPromoteExtraControlChannel deadline_ok conn s =
     (if \<not> deadline_ok then (NotControl \<lparr>mq_conn = conn, mq_tcp = True\<rparr>, s) else
      case io_ReadFull 3 (w_in (tn_wire conn)) of
        ((header, Some _), rest) \<Rightarrow> (not_control conn rest header, s)
      | ((header, None), rest) \<Rightarrow>
          let msgLen = unat (GetUint16 header); transport = header ! 2 in
          if transport \<noteq> SG_Chan \<or> msgLen < 1 \<or> msgLen > maxTokenLen
          then (not_control conn rest header, s)
          else
            (case io_ReadFull msgLen rest of
               ((body, Some _), rest) \<Rightarrow> (not_control conn rest (header @ body), s)
             | ((body, None), rest) \<Rightarrow>
                 if body \<noteq> tm_Token (mx_config s) then (Handled [CloseConn (tn_id conn)], s)
                 else
                   (case SendBinaryTransportString ((tn_wire conn)\<lparr>w_in := rest\<rparr>)
                       (tm_Token (mx_config s)) SG_Chan of
                      (Some _, _) \<Rightarrow> (Handled [CloseConn (tn_id conn)], s)
                    | (None, w) \<Rightarrow>
                        (Handled [],
                         s\<lparr>mx_extraCtrlConns := mx_extraCtrlConns s @ [conn\<lparr>tn_wire := w\<rparr>]\<rparr>))))"

text \<open>The end of a turn of \<^verbatim>\<open>acceptTunnelConn\<close>; \<open>client\<close> is what \<^verbatim>\<open>smux.Client\<close> returned, the name
  of the session or its error.\<close>

definition deliverTunnelConn :: "nat option \<Rightarrow> mux_conn \<Rightarrow> TcpMuxTransport \<Rightarrow> mux_effect list \<times> TcpMuxTransport" where
  "deliverTunnelConn client conn s =
     (case mx_controlChannel s of
        None \<Rightarrow>
          (case mx_handshakeChannel s of
             Waiting \<Rightarrow> ([], s\<lparr>mx_handshakeChannel := Busy conn\<rparr>)
           | _ \<Rightarrow> ([CloseConn (tn_id (mq_conn conn))], s))
      | Some _ \<Rightarrow>
          (case client of
             None \<Rightarrow> ([CloseConn (tn_id (mq_conn conn))], s)
           | Some i \<Rightarrow>
               (case try_send \<lparr>ms_id = i, ms_conn = conn\<rparr> (mx_tunnelChannel s) of
                  (True, ch) \<Rightarrow> ([], s\<lparr>mx_tunnelChannel := ch\<rparr>)
                | (False, _) \<Rightarrow> ([CloseSession i], s))))"

definition mux_acceptTunnelConn ::
  "bool \<Rightarrow> nat option \<Rightarrow> tunnel_conn \<Rightarrow> TcpMuxTransport \<Rightarrow> mux_effect list \<times> TcpMuxTransport" where
  "mux_acceptTunnelConn deadline_ok client conn s =
     (case tn_ip conn of
        None \<Rightarrow> ([CloseConn (tn_id conn)], s)
      | Some ip \<Rightarrow>
          if \<not> tm_AllowMultiIP (mx_config s)
             \<and> (case mx_controlChannel s of None \<Rightarrow> False | Some c \<Rightarrow> tn_ip c \<noteq> Some ip)
          then ([CloseConn (tn_id conn)], s)
          else if tm_AllowMultiIP (mx_config s) \<and> mx_controlChannel s \<noteq> None
                  \<and> shouldProbeForExtraControl ip s
          then (case tryPromoteExtraControlChannel deadline_ok conn s of
                  (Handled es, s) \<Rightarrow> (es, s)
                | (NotControl c, s) \<Rightarrow> deliverTunnelConn client c s)
          else deliverTunnelConn client \<lparr>mq_conn = conn, mq_tcp = True\<rparr> s)"

section \<open>Local listeners\<close>

definition mux_parsePortMappings :: "TcpMuxTransport \<Rightarrow> goroutine list \<times> fatal option" where
  "mux_parsePortMappings s =
     (case parsePortMappings (tm_Ports (mx_config s)) of
        (started, e) \<Rightarrow> (map (\<lambda>l. LocalListener (fst l) (snd l)) started, e))"

section \<open>The interleaving of the goroutines\<close>

inductive mux_step :: "TcpMuxTransport \<Rightarrow> mux_effect list \<times> TcpMuxTransport \<Rightarrow> bool" where
  "mux_step s (mux_acceptTunnelConn ok client c s)"
| "mux_step s (deliverTunnelConn client q s)"
| "mx_controlChannel s = None \<Longrightarrow> mx_handshakeChannel s = Idle \<Longrightarrow> mux_step s ([], snd (mux_Start_begin s))"
| "mux_step s (mux_channelHandshake ok s)"
| "mux_step s ([], snd (mux_Start_connected numCPU s))"
| "mx_controlChannel s \<noteq> None \<Longrightarrow> mux_step s (snd (mux_channelHandler_step ev s))"
| "mux_step s (mux_acceptLocalConn (tm_MuxCon (mx_config s)) now sk addr s)"
| "mux_step s ([], snd (mux_EnqueueInbound (tm_MuxCon (mx_config s)) now sk addr port s))"
| "mux_step s ([], mux_handleLoop_turn s)"
| "i < length (mx_handlers s) \<Longrightarrow> mux_step s (session_step (tm_MuxCon (mx_config s)) i ev s)"
| "mx_controlChannel s \<noteq> None \<Longrightarrow> mux_step s (mux_Restart s)"

inductive mux_reachable :: "TcpMuxConfig \<Rightarrow> TcpMuxTransport \<Rightarrow> bool" for config where
  start: "mux_reachable config (NewTcpMuxServer config)"
| step: "mux_reachable config s \<Longrightarrow> mux_step s (es, t) \<Longrightarrow> mux_reachable config t"

inductive_cases mux_stepE: "mux_step s (es, t)"

section \<open>The runtime as an inbound target\<close>

definition mux_enqueue_offer :: "offer \<Rightarrow> TcpMuxTransport \<Rightarrow> bool \<times> TcpMuxTransport" where
  "mux_enqueue_offer = mux_offer (\<lambda>s. tm_MuxCon (mx_config s))"

interpretation mux_target: inbound_target mux_IsReady mux_enqueue_offer
    "\<lambda>s :: TcpMuxTransport. ch_buf (mx_localChannel s)" "\<lambda>s. ch_cap (mx_localChannel s)"
  unfolding mux_enqueue_offer_def by (rule mux_core_target)

end
