(* ===== verification/Mux_Sessions_Spec.thy ===== *)
theory Mux_Sessions_Spec
  imports Mux_Sessions Tcp_Spec
begin

text \<open>
  What the sessions of the multiplexed runtimes do with the local connections they take: the
  bounds of their slots, the stream counter, that no connection is lost, and that slots are.
\<close>

section \<open>The invariant of the core\<close>

text \<open>The slot of its \<^verbatim>\<open>counter\<close> that a handler holds for itself, apart from its streams.\<close>

definition own_slot :: "'c session_handler \<Rightarrow> nat" where
  "own_slot h = (case sh_phase h of AtAcquire \<Rightarrow> 0 | _ \<Rightarrow> 1)"

definition handler_ok :: "int \<Rightarrow> 'c session_handler \<Rightarrow> bool" where
  "handler_ok m h \<longleftrightarrow> sh_streams h + own_slot h \<le> sh_slots h \<and> (sh_slots h = 0 \<or> int (sh_slots h) \<le> m)"

definition core_inv :: "nat \<Rightarrow> int \<Rightarrow> ('c, 'z) mux_core_scheme \<Rightarrow> bool" where
  "core_inv n muxCon s \<longleftrightarrow> chan_ok n (mx_tunnelChannel s) \<and> chan_ok n (mx_localChannel s)
     \<and> chan_ok n (mx_reqNewConnChan s) \<and> list_all (handler_ok muxCon) (mx_handlers s)"

lemma core_inv_request: "core_inv n muxCon s \<Longrightarrow> core_inv n muxCon (mux_request s)"
  by (auto simp: core_inv_def mux_request_def intro: chan_ok_send [OF surjective_pairing])

lemma core_inv_counters [simp]:
  "core_inv n muxCon (s\<lparr>mx_streamCounter := k\<rparr>) = core_inv n muxCon s"
  "core_inv n muxCon (s\<lparr>mx_sessionCounter := k\<rparr>) = core_inv n muxCon s"
  by (simp_all add: core_inv_def)

lemma core_inv_enqueue:
  "mux_enqueueInbound muxCon now c tg p s = (ok, t) \<Longrightarrow> core_inv n m s \<Longrightarrow> core_inv n m t"
  by (auto simp: mux_enqueueInbound_def Let_def split: prod.splits bool.splits if_splits intro!: core_inv_request)
    (auto simp: core_inv_def intro: chan)

lemma mux_enqueue_frame:
  "mux_enqueueInbound muxCon now c tg p s = (ok, t) \<Longrightarrow> mx_ready t = mx_ready s \<and> mux_core.more t = mux_core.more s"
  by (auto simp: mux_enqueueInbound_def Let_def split: prod.splits bool.splits if_splits)

lemma core_inv_handleLoop: "core_inv n muxCon s \<Longrightarrow> core_inv n muxCon (mux_handleLoop_turn s)"
  by (auto simp: mux_handleLoop_turn_def core_inv_def handler_ok_def own_slot_def
      split: option.splits intro: chan)

text \<open>The outcomes of a step of a session.\<close>

lemma handleSession_step_cases:
  assumes "handleSession_step muxCon ev h s = (es, h', s')"
  obtains (idle) "es = []" "h' = h" "s' = s"
  | (acquire) "sh_phase h = AtAcquire" "int (sh_slots h) < muxCon" "es = []"
      "h' = h\<lparr>sh_slots := sh_slots h + 1, sh_phase := AtSelect\<rparr>" "s' = s"
  | (finished) "sh_phase h = AtSelect" "es = [CloseSession (ms_id (sh_session h))]"
      "h' = h\<lparr>sh_phase := Returned\<rparr>" "s' = s"
  | (expired) l ch where "sh_phase h = AtSelect" "try_recv (mx_localChannel s) = Some (l, ch)"
      "es = [CloseLocalConn (sk_id (lc_conn l))]"
      "h' = h\<lparr>sh_slots := sh_slots h - 1, sh_phase := AtAcquire\<rparr>"
      "s' = s\<lparr>mx_localChannel := ch, mx_streamCounter := mx_streamCounter s - 1\<rparr>"
  | (failed) l ch where "sh_phase h = AtSelect" "try_recv (mx_localChannel s) = Some (l, ch)" "es = []"
      "h' = h\<lparr>sh_phase := PutBack l True\<rparr>"
      "s' = s\<lparr>mx_localChannel := ch, mx_sessionCounter := mx_sessionCounter s - 1\<rparr>"
  | (unsent) l ch where "sh_phase h = AtSelect" "try_recv (mx_localChannel s) = Some (l, ch)" "es = []"
      "h' = h\<lparr>sh_phase := PutBack l False\<rparr>" "s' = s\<lparr>mx_localChannel := ch\<rparr>"
  | (relayed) l ch stream stream' where "sh_phase h = AtSelect"
      "try_recv (mx_localChannel s) = Some (l, ch)" "es = [RelayStream l stream']"
      "SendBinaryString stream (lc_remoteAddr l) = (None, stream')"
      "h' = h\<lparr>sh_streams := sh_streams h + 1, sh_phase := AtAcquire\<rparr>" "s' = s\<lparr>mx_localChannel := ch\<rparr>"
  | (returned) l ch where "sh_phase h = PutBack l True" "try_send l (mx_localChannel s) = (True, ch)"
      "es = [CloseSession (ms_id (sh_session h))]" "h' = h\<lparr>sh_phase := Returned\<rparr>"
      "s' = mux_request (s\<lparr>mx_localChannel := ch\<rparr>)"
  | (continued) l ch where "sh_phase h = PutBack l False" "try_send l (mx_localChannel s) = (True, ch)"
      "es = []" "h' = h\<lparr>sh_phase := AtAcquire\<rparr>" "s' = s\<lparr>mx_localChannel := ch\<rparr>"
  | (ended) "sh_streams h > 0" "es = []"
      "h' = h\<lparr>sh_streams := sh_streams h - 1, sh_slots := sh_slots h - 1\<rparr>"
      "s' = s\<lparr>mx_streamCounter := mx_streamCounter s - 1\<rparr>"
proof (cases ev)
  case Acquire
  show thesis
  proof (cases "sh_phase h = AtAcquire \<and> int (sh_slots h) < muxCon")
    case True
    with assms Acquire show thesis by (intro that(2)) (simp_all add: handleSession_step_def)
  next
    case False
    with assms Acquire show thesis by (intro that(1)) (simp_all add: handleSession_step_def)
  qed
next
  case Done
  show thesis
  proof (cases "sh_phase h = AtSelect")
    case True
    with assms Done show thesis by (intro that(3)) (simp_all add: handleSession_step_def)
  next
    case False
    with assms Done show thesis by (intro that(1)) (simp_all add: handleSession_step_def)
  qed
next
  case (Take now opened)
  show thesis
  proof (cases "sh_phase h = AtSelect \<and> try_recv (mx_localChannel s) \<noteq> None")
    case True
    then obtain l ch where l: "sh_phase h = AtSelect" "try_recv (mx_localChannel s) = Some (l, ch)" by auto
    note S = assms [unfolded handleSession_step_def handleSession_take_def handleSessionError_begin_def Take]
    show thesis
    proof (cases "now - lc_timeCreated l > 3000")
      case True
      with S l show thesis by (intro that(4) [of l ch]) (simp_all add: Let_def)
    next
      case False
      show thesis
      proof (cases opened)
        case None
        with S l False show thesis by (intro that(5) [of l ch]) (simp_all add: Let_def)
      next
        case (Some stream)
        obtain e w where "SendBinaryString stream (lc_remoteAddr l) = (e, w)" by (metis prod.exhaust)
        with S l False Some show thesis
          using that(6) [of l ch] that(7) [of l ch w stream] by (cases e) (simp_all add: Let_def)
      qed
    qed
  next
    case False
    with assms Take show thesis
      by (intro that(1)) (auto simp: handleSession_step_def handleSession_take_def split: if_splits option.splits)
  qed
next
  case Put
  show thesis
  proof (cases "\<exists>l fin ch. sh_phase h = PutBack l fin \<and> try_send l (mx_localChannel s) = (True, ch)")
    case True
    then obtain l fin ch where "sh_phase h = PutBack l fin" "try_send l (mx_localChannel s) = (True, ch)" by auto
    with assms Put show thesis
      using that(8) [of l ch] that(9) [of l ch] by (cases fin) (simp_all add: handleSession_step_def Let_def)
  next
    case False
    with assms Put show thesis
      by (intro that(1)) (auto simp: handleSession_step_def split: phase.splits prod.splits bool.splits)
  qed
next
  case StreamEnd
  show thesis
  proof (cases "sh_streams h > 0")
    case True
    with assms StreamEnd show thesis by (intro that(10)) (simp_all add: handleSession_step_def)
  next
    case False
    with assms StreamEnd show thesis by (intro that(1)) (simp_all add: handleSession_step_def)
  qed
qed

text \<open>One step of a session keeps its own invariant and that of the rest.\<close>

lemma handleSession_step_frame:
  assumes "handleSession_step muxCon ev h s = (es, h', s')"
  shows "mx_handlers s' = mx_handlers s \<and> mx_ready s' = mx_ready s \<and> mx_tunnelChannel s' = mx_tunnelChannel s
    \<and> mux_core.more s' = mux_core.more s"
  using assms by (cases rule: handleSession_step_cases) simp_all

lemma handleSession_step_ok:
  assumes "handleSession_step muxCon ev h s = (es, h', s')" and "core_inv n muxCon s" and "handler_ok muxCon h"
  shows "handler_ok muxCon h' \<and> core_inv n muxCon s'"
proof -
  have recv: "try_recv (mx_localChannel s) = Some (l, ch) \<Longrightarrow> core_inv n muxCon (s\<lparr>mx_localChannel := ch\<rparr>)" for l ch
    using assms(2) by (auto simp: core_inv_def intro: chan)
  have snd: "try_send l (mx_localChannel s) = (ok, ch) \<Longrightarrow> core_inv n muxCon (s\<lparr>mx_localChannel := ch\<rparr>)" for l ok ch
    using assms(2) by (auto simp: core_inv_def intro: chan)
  from assms(1) show ?thesis
    by (cases rule: handleSession_step_cases)
      (use assms(2,3) in \<open>auto simp: handler_ok_def own_slot_def intro: recv snd core_inv_request\<close>)
qed

lemma core_inv_session:
  assumes "session_step muxCon i ev s = (es, t)" and "i < length (mx_handlers s)" and "core_inv n muxCon s"
  shows "core_inv n muxCon t \<and> mx_ready t = mx_ready s \<and> mux_core.more t = mux_core.more s"
proof -
  obtain h' s' where st: "handleSession_step muxCon ev (mx_handlers s ! i) s = (es, h', s')"
    "t = s'\<lparr>mx_handlers := (mx_handlers s')[i := h']\<rparr>"
    using assms(1) by (auto simp: session_step_def split: prod.splits)
  have "handler_ok muxCon (mx_handlers s ! i)"
    using assms(2,3) by (simp add: core_inv_def list_all_length)
  with handleSession_step_ok [OF st(1) assms(3)] handleSession_step_frame [OF st(1)] assms(2) st(2) show ?thesis
    by (auto simp: core_inv_def list_all_length nth_list_update)
qed

section \<open>Counting streams\<close>

text \<open>The local connections on their way: queued, in the hand of a handler, or relayed.\<close>

definition load :: "'c session_handler \<Rightarrow> nat" where
  "load h = sh_streams h + (case sh_phase h of PutBack _ _ \<Rightarrow> 1 | _ \<Rightarrow> 0)"

definition in_flight :: "('c, 'z) mux_core_scheme \<Rightarrow> nat" where
  "in_flight s = length (ch_buf (mx_localChannel s)) + sum_list (map load (mx_handlers s))"

definition counted :: "('c, 'z) mux_core_scheme \<Rightarrow> bool" where
  "counted s \<longleftrightarrow> mx_streamCounter s = of_nat (in_flight s)"

lemma try_send_length: "try_send x c = (ok, d) \<Longrightarrow> length (ch_buf d) = (if ok then Suc (length (ch_buf c)) else length (ch_buf c))"
  by (auto simp: try_send_def split: if_splits)

lemma try_recv_length: "try_recv c = Some (x, d) \<Longrightarrow> length (ch_buf c) = Suc (length (ch_buf d))"
  by (auto simp: try_recv_def split: list.splits)

lemma handleSession_step_count:
  assumes "handleSession_step muxCon ev h s = (es, h', s')"
  shows "mx_streamCounter s' + of_nat (length (ch_buf (mx_localChannel s)) + load h)
    = mx_streamCounter s + of_nat (length (ch_buf (mx_localChannel s')) + load h')"
  using assms
  by (cases rule: handleSession_step_cases)
    (auto simp: load_def dest!: try_send_length try_recv_length)

lemma shift_eq:
  fixes c :: "'a::ab_group_add"
  assumes "c = (n + k) + (n' + h') - (n + h)" and "k' + h = k + h'"
  shows "c = n' + k'"
proof -
  have "c + (n + h) = (k + h') + (n + n')" using assms(1) by (simp add: add.commute add.left_commute)
  also have "\<dots> = (n' + k') + (n + h)" using assms(2) [symmetric] by (simp add: add.commute add.left_commute)
  finally show ?thesis by simp
qed

lemma session_step_count:
  assumes "session_step muxCon i ev s = (es, t)" and "i < length (mx_handlers s)" and "counted s"
  shows "counted t"
proof -
  obtain h' s' where st: "handleSession_step muxCon ev (mx_handlers s ! i) s = (es, h', s')"
    "t = s'\<lparr>mx_handlers := (mx_handlers s')[i := h']\<rparr>"
    using assms(1) by (auto simp: session_step_def split: prod.splits)
  have same: "mx_handlers s' = mx_handlers s"
    using st(1) by (cases rule: handleSession_step_cases) simp_all
  have k: "(of_nat (sum_list (map load ((mx_handlers s)[i := h']))) + of_nat (load (mx_handlers s ! i)) :: 32 word)
      = of_nat (sum_list (map load (mx_handlers s))) + of_nat (load h')"
    using sum_list_map_update [OF assms(2), of load h'] by (metis of_nat_add)
  have "mx_streamCounter s' = of_nat (in_flight s)
      + of_nat (length (ch_buf (mx_localChannel s')) + load h')
      - of_nat (length (ch_buf (mx_localChannel s)) + load (mx_handlers s ! i))"
    using handleSession_step_count [OF st(1)] assms(3) by (simp only: eq_diff_eq counted_def)
  then have "mx_streamCounter s' = of_nat (length (ch_buf (mx_localChannel s')))
      + of_nat (sum_list (map load ((mx_handlers s)[i := h'])))"
    unfolding in_flight_def of_nat_add by (rule shift_eq [OF _ k])
  with st(2) same show ?thesis by (simp add: in_flight_def counted_def)
qed

lemma counted_cong:
  "counted s \<Longrightarrow> mx_streamCounter t = mx_streamCounter s \<Longrightarrow> mx_localChannel t = mx_localChannel s
    \<Longrightarrow> mx_handlers t = mx_handlers s \<Longrightarrow> counted t"
  by (simp add: counted_def in_flight_def)

lemma enqueue_counted: "mux_enqueueInbound muxCon now k tg p s = (ok, t) \<Longrightarrow> counted s \<Longrightarrow> counted t"
  by (auto simp: mux_enqueueInbound_def counted_def in_flight_def Let_def
      split: prod.splits bool.splits if_splits dest!: try_send_length)

section \<open>What becomes of local connections\<close>

definition conn_id :: "LocalTCPConn \<Rightarrow> nat" where
  "conn_id l = sk_id (lc_conn l)"

definition in_hand :: "'c session_handler \<Rightarrow> nat multiset" where
  "in_hand h = (case sh_phase h of PutBack l _ \<Rightarrow> {#conn_id l#} | _ \<Rightarrow> {#})"

fun settled :: "mux_effect list \<Rightarrow> nat multiset" where
  "settled [] = {#}"
| "settled (RelayStream l _ # es) = {#conn_id l#} + settled es"
| "settled (CloseLocalConn i # es) = {#i#} + settled es"
| "settled (_ # es) = settled es"

definition queued :: "('c, 'z) mux_core_scheme \<Rightarrow> nat multiset" where
  "queued s = mset (map conn_id (ch_buf (mx_localChannel s)))"

definition unsettled :: "('c, 'z) mux_core_scheme \<Rightarrow> nat multiset" where
  "unsettled s = queued s + sum_list (map in_hand (mx_handlers s))"

lemma settled_append [simp]: "settled (es @ fs) = settled es + settled fs"
  by (induction es rule: settled.induct) auto

lemma handleSession_step_settles:
  assumes "handleSession_step muxCon ev h s = (es, h', s')"
  shows "queued s + in_hand h = queued s' + in_hand h' + settled es"
proof -
  have recv: "mset (map conn_id (ch_buf c)) = mset (map conn_id (ch_buf d)) + {#conn_id l#}"
    if "try_recv c = Some (l, d)" for c d and l :: LocalTCPConn
    using go_chan.recv_some [OF that] by simp
  have snd: "mset (map conn_id (ch_buf d)) = mset (map conn_id (ch_buf c)) + {#conn_id l#}"
    if "try_send l c = (True, d)" for c d and l :: LocalTCPConn
    using go_chan.send_ok [OF that] by simp
  from assms show ?thesis
    by (cases rule: handleSession_step_cases)
      (auto simp: queued_def in_hand_def conn_id_def split: phase.split dest!: recv snd)
qed

abbreviation session_run :: "int \<Rightarrow> (nat \<times> session_event) list \<Rightarrow> ('c, 'z) mux_core_scheme
    \<Rightarrow> mux_effect list \<times> ('c, 'z) mux_core_scheme" where
  "session_run muxCon \<equiv>
     pool_run (handleSession_step muxCon) mx_handlers (\<lambda>hs s. s\<lparr>mx_handlers := hs\<rparr>)"

lemma session_step_turn: "session_step muxCon = pool_turn (handleSession_step muxCon) mx_handlers (\<lambda>hs s. s\<lparr>mx_handlers := hs\<rparr>)"
  by (intro ext) (simp add: session_step_def pool_turn_def)

interpretation mux_pool: session_pool "handleSession_step muxCon" mx_handlers "\<lambda>hs s. s\<lparr>mx_handlers := hs\<rparr>"
    queued in_hand settled for muxCon
  using handleSession_step_settles handleSession_step_frame
  by unfold_locales (blast | simp add: queued_def)+

section \<open>Slots lost to failed streams\<close>

fun handler_events :: "int \<Rightarrow> session_event list \<Rightarrow> 'c session_handler \<Rightarrow> ('c, 'z) mux_core_scheme
    \<Rightarrow> mux_effect list \<times> 'c session_handler \<times> ('c, 'z) mux_core_scheme" where
  "handler_events muxCon [] h s = ([], h, s)"
| "handler_events muxCon (ev # evs) h s =
     (case handleSession_step muxCon ev h s of (es, h, s) \<Rightarrow>
       case handler_events muxCon evs h s of (fs, h, s) \<Rightarrow> (es @ fs, h, s))"

lemma handler_events_append:
  "handler_events muxCon evs h s = (es, h', s') \<Longrightarrow>
     handler_events muxCon (evs @ fvs) h s = (case handler_events muxCon fvs h' s' of (fs, h, s) \<Rightarrow> (es @ fs, h, s))"
  by (induction evs arbitrary: h s es) (auto split: prod.splits)

definition fresh_queue :: "int \<Rightarrow> ('c, 'z) mux_core_scheme \<Rightarrow> bool" where
  "fresh_queue now s \<longleftrightarrow> ch_buf (mx_localChannel s) \<noteq> []
     \<and> length (ch_buf (mx_localChannel s)) \<le> ch_cap (mx_localChannel s)
     \<and> (\<forall>l \<in> set (ch_buf (mx_localChannel s)). now - lc_timeCreated l \<le> 3000)"

lemma SendBinaryString_unusable: "\<not> usable w \<Longrightarrow> \<exists>e w'. SendBinaryString w m = (Some e, w')"
  by (auto simp: SendBinaryString_def send_buf_def Write_def usable_def)

lemma failed_round:
  assumes "sh_phase h = AtAcquire" and "int (sh_slots h) < muxCon"
    and "fresh_queue now s" and "\<not> usable w"
  obtains s' where "handler_events muxCon [Acquire, Take now (Some w), Put] h s = ([], h\<lparr>sh_slots := sh_slots h + 1\<rparr>, s')"
    and "fresh_queue now s'"
proof -
  from assms(3) obtain l ls where b: "ch_buf (mx_localChannel s) = l # ls" by (auto simp: fresh_queue_def neq_Nil_conv)
  obtain e w' where w: "SendBinaryString w (lc_remoteAddr l) = (Some e, w')"
    using SendBinaryString_unusable [OF assms(4)] by blast
  let ?s = "s\<lparr>mx_localChannel := (mx_localChannel s)\<lparr>ch_buf := ls @ [l]\<rparr>\<rparr>"
  have "handler_events muxCon [Acquire, Take now (Some w), Put] h s
      = ([], h\<lparr>sh_slots := sh_slots h + 1, sh_phase := AtAcquire\<rparr>, ?s)"
    using assms(1-3) b w
    by (auto simp: handleSession_step_def handleSession_take_def try_recv_def try_send_def Let_def fresh_queue_def)
  moreover have "h\<lparr>sh_slots := sh_slots h + 1, sh_phase := AtAcquire\<rparr> = h\<lparr>sh_slots := sh_slots h + 1\<rparr>"
    using assms(1) by simp
  moreover have "fresh_queue now ?s" using assms(3) b by (auto simp: fresh_queue_def)
  ultimately show thesis using that [of ?s] by simp
qed

lemma failed_rounds:
  "sh_phase h = AtAcquire \<Longrightarrow> int (sh_slots h + k) \<le> muxCon \<Longrightarrow> fresh_queue now s
    \<Longrightarrow> \<not> usable w \<Longrightarrow>
     \<exists>s'. handler_events muxCon (concat (replicate k [Acquire, Take now (Some w), Put])) h s
        = ([], h\<lparr>sh_slots := sh_slots h + k\<rparr>, s') \<and> fresh_queue now s'"
proof (induction k arbitrary: h s)
  case (Suc k)
  from Suc.prems have "int (sh_slots h) < muxCon" by simp
  from failed_round [OF Suc.prems(1) this Suc.prems(3,4)] obtain s1 where
    s1: "handler_events muxCon [Acquire, Take now (Some w), Put] h s = ([], h\<lparr>sh_slots := sh_slots h + 1\<rparr>, s1)"
    "fresh_queue now s1" .
  from Suc.IH [of "h\<lparr>sh_slots := sh_slots h + 1\<rparr>" s1] Suc.prems s1(2) show ?case
    unfolding replicate_Suc concat.simps handler_events_append [OF s1(1)] by auto
qed simp

lemma no_slot_stuck:
  assumes "sh_phase h = AtAcquire" and "muxCon \<le> int (sh_slots h)" and "sh_streams h = 0"
  shows "handleSession_step muxCon ev h s = ([], h, s)"
  using assms by (cases ev) (simp_all add: handleSession_step_def)

section \<open>Properties\<close>

definition demo_local :: LocalTCPConn where
  "demo_local = \<lparr>lc_conn = demo_socket, lc_remoteAddr = ''443'', lc_timeCreated = 0, lc_reportPort = 443\<rparr>"

definition demo_handler :: "unit session_handler" where
  "demo_handler = \<lparr>sh_session = \<lparr>ms_id = 9, ms_conn = ()\<rparr>,
     sh_slots = 0, sh_streams = 0, sh_phase = AtAcquire\<rparr>"

text \<open>A runtime with one waiting connection and one session.\<close>

definition demo_core :: "unit mux_core" where
  "demo_core = \<lparr>mx_tunnelChannel = make_chan 2, mx_localChannel = \<lparr>ch_buf = [demo_local], ch_cap = 2\<rparr>,
     mx_reqNewConnChan = make_chan 2, mx_streamCounter = 1, mx_sessionCounter = 1, mx_ready = True,
     mx_handlers = [demo_handler]\<rparr>"

text \<open>C25: no local connection is lost between the sessions: whatever the goroutines of the sessions
  do, in any interleaving, every connection that was queued or in a goroutine's hand is
  afterwards still there, or is relayed over a stream, or was closed as too old, exactly once.\<close>

theorem sessions_conserve:
  assumes "session_run muxCon evs s = (es, t)"
  shows "unsettled s = unsettled t + settled es"
  unfolding unsettled_def using assms by (rule mux_pool.run_settles)

theorem sessions_conserve_witness:
  "settled (fst (session_run 1 [(0, Acquire), (0, Take 4000 None)] demo_core)) = {#7#}"
proof -
  obtain es t where r: "session_run 1 [(0, Acquire), (0, Take 4000 None)] demo_core = (es, t)" by fastforce
  from sessions_conserve [OF r] have "unsettled demo_core = unsettled t + settled es" by (simp add: demo_core_def)
  moreover have "unsettled demo_core = {#7#}"
    by (simp add: unsettled_def queued_def in_hand_def conn_id_def demo_core_def demo_local_def demo_socket_def demo_handler_def)
  moreover have "unsettled t = {#}" using r
    by (auto simp: demo_core_def demo_handler_def session_step_def handleSession_step_def handleSession_take_def
        try_recv_def demo_local_def Let_def unsettled_def queued_def in_hand_def pool_turn_def)
  ultimately show ?thesis using r by simp
qed

text \<open>A slot is lost with every stream whose first write fails: after as many such failures as
  the session has free slots, all with connections that were put back, the session runs no
  stream and holds all its slots, and nothing can ever make it take a connection again.\<close>

theorem handleSession_leaks_slots:
  assumes "sh_phase h = AtAcquire" and "sh_streams h = 0"
    and "muxCon = int (sh_slots h + k)" and "fresh_queue now s" and "\<not> usable w"
  shows "\<exists>h' s'. handler_events muxCon (concat (replicate k [Acquire, Take now (Some w), Put])) h s = ([], h', s')
    \<and> sh_streams h' = 0 \<and> (\<forall>ev. handleSession_step muxCon ev h' s' = ([], h', s'))"
proof -
  from failed_rounds [OF assms(1) _ assms(4,5), of k] assms(3) obtain s' where
    s': "handler_events muxCon (concat (replicate k [Acquire, Take now (Some w), Put])) h s
      = ([], h\<lparr>sh_slots := sh_slots h + k\<rparr>, s')" by auto
  have "handleSession_step muxCon ev (h\<lparr>sh_slots := sh_slots h + k\<rparr>) s' = ([], h\<lparr>sh_slots := sh_slots h + k\<rparr>, s')" for ev
    by (rule no_slot_stuck) (use assms(1-3) in simp_all)
  with s'(1) assms(2) show ?thesis by auto
qed

theorem handleSession_leaks_slots_witness:
  "\<exists>h' s'. handler_events 1 [Acquire, Take 5 (Some ((fresh_wire [])\<lparr>w_fail := Some (ErrReset, 0)\<rparr>)), Put]
      demo_handler demo_core = ([], h', s') \<and> (\<forall>ev. handleSession_step 1 ev h' s' = ([], h', s'))"
  using handleSession_leaks_slots [of demo_handler 1 1 5 demo_core "(fresh_wire [])\<lparr>w_fail := Some (ErrReset, 0)\<rparr>"]
  by (simp add: demo_handler_def demo_core_def demo_local_def fresh_queue_def
      usable_def fresh_wire_def del: handler_events.simps) blast

end
