(* ===== verification/Tcpmux_Spec.thy ===== *)
theory Tcpmux_Spec
  imports Tcpmux_Server Mux_Sessions_Spec
begin

text \<open>
  What the multiplexed TCP server promises: the reachable states, the stream counter, how the
  control channels share the requests for connections, and that a probed connection loses nothing.
\<close>

section \<open>Reachable states\<close>

definition mux_inv :: "TcpMuxTransport \<Rightarrow> bool" where
  "mux_inv s \<longleftrightarrow> (mx_ready s \<longleftrightarrow> mx_controlChannel s \<noteq> None)
     \<and> (mx_controlChannel s \<noteq> None \<longrightarrow> mx_handshakeChannel s = Idle)
     \<and> core_inv (nat (tm_ChannelSize (mx_config s))) (tm_MuxCon (mx_config s)) s"

lemmas mux_inv_simps = mux_inv_def core_inv_def Let_def

lemma mux_inv_extra [simp]:
  "mux_inv (s\<lparr>mx_extraCtrlConns := cs\<rparr>) = mux_inv s" "mux_inv (s\<lparr>mx_rrControlIdx := i\<rparr>) = mux_inv s"
  "mux_inv (s\<lparr>mx_streamCounter := n\<rparr>) = mux_inv s" "mux_inv (s\<lparr>mx_sessionCounter := n\<rparr>) = mux_inv s"
  by (simp_all add: mux_inv_simps)

lemma mux_inv_put_channels: "mux_inv s \<Longrightarrow> mux_inv (put_channels cs s)"
  by (auto simp: put_channels_def mux_inv_simps split: option.split)

lemma mux_inv_deliver: "deliverTunnelConn client q s = (es, t) \<Longrightarrow> mux_inv s \<Longrightarrow> mux_inv t"
  by (auto simp: deliverTunnelConn_def mux_inv_simps
      split: option.splits handshaking.splits prod.splits bool.splits intro: chan)

lemma tryPromote_state:
  "tryPromoteExtraControlChannel ok c s = (p, t) \<Longrightarrow> t = s \<or> (\<exists>cs. t = s\<lparr>mx_extraCtrlConns := cs\<rparr>)"
  by (auto simp: tryPromoteExtraControlChannel_def Let_def split: if_splits prod.splits option.splits)

lemma mux_inv_accept: "mux_acceptTunnelConn ok client c s = (es, t) \<Longrightarrow> mux_inv s \<Longrightarrow> mux_inv t"
  by (auto simp: mux_acceptTunnelConn_def split: option.splits if_splits prod.splits probe.splits
      dest!: tryPromote_state dest: mux_inv_deliver)

lemma mux_inv_channelHandler:
  assumes "mux_channelHandler_step ev s = (n, es, t)" and "mux_inv s"
  shows "mux_inv t"
proof -
  have rr: "mux_inv u'" if "sendNewConnSignalRoundRobin u = (ok, es', u')" "mux_inv u" for u ok es' u'
    using that mux_inv_put_channels [of u]
    by (auto simp: sendNewConnSignalRoundRobin_def Let_def split: if_splits prod.splits option.splits)
  have hb: "mux_inv u'" if "broadcastHeartbeat u = (ok, es', u')" "mux_inv u" for u ok es' u'
    using that by (auto simp: broadcastHeartbeat_def mux_inv_simps split: if_splits prod.splits option.splits)
  have rq: "mux_inv (s\<lparr>mx_reqNewConnChan := ch\<rparr>)" if "try_recv (mx_reqNewConnChan s) = Some (x, ch)" for x ch
    using that assms(2) by (auto simp: mux_inv_simps intro: chan)
  show ?thesis
    using assms rr hb rq
    by (auto simp: mux_channelHandler_step_def mux_inv_def [of "s\<lparr>mx_controlChannel := _\<rparr>"]
        split: control_event.splits option.splits prod.splits if_splits)
      (auto simp: mux_inv_simps)
qed

text \<open>The steps of the core leave the rest of the state alone.\<close>

lemma mux_inv_core:
  assumes "mux_inv s" and "core_inv (nat (tm_ChannelSize (mx_config s))) (tm_MuxCon (mx_config s)) t"
    and "mx_ready t = mx_ready s" and "mux_core.more t = mux_core.more s"
  shows "mux_inv t"
proof -
  have "t = s\<lparr>mx_tunnelChannel := mx_tunnelChannel t, mx_localChannel := mx_localChannel t,
      mx_reqNewConnChan := mx_reqNewConnChan t, mx_streamCounter := mx_streamCounter t,
      mx_sessionCounter := mx_sessionCounter t, mx_handlers := mx_handlers t\<rparr>"
    using assms(3,4) by (cases s; cases t) simp
  then obtain a b c d e f where "t = s\<lparr>mx_tunnelChannel := a, mx_localChannel := b,
      mx_reqNewConnChan := c, mx_streamCounter := d, mx_sessionCounter := e, mx_handlers := f\<rparr>" by blast
  with assms(1,2) show ?thesis by (simp add: mux_inv_def)
qed

lemma mux_inv_enqueue: "mux_enqueueInbound muxCon now c tg p s = (ok, t) \<Longrightarrow> mux_inv s \<Longrightarrow> mux_inv t"
  using mux_inv_core core_inv_enqueue mux_enqueue_frame unfolding mux_inv_def by metis

lemma mux_step_inv: "mux_step s (es, t) \<Longrightarrow> mux_inv s \<Longrightarrow> mux_inv t"
proof (erule mux_stepE)
  assume s: "mux_inv s"
  show "(es, t) = mux_acceptTunnelConn ok client c s \<Longrightarrow> mux_inv t" for ok client c
    using mux_inv_accept s by metis
  show "(es, t) = deliverTunnelConn client q s \<Longrightarrow> mux_inv t" for client q
    using mux_inv_deliver s by metis
  show "mux_inv t" if "t = snd (mux_Start_begin s)" "mx_controlChannel s = None"
    using s that by (auto simp: mux_Start_begin_def mux_inv_simps)
  show "(es, t) = mux_channelHandshake ok s \<Longrightarrow> mux_inv t" for ok
    using s by (auto simp: mux_channelHandshake_def mux_inv_simps
        split: handshaking.splits option.splits if_splits)
  show "t = snd (mux_Start_connected n s) \<Longrightarrow> mux_inv t" for n
    using s by (auto simp: mux_Start_connected_def mux_inv_simps)
  show "(es, t) = snd (mux_channelHandler_step ev s) \<Longrightarrow> mux_inv t" for ev
    using mux_inv_channelHandler s by (metis prod.collapse)
  show "(es, t) = mux_acceptLocalConn (tm_MuxCon (mx_config s)) now sk addr s \<Longrightarrow> mux_inv t" for now sk addr
    using s mux_inv_enqueue by (auto simp: mux_acceptLocalConn_def split: if_splits prod.splits bool.splits)
  show "t = snd (mux_EnqueueInbound (tm_MuxCon (mx_config s)) now sk addr port s) \<Longrightarrow> mux_inv t" for now sk addr port
    using s mux_inv_enqueue [OF surjective_pairing] by (auto simp: mux_EnqueueInbound_def)
  show "t = mux_handleLoop_turn s \<Longrightarrow> mux_inv t"
    using s by (auto simp: mux_handleLoop_turn_def mux_inv_simps handler_ok_def own_slot_def
        split: option.splits intro: chan)
  show "mux_inv t" if "(es, t) = session_step (tm_MuxCon (mx_config s)) i ev s" "i < length (mx_handlers s)" for i ev
    using core_inv_session [OF that(1) [symmetric] that(2)] mux_inv_core [OF s] s unfolding mux_inv_def by blast
  show "(es, t) = mux_Restart s \<Longrightarrow> mux_inv t"
    using s by (simp add: mux_Restart_def mux_inv_simps chan)
qed

lemma mux_reachable_inv: "mux_reachable config s \<Longrightarrow> mux_inv s"
proof (induction rule: mux_reachable.induct)
  case start
  show ?case by (simp add: NewTcpMuxServer_def mux_inv_simps chan)
next
  case (step s es t)
  from mux_step_inv [OF step(2,3)] show ?case .
qed

section \<open>Counting streams\<close>

text \<open>The states a server goes through while it keeps its control channel.\<close>

inductive mux_serving :: "TcpMuxConfig \<Rightarrow> TcpMuxTransport \<Rightarrow> bool" for config where
  start: "mux_serving config (NewTcpMuxServer config)"
| step: "mux_serving config s \<Longrightarrow> mux_step s (es, t)
    \<Longrightarrow> mx_controlChannel s = None \<or> mx_controlChannel t \<noteq> None \<Longrightarrow> mux_serving config t"

lemma counted_extra [simp]: "counted (s\<lparr>mx_extraCtrlConns := cs\<rparr>) = counted s"
  by (simp add: counted_def in_flight_def)

lemma deliver_counted: "deliverTunnelConn client q s = (es, t) \<Longrightarrow> counted s \<Longrightarrow> counted t"
  by (erule counted_cong)
    (auto simp: deliverTunnelConn_def split: option.splits handshaking.splits prod.splits bool.splits)

lemma accept_counted: "mux_acceptTunnelConn ok client c s = (es, t) \<Longrightarrow> counted s \<Longrightarrow> counted t"
  by (auto simp: mux_acceptTunnelConn_def split: option.splits if_splits prod.splits probe.splits
      dest!: tryPromote_state dest: deliver_counted)

lemma channelHandler_counted:
  assumes "mux_channelHandler_step ev s = (n, es, t)" and "counted s"
  shows "counted t"
proof -
  have "counted v" if "sendNewConnSignalRoundRobin u = (ok, es', v)" "counted u" for u ok es' v
    using that(2) by (rule counted_cong) (use that(1) in \<open>auto simp: sendNewConnSignalRoundRobin_def
        put_channels_def Let_def split: if_splits prod.splits option.splits\<close>)
  moreover have "counted v" if "broadcastHeartbeat s = (ok, es', v)" for ok es' v
    using assms(2) by (rule counted_cong) (use that in \<open>auto simp: broadcastHeartbeat_def
        split: if_splits prod.splits option.splits\<close>)
  moreover have "counted (s\<lparr>mx_reqNewConnChan := ch\<rparr>)" "counted (s\<lparr>mx_controlChannel := k\<rparr>)" for ch k
    using assms(2) by (auto intro: counted_cong)
  ultimately show ?thesis using assms
    by (auto simp: mux_channelHandler_step_def split: control_event.splits option.splits prod.splits if_splits)
qed

lemma mux_step_counted:
  assumes "mux_step s (es, t)" and "counted s" and "mx_controlChannel s = None \<or> mx_controlChannel t \<noteq> None"
  shows "counted t"
  using assms(1)
proof (rule mux_stepE)
  note c = assms(2)
  show "(es, t) = deliverTunnelConn client q s \<Longrightarrow> ?thesis" for client q
    using deliver_counted c by metis
  show "(es, t) = mux_acceptTunnelConn ok client k s \<Longrightarrow> ?thesis" for ok client k
    using accept_counted c by metis
  show "t = snd (mux_Start_begin s) \<Longrightarrow> ?thesis" "t = snd (mux_Start_connected n s) \<Longrightarrow> ?thesis" for n
    using c by (auto simp: mux_Start_begin_def mux_Start_connected_def intro: counted_cong)
  show "(es, t) = mux_channelHandshake ok s \<Longrightarrow> ?thesis" for ok
    using c by (auto simp: mux_channelHandshake_def intro: counted_cong
        split: handshaking.splits option.splits if_splits)
  show "(es, t) = snd (mux_channelHandler_step ev s) \<Longrightarrow> ?thesis" for ev
    using channelHandler_counted c by (metis prod.collapse)
  show "(es, t) = mux_acceptLocalConn (tm_MuxCon (mx_config s)) now sk addr s \<Longrightarrow> ?thesis" for now sk addr
    using c enqueue_counted by (auto simp: mux_acceptLocalConn_def split: if_splits prod.splits bool.splits)
  show "t = snd (mux_EnqueueInbound (tm_MuxCon (mx_config s)) now sk addr port s) \<Longrightarrow> ?thesis" for now sk addr port
    using c enqueue_counted [OF surjective_pairing] by (auto simp: mux_EnqueueInbound_def)
  show "t = mux_handleLoop_turn s \<Longrightarrow> ?thesis"
    using c by (auto simp: mux_handleLoop_turn_def counted_def in_flight_def load_def split: option.splits)
  show "(es, t) = session_step (tm_MuxCon (mx_config s)) i ev s \<Longrightarrow> i < length (mx_handlers s) \<Longrightarrow> ?thesis" for i ev
    using session_step_count c by metis
  show "(es, t) = mux_Restart s \<Longrightarrow> mx_controlChannel s = Some k \<Longrightarrow> ?thesis" for k
    using assms(3) by (simp add: mux_Restart_def)
qed

lemma mux_serving_counted: "mux_serving config s \<Longrightarrow> counted s"
proof (induction rule: mux_serving.induct)
  case start
  show ?case by (simp add: NewTcpMuxServer_def counted_def in_flight_def make_chan_def)
next
  case (step s es t)
  from mux_step_counted [OF step(2,4,3)] show ?case .
qed

section \<open>Probing\<close>

text \<open>Reading a \<^verbatim>\<open>PrefixedConn\<close> is reading the script in which the replayed bytes come first.\<close>

lemma replay_Read:
  assumes "net_inv n" and "net_Read k n = (r, n')"
  shows "Read k (replay n) = (r, replay n')"
proof (cases n)
  case (RawConn c)
  with assms show ?thesis by (auto split: prod.splits)
next
  case (Prefixed p)
  show ?thesis
  proof (cases "pc_prefix p = []")
    case True
    with assms Prefixed show ?thesis by (auto simp: PrefixedConn_Read_def split: prod.splits)
  next
    case False
    with assms(1) Prefixed have "pc_off p < length (pc_prefix p)" by simp
    with False assms(2) Prefixed show ?thesis
      by (auto simp: PrefixedConn_Read_def Read_def Let_def drop_drop add.commute)
  qed
qed

lemma pending_replay [simp]: "pending (replay (NewPrefixedConn c p)) = p @ pending c"
  by (simp add: NewPrefixedConn_def)

lemma not_control_lossless:
  "not_control conn rest p = NotControl c \<Longrightarrow> pending (w_in (tn_wire conn)) = p @ pending rest \<Longrightarrow>
     pending (w_in (tn_wire (mq_conn c))) = pending (w_in (tn_wire conn))
     \<and> w_out (tn_wire (mq_conn c)) = w_out (tn_wire conn) \<and> tn_id (mq_conn c) = tn_id conn
     \<and> tn_ip (mq_conn c) = tn_ip conn"
  by (auto simp: not_control_def)

lemma header_frame:
  assumes "length header = 3" and "length body = unat (GetUint16 header)" and "header ! 2 = t"
  shows "frame (body, t) = header @ body"
proof -
  obtain x y where h: "header = [x, y, t]"
    using assms(1,3) by (auto simp: numeral_3_eq_3 numeral_2_eq_2 length_Suc_conv)
  have "GetUint16 header = GetUint16 [x, y]" by (simp add: GetUint16_def be16_def h)
  with assms(2) have "uint16 (length body) = GetUint16 [x, y]" by (simp add: uint16_def)
  then show ?thesis using be16_PutUint16 [of "[x, y]"] h by (simp add: frame_def)
qed

lemma tryPromote_outcome:
  assumes "tryPromoteExtraControlChannel ok conn s = (p, t)"
  shows "case p of
      NotControl c \<Rightarrow> t = s \<and> pending (w_in (tn_wire (mq_conn c))) = pending (w_in (tn_wire conn))
        \<and> w_out (tn_wire (mq_conn c)) = w_out (tn_wire conn) \<and> tn_id (mq_conn c) = tn_id conn
        \<and> tn_ip (mq_conn c) = tn_ip conn
    | Handled es \<Rightarrow> (es = [CloseConn (tn_id conn)] \<and> t = s)
        \<or> (es = [] \<and> (\<exists>c. t = s\<lparr>mx_extraCtrlConns := mx_extraCtrlConns s @ [c]\<rparr> \<and> tn_ip c = tn_ip conn
            \<and> pending (w_in (tn_wire conn)) = frame (tm_Token (mx_config s), SG_Chan) @ pending (w_in (tn_wire c))
            \<and> (w_fail (tn_wire conn) = None \<longrightarrow>
                 w_out (tn_wire c) = w_out (tn_wire conn) @ frame (tm_Token (mx_config s), SG_Chan))))"
proof (cases ok)
  case False
  with assms show ?thesis by (auto simp: tryPromoteExtraControlChannel_def)
next
  case True
  note S = assms [unfolded tryPromoteExtraControlChannel_def]
  obtain header e rest where h: "io_ReadFull 3 (w_in (tn_wire conn)) = ((header, e), rest)" by (metis prod.exhaust)
  from io_ReadFull_bytes [OF h] have hb: "pending (w_in (tn_wire conn)) = header @ pending rest"
    "e = None \<longleftrightarrow> length header = 3" by auto
  show ?thesis
  proof (cases "e = None \<and> \<not> (header ! 2 \<noteq> SG_Chan \<or> unat (GetUint16 header) < 1
        \<or> unat (GetUint16 header) > maxTokenLen)")
    case False
    with S True h have "p = not_control conn rest header" "t = s" by (auto simp: Let_def split: option.splits if_splits)
    with not_control_lossless [OF _ hb(1)] show ?thesis by (cases p) (auto simp: not_control_def)
  next
    case g: True
    obtain body e2 rest2 where b: "io_ReadFull (unat (GetUint16 header)) rest = ((body, e2), rest2)"
      by (metis prod.exhaust)
    from io_ReadFull_bytes [OF b] have bb: "pending (w_in (tn_wire conn)) = (header @ body) @ pending rest2"
      "e2 = None \<longleftrightarrow> length body = unat (GetUint16 header)" using hb by auto
    show ?thesis
    proof (cases e2)
      case (Some x)
      with S True h g b have "p = not_control conn rest2 (header @ body)" "t = s" by (auto simp: Let_def)
      with not_control_lossless [OF _ bb(1)] show ?thesis by (cases p) (auto simp: not_control_def)
    next
      case None
      with bb(2) hb(2) g have f: "frame (body, SG_Chan) = header @ body" by (intro header_frame) auto
      obtain e3 w where w: "SendBinaryTransportString ((tn_wire conn)\<lparr>w_in := rest2\<rparr>)
          (tm_Token (mx_config s)) SG_Chan = (e3, w)" by (metis prod.exhaust)
      from S True h g b None w bb(1) f
        SendTransport_None [of "(tn_wire conn)\<lparr>w_in := rest2\<rparr>" "tm_Token (mx_config s)" SG_Chan w]
      show ?thesis
        by (auto simp: Let_def split: if_splits option.splits intro!: exI [of _ "conn\<lparr>tn_wire := w\<rparr>"])
    qed
  qed
qed

section \<open>Requests over several control channels\<close>

lemma send_signal_usable:
  "usable (tn_wire c) \<Longrightarrow> send_signal x c = (True, c\<lparr>tn_wire := (tn_wire c)\<lparr>w_out := w_out (tn_wire c) @ [x]\<rparr>\<rparr>)"
  by (simp add: send_signal_def SendBinaryByte_def send_usable)

lemma send_signal_unusable: "\<not> usable (tn_wire c) \<Longrightarrow> \<exists>c'. send_signal x c = (False, c')"
  by (auto simp: send_signal_def SendBinaryByte_def send_buf_def Write_def usable_def)

lemma close_conn_unusable [simp]: "\<not> usable (tn_wire (close_conn c))"
  by (simp add: close_conn_def usable_def)

lemma channels_put [simp]: "length cs = length (channels s) \<Longrightarrow> channels (put_channels cs s) = cs"
  by (cases cs) (auto simp: put_channels_def channels_def split: option.splits)

lemma channels_rr [simp]: "channels (s\<lparr>mx_rrControlIdx := i\<rparr>) = channels s"
  by (simp add: channels_def)

lemma put_channels_rr [simp]: "mx_rrControlIdx (put_channels cs s) = mx_rrControlIdx s"
  by (simp add: put_channels_def split: option.split)

lemma rr_loop_None:
  "fst (rr_loop is start cs) = None \<longleftrightarrow>
     (\<forall>i \<in> set is. \<not> usable (tn_wire (cs ! ((start + i) mod length cs))))"
proof (induction "is" arbitrary: cs)
  case (Cons i "is")
  let ?j = "(start + i) mod length cs"
  show ?case
  proof (cases "usable (tn_wire (cs ! ?j))")
    case True
    with send_signal_usable [OF True, of SG_Chan] show ?thesis by (simp add: Let_def)
  next
    case False
    then obtain c where c: "send_signal SG_Chan (cs ! ?j) = (False, c)" using send_signal_unusable by blast
    have same: "usable (tn_wire (cs[?j := close_conn c] ! k)) = usable (tn_wire (cs ! k))" for k
      using False by (cases "?j < length cs") (auto simp: nth_list_update list_update_beyond)
    obtain r cl cs' where "rr_loop is start (cs[?j := close_conn c]) = (r, cl, cs')" by (metis prod.exhaust)
    with Cons.IH [of "cs[?j := close_conn c]"] c False show ?thesis by (simp add: Let_def same)
  qed
qed simp

lemma rr_loop_length: "rr_loop is start cs = (r, closed, cs') \<Longrightarrow> length cs' = length cs"
proof (induction "is" arbitrary: cs closed)
  case (Cons i "is")
  obtain ok c where c: "send_signal SG_Chan (cs ! ((start + i) mod length cs)) = (ok, c)" by (metis prod.exhaust)
  obtain r1 cl1 cs1 where t: "rr_loop is start (cs[(start + i) mod length cs := close_conn c]) = (r1, cl1, cs1)"
    by (metis prod.exhaust)
  from Cons.IH [of "cs[(start + i) mod length cs := close_conn c]"] Cons.prems c t show ?case
    by (cases ok) (auto simp: Let_def)
qed simp

lemma rotation_index:
  assumes "j < (n :: nat)"
  shows "\<exists>i < n. (r + i) mod n = j"
proof (intro exI conjI)
  show "(j + (n - r mod n)) mod n < n" using assms by simp
  have "(r + (j + (n - r mod n)) mod n) mod n = (r mod n + (j + (n - r mod n))) mod n"
    by (simp add: mod_simps)
  also have "r mod n + (j + (n - r mod n)) = j + n" using assms mod_less_divisor [of n r] by linarith
  finally show "(r + (j + (n - r mod n)) mod n) mod n = j" using assms by simp
qed

lemma rotation_unique:
  assumes "(r + i) mod n = (r + k) mod n" and "i < (n :: nat)" and "k < n"
  shows "i = k"
proof -
  have "(r mod n + i) mod n = (r mod n + k) mod n" using assms(1) by (simp add: mod_simps)
  moreover have "r mod n < n" using assms(2) by simp
  ultimately show ?thesis
    using assms(2,3) by (cases "r mod n + i < n"; cases "r mod n + k < n") (simp_all add: le_mod_geq not_less)
qed

lemma sendNewConn_ok:
  "fst (sendNewConnSignalRoundRobin s) \<longleftrightarrow> (\<exists>c \<in> set (channels s). usable (tn_wire c))"
proof (cases "channels s = []")
  case False
  let ?cs = "channels s" and ?n = "length (channels s)" and ?r = "mx_rrControlIdx s mod length (channels s)"
  obtain r closed cs' where rr: "rr_loop [0..<?n] ?r ?cs = (r, closed, cs')" by (metis prod.exhaust)
  have "r = None \<longleftrightarrow> (\<forall>i < ?n. \<not> usable (tn_wire (?cs ! ((?r + i) mod ?n))))"
    using rr_loop_None [of "[0..<?n]" ?r ?cs] rr by (simp add: Ball_def)
  also have "\<dots> \<longleftrightarrow> (\<forall>j < ?n. \<not> usable (tn_wire (?cs ! j)))"
    using rotation_index [of _ ?n ?r] False by (metis length_greater_0_conv mod_less_divisor)
  finally have "r = None \<longleftrightarrow> \<not> (\<exists>c \<in> set ?cs. usable (tn_wire c))" by (simp add: all_set_conv_all_nth)
  with rr False show ?thesis
    by (auto simp: sendNewConnSignalRoundRobin_def Let_def split: option.split)
qed (simp add: sendNewConnSignalRoundRobin_def)

text \<open>With every channel alive, a request goes to the channel at the index, which moves on.\<close>

fun requests :: "nat \<Rightarrow> TcpMuxTransport \<Rightarrow> TcpMuxTransport" where
  "requests 0 s = s"
| "requests (Suc k) s = requests k (snd (snd (sendNewConnSignalRoundRobin s)))"

lemma sendNewConn_usable:
  assumes "\<forall>c \<in> set (channels s). usable (tn_wire c)" and "channels s \<noteq> []"
  defines "n \<equiv> length (channels s)" and "j \<equiv> mx_rrControlIdx s mod length (channels s)"
  obtains c t where "sendNewConnSignalRoundRobin s = (True, [], t)"
    and "channels t = (channels s)[j := c]" "usable (tn_wire c)"
    and "w_out (tn_wire c) = w_out (tn_wire (channels s ! j)) @ [SG_Chan]"
    and "mx_rrControlIdx t = (j + 1) mod n"
proof -
  have n: "0 < n" "j < n" using assms(2) by (simp_all add: n_def j_def)
  let ?c = "(channels s ! j)\<lparr>tn_wire := (tn_wire (channels s ! j))\<lparr>w_out := w_out (tn_wire (channels s ! j)) @ [SG_Chan]\<rparr>\<rparr>"
  have u: "usable (tn_wire (channels s ! j))" using assms(1) n by (simp add: n_def)
  have "[0..<n] = 0 # [1..<n]" using n by (simp add: upt_rec)
  with send_signal_usable [OF u, of SG_Chan] n have "rr_loop [0..<n] j (channels s) = (Some j, [], (channels s)[j := ?c])"
    by (simp add: n_def Let_def)
  then have "sendNewConnSignalRoundRobin s
      = (True, [], (put_channels ((channels s)[j := ?c]) s)\<lparr>mx_rrControlIdx := (j + 1) mod n\<rparr>)"
    using assms(2) by (simp add: sendNewConnSignalRoundRobin_def Let_def n_def j_def)
  then show thesis by (rule that [where c = ?c]) (use u in \<open>simp_all add: usable_def\<close>)
qed

lemma requests_count:
  assumes "\<forall>c \<in> set (channels s). usable (tn_wire c)" and "j < length (channels s)"
  shows "(\<forall>c \<in> set (channels (requests k s)). usable (tn_wire c))
    \<and> length (channels (requests k s)) = length (channels s)
    \<and> w_out (tn_wire (channels (requests k s) ! j)) = w_out (tn_wire (channels s ! j))
        @ replicate (card {i. i < k \<and> (mx_rrControlIdx s + i) mod length (channels s) = j}) SG_Chan"
  using assms
proof (induction k arbitrary: s)
  case (Suc k)
  let ?n = "length (channels s)" and ?r = "mx_rrControlIdx s"
  from Suc.prems have "channels s \<noteq> []" by auto
  then obtain c t where t: "sendNewConnSignalRoundRobin s = (True, [], t)"
    "channels t = (channels s)[?r mod ?n := c]" "usable (tn_wire c)"
    "w_out (tn_wire c) = w_out (tn_wire (channels s ! (?r mod ?n))) @ [SG_Chan]"
    "mx_rrControlIdx t = (?r mod ?n + 1) mod ?n"
    using sendNewConn_usable [OF Suc.prems(1)] by metis
  have prems: "\<forall>c \<in> set (channels t). usable (tn_wire c)" "j < length (channels t)"
    using Suc.prems t(2,3) set_update_subset_insert [of "channels s" "?r mod ?n" c] by auto
  have shift: "{i. i < Suc k \<and> (?r + i) mod ?n = j}
      = (if ?r mod ?n = j then {0} else {}) \<union> Suc ` {i. i < k \<and> (mx_rrControlIdx t + i) mod ?n = j}"
    by (auto simp: t(5) mod_simps image_iff less_Suc_eq_0_disj)
  have "card {i. i < Suc k \<and> (?r + i) mod ?n = j}
      = (if ?r mod ?n = j then 1 else 0) + card {i. i < k \<and> (mx_rrControlIdx t + i) mod ?n = j}"
    unfolding shift by (subst card_Un_disjoint) (auto simp: card_image)
  moreover note Suc.IH [OF prems]
  ultimately show ?case using t(1,2,4) Suc.prems(2) by (auto simp: nth_list_update)
qed simp

section \<open>Properties\<close>

definition demo_mux_config :: TcpMuxConfig where
  "demo_mux_config = \<lparr>tm_BindAddr = '':3080'', tm_TunnelStatus = [], tm_SnifferLog = [], tm_Token = ''musix'',
     tm_Ports = [''80''], tm_Nodelay = True, tm_Sniffer = False, tm_ChannelSize = 2, tm_MuxCon = 1,
     tm_MuxVersion = 2, tm_MaxFrameSize = 32768, tm_MaxReceiveBuffer = 4194304, tm_MaxStreamBuffer = 65536,
     tm_WebPort = 0, tm_KeepAlive = 75 * Second, tm_Heartbeat = 40 * Second, tm_AllowMultiIP = True,
     tm_TCPCopyBuffer = 16384\<rparr>"

text \<open>A server with a control channel, one waiting connection and one session.\<close>

definition demo_mux_handler :: "mux_conn session_handler" where
  "demo_mux_handler = \<lparr>sh_session = \<lparr>ms_id = 9, ms_conn = \<lparr>mq_conn = demo_peer, mq_tcp = True\<rparr>\<rparr>,
     sh_slots = 0, sh_streams = 0, sh_phase = AtAcquire\<rparr>"

definition demo_mux :: TcpMuxTransport where
  "demo_mux = (NewTcpMuxServer demo_mux_config)
     \<lparr>mx_controlChannel := Some demo_peer, mx_extraCtrlConns := [demo_peer],
      mx_localChannel := \<lparr>ch_buf = [demo_local], ch_cap = 2\<rparr>, mx_handlers := [demo_mux_handler]\<rparr>"

text \<open>C24: in every reachable state of the multiplexed server it is ready exactly if it has a
  control channel, its queues are within their capacity, and no session uses more than
  \<^verbatim>\<open>mux_con\<close> slots or runs more streams than slots.\<close>

theorem mux_server_invariant:
  assumes "mux_reachable config s"
  shows "(mux_IsReady s \<longleftrightarrow> mx_controlChannel s \<noteq> None)
    \<and> length (ch_buf (mx_localChannel s)) \<le> nat (tm_ChannelSize (mx_config s))
    \<and> length (ch_buf (mx_tunnelChannel s)) \<le> nat (tm_ChannelSize (mx_config s))
    \<and> length (ch_buf (mx_reqNewConnChan s)) \<le> nat (tm_ChannelSize (mx_config s))
    \<and> list_all (\<lambda>h. sh_streams h \<le> sh_slots h \<and> (sh_slots h = 0 \<or> int (sh_slots h) \<le> tm_MuxCon (mx_config s)))
        (mx_handlers s)"
  using mux_reachable_inv [OF assms]
  by (auto simp: mux_inv_simps chan_ok_def mux_IsReady_def handler_ok_def list_all_iff)

theorem mux_server_invariant_witness:
  "mux_IsReady (snd (mux_Start_begin (NewTcpMuxServer demo_mux_config)))
     \<longleftrightarrow> mx_controlChannel (snd (mux_Start_begin (NewTcpMuxServer demo_mux_config))) \<noteq> None"
proof -
  let ?s = "NewTcpMuxServer demo_mux_config"
  have "mux_step ?s ([], snd (mux_Start_begin ?s))"
    by (rule mux_step.intros) (simp_all add: NewTcpMuxServer_def)
  then have "mux_reachable demo_mux_config (snd (mux_Start_begin ?s))" by (blast intro: mux_reachable.intros)
  from mux_server_invariant [OF this] show ?thesis by blast
qed

text \<open>While the server keeps its control channel, its stream counter is the number of local
  connections on their way: queued, in the hand of a session's goroutine, or relayed, modulo
  the 32 bits of the counter.\<close>

theorem mux_streams_counted:
  assumes "mux_serving config s"
  shows "mx_streamCounter s = of_nat (length (ch_buf (mx_localChannel s)) + sum_list (map load (mx_handlers s)))"
  using mux_serving_counted [OF assms] by (simp add: counted_def in_flight_def)

theorem mux_streams_counted_witness:
  "mx_streamCounter (snd (mux_acceptLocalConn 1 0 demo_socket ''443'' (NewTcpMuxServer demo_mux_config))) = 1"
proof -
  let ?s = "NewTcpMuxServer demo_mux_config" and ?t = "snd (mux_acceptLocalConn 1 0 demo_socket ''443'' (NewTcpMuxServer demo_mux_config))"
  have "mux_step ?s (fst (mux_acceptLocalConn 1 0 demo_socket ''443'' ?s), ?t)"
    using mux_step.intros(7) [of ?s 0 demo_socket "''443''"] by (simp add: NewTcpMuxServer_def demo_mux_config_def)
  moreover have "mx_controlChannel ?s = None" by (simp add: NewTcpMuxServer_def)
  ultimately have "mux_serving demo_mux_config ?t" by (blast intro: mux_serving.intros)
  from mux_streams_counted [OF this] show ?thesis
    by (simp add: mux_acceptLocalConn_def demo_socket_def mux_enqueueInbound_def NewTcpMuxServer_def
        demo_mux_config_def try_send_def make_chan_def Let_def mux_request_def)
qed

text \<open>A restart sets the counter to zero although streams of the old sessions still run: the
  end of such a stream takes the counter below zero.\<close>

theorem mux_Restart_miscounts:
  assumes "i < length (mx_handlers s)" and "sh_streams (mx_handlers s ! i) > 0"
  shows "sint (mx_streamCounter (snd (session_step m i StreamEnd (snd (mux_Restart s))))) = -1"
  using assms by (simp add: session_step_def handleSession_step_def mux_Restart_def)

theorem mux_Restart_miscounts_witness:
  "sint (mx_streamCounter (snd (session_step 1 0 StreamEnd
     (snd (mux_Restart (demo_mux\<lparr>mx_handlers := [demo_mux_handler\<lparr>sh_slots := 1, sh_streams := 1\<rparr>]\<rparr>)))))) = -1"
  by (rule mux_Restart_miscounts) simp_all

text \<open>A tunnel connection that is probed as a further control channel either goes on with every
  byte it sent still to be read, nothing written to it and the server unchanged; or it is closed;
  or it becomes a control channel, and then it had presented the framed token and got it back.\<close>

theorem tryPromote_lossless:
  "case tryPromoteExtraControlChannel ok conn s of
     (NotControl c, t) \<Rightarrow> t = s
       \<and> pending (w_in (tn_wire (mq_conn c))) = pending (w_in (tn_wire conn))
       \<and> w_out (tn_wire (mq_conn c)) = w_out (tn_wire conn)
   | (Handled es, t) \<Rightarrow> (es = [CloseConn (tn_id conn)] \<and> t = s)
       \<or> (es = [] \<and> (\<exists>c. t = s\<lparr>mx_extraCtrlConns := mx_extraCtrlConns s @ [c]\<rparr>
           \<and> pending (w_in (tn_wire conn)) = frame (tm_Token (mx_config s), SG_Chan) @ pending (w_in (tn_wire c))
           \<and> (w_out (tn_wire c) = w_out (tn_wire conn) @ frame (tm_Token (mx_config s), SG_Chan)
              \<or> (\<exists>e. w_fail (tn_wire conn) = Some e))))"
  using tryPromote_outcome [of ok conn s]
  by (cases "tryPromoteExtraControlChannel ok conn s") (auto split: probe.splits)

text \<open>A request for a new connection reaches a client exactly if some control channel can still
  be written to, and otherwise is reported as an error (which restarts the server).\<close>

theorem sendNewConnSignalRoundRobin_ok:
  "fst (sendNewConnSignalRoundRobin s)
     \<longleftrightarrow> (\<exists>c \<in> set (channels s). w_type (tn_wire c) \<noteq> OtherType \<and> w_fail (tn_wire c) = None)"
  using sendNewConn_ok [of s] by (simp add: usable_def)

text \<open>C26: requests are shared evenly: with all \<open>n\<close> control channels alive, \<open>n\<close> requests in a row
  send exactly one request over each of them, wherever the round robin stands.\<close>

theorem requests_fair:
  assumes "\<forall>c \<in> set (channels s). usable (tn_wire c)" and "j < length (channels s)"
  shows "w_out (tn_wire (channels (requests (length (channels s)) s) ! j))
    = w_out (tn_wire (channels s ! j)) @ [SG_Chan]"
proof -
  let ?n = "length (channels s)" and ?r = "mx_rrControlIdx s"
  from rotation_index [OF assms(2), of ?r] obtain i where "i < ?n" "(?r + i) mod ?n = j" by blast
  then have "{i. i < ?n \<and> (?r + i) mod ?n = j} = {i}" by (auto dest: rotation_unique)
  then show ?thesis using requests_count [OF assms, of ?n] by (simp add: numeral_eq_Suc)
qed

theorem requests_fair_witness:
  "w_out (tn_wire (channels (requests 2 demo_mux) ! 1)) = [SG_Chan]"
proof -
  have c: "channels demo_mux = [demo_peer, demo_peer]" by (simp add: channels_def demo_mux_def)
  have "\<forall>c \<in> set (channels demo_mux). usable (tn_wire c)" by (simp add: c demo_peer_usable)
  from requests_fair [OF this, of 1] c show ?thesis by (simp add: numeral_2_eq_2 demo_peer_def fresh_wire_def)
qed

text \<open>The multiplexed runtime keeps the contract of \<^verbatim>\<open>InboundTarget\<close>, as the plain one does.\<close>

theorem mux_EnqueueInbound_contract:
  assumes "offer_all mux_enqueue_offer qs s = (a, r, t)"
  shows "ch_buf (mx_localChannel t) = ch_buf (mx_localChannel s) @ map local_of a
    \<and> mset a + mset r = mset qs \<and> (\<not> mux_IsReady s \<longrightarrow> a = [])
    \<and> (length (ch_buf (mx_localChannel s)) \<le> ch_cap (mx_localChannel s)
       \<longrightarrow> length (ch_buf (mx_localChannel t)) \<le> ch_cap (mx_localChannel s))"
  using mux_target.offers_split [OF assms] by blast

theorem mux_EnqueueInbound_contract_witness:
  "ch_buf (mx_localChannel (snd (snd (offer_all mux_enqueue_offer [(0, demo_socket, ''443'', 443)] demo_mux)))) = [demo_local]"
proof -
  let ?q = "(0 :: int, demo_socket, ''443'', 443 :: int)"
  obtain t where t: "offer_all mux_enqueue_offer [?q] demo_mux = ([], [?q], t)"
    by (simp add: mux_enqueue_offer_def mux_offer_def mux_EnqueueInbound_def demo_mux_def NewTcpMuxServer_def)
  from mux_EnqueueInbound_contract [OF t] t show ?thesis by (simp add: demo_mux_def)
qed

end

