(* ===== verification/Websocket.thy ===== *)
theory Websocket
  imports Tcp_Server
begin

text \<open>
  What the two websocket runtimes (\<^verbatim>\<open>internal/server/transport/ws.go\<close>, \<^verbatim>\<open>wsmux.go\<close>) have in
  common, in the same text: the control channel and the admission of HTTP requests.  The
  connections are those of a third-party library: of them the model keeps what was written, and
  whether writing fails; what an upgrade or a read returns is an argument.
\<close>

section \<open>Websocket connections\<close>

datatype ws_message = BinaryMessage string | TextMessage string

record ws_conn =
  wk_id :: nat
  wk_out :: "ws_message list"
  wk_fail :: bool

definition WriteMessage :: "ws_message \<Rightarrow> ws_conn \<Rightarrow> bool \<times> ws_conn" where
  "WriteMessage m c = (if wk_fail c then (False, c) else (True, c\<lparr>wk_out := wk_out c @ [m]\<rparr>))"

section \<open>The control channel\<close>

text \<open>The reading goroutine: what \<^verbatim>\<open>ReadMessage\<close> returned becomes a message, a restart, or, for an
  empty message, the panic of the index expression \<^verbatim>\<open>msg[0]\<close>.\<close>

datatype reader_result = ReaderRestart | ReaderPanic | ReaderMessage char

definition ws_reader :: "string option \<Rightarrow> reader_result" where
  "ws_reader r = (case r of
     None \<Rightarrow> ReaderRestart
   | Some msg \<Rightarrow> if length msg = 0 then ReaderPanic else ReaderMessage (msg ! 0))"

datatype ws_event = WsDone | WsRequest | WsTick | WsMessage char

text \<open>One turn of \<^verbatim>\<open>channelHandler\<close> on the control channel and the queue of requests.\<close>

definition ws_control_step :: "ws_event \<Rightarrow> ws_conn \<Rightarrow> unit chan \<Rightarrow> handler_next \<times> ws_conn \<times> unit chan" where
  "ws_control_step ev c req =
     (case ev of
        WsDone \<Rightarrow> (Stopped, snd (WriteMessage (BinaryMessage [SG_Closed]) c), req)
      | WsRequest \<Rightarrow>
          (case try_recv req of
             None \<Rightarrow> (Running, c, req)
           | Some (_, req) \<Rightarrow>
               (case WriteMessage (BinaryMessage [SG_Chan]) c of
                  (True, c) \<Rightarrow> (Running, c, req) | (False, c) \<Rightarrow> (Restarting, c, req)))
      | WsTick \<Rightarrow>
          (case WriteMessage (BinaryMessage [SG_HB]) c of
             (True, c) \<Rightarrow> (Running, c, req) | (False, c) \<Rightarrow> (Restarting, c, req))
      | WsMessage msg \<Rightarrow>
          if msg = SG_HB then (Running, c, req)
          else if msg = SG_Closed then (Restarting, c, req)
          else (Restarting, c, req))"

section \<open>HTTP requests on the tunnel port\<close>

text \<open>A request: its Authorization header, its path, and the connection of a successful upgrade.\<close>

record upgrade_request =
  ur_auth :: string
  ur_path :: string
  ur_conn :: "ws_conn option"

datatype ws_effect =
  Unauthorized | CloseWs nat | GoRestart | CloseLocalWs nat | RelayWs LocalTCPConn nat

datatype admission = Refused "ws_effect list" | NewChannel ws_conn | NewTunnel ws_conn | OtherPath ws_conn

definition admit :: "string \<Rightarrow> upgrade_request \<Rightarrow> admission" where
  "admit token r =
     (if ur_auth r \<noteq> ''Bearer '' @ token then Refused [Unauthorized]
      else case ur_conn r of
        None \<Rightarrow> Refused []
      | Some conn \<Rightarrow>
          if ur_path r = ''/channel'' then NewChannel conn
          else if HasPrefix (ur_path r) ''/tunnel'' then NewTunnel conn
          else OtherPath conn)"

text \<open>The goroutines started with a new control channel.\<close>

definition channel_goroutines :: "nat \<Rightarrow> goroutine list" where
  "channel_goroutines numCPU =
     [ChannelHandler, ParsePortMappings] @ replicate (if numCPU > 4 then 4 else numCPU) HandleLoop"

text \<open>What goes out on a control channel in a run of its handler.\<close>

fun ws_control_run :: "ws_event list \<Rightarrow> ws_conn \<Rightarrow> unit chan \<Rightarrow> handler_next \<times> ws_conn \<times> unit chan" where
  "ws_control_run [] c req = (Running, c, req)"
| "ws_control_run (ev # evs) c req =
     (case ws_control_step ev c req of
        (Running, c, req) \<Rightarrow> ws_control_run evs c req
      | (n, c, req) \<Rightarrow> (n, c, req))"

fun ws_control_output :: "ws_event list \<Rightarrow> nat \<Rightarrow> ws_message list" where
  "ws_control_output [] n = []"
| "ws_control_output (WsDone # evs) n = [BinaryMessage [SG_Closed]]"
| "ws_control_output (WsRequest # evs) n =
     (if n = 0 then ws_control_output evs n else BinaryMessage [SG_Chan] # ws_control_output evs (n - 1))"
| "ws_control_output (WsTick # evs) n = BinaryMessage [SG_HB] # ws_control_output evs n"
| "ws_control_output (WsMessage m # evs) n = (if m = SG_HB then ws_control_output evs n else [])"

lemma WriteMessage_ok: "\<not> wk_fail c \<Longrightarrow> WriteMessage m c = (True, c\<lparr>wk_out := wk_out c @ [m]\<rparr>)"
  by (simp add: WriteMessage_def)

lemma ws_control_run_output:
  "\<not> wk_fail c \<Longrightarrow> ws_control_run evs c req = (n, c', req')
    \<Longrightarrow> wk_out c' = wk_out c @ ws_control_output evs (length (ch_buf req)) \<and> wk_id c' = wk_id c"
proof (induction evs arbitrary: c req)
  case (Cons ev evs)
  show ?case
  proof (cases ev)
    case WsDone
    with Cons.prems show ?thesis by (auto simp: ws_control_step_def WriteMessage_ok)
  next
    case WsRequest
    show ?thesis
    proof (cases "try_recv req")
      case None
      with Cons WsRequest go_chan.recv_none [OF None] show ?thesis by (simp add: ws_control_step_def)
    next
      case (Some x)
      obtain u ch where x: "x = (u, ch)" by (cases x)
      with Some have "ch_buf req = u # ch_buf ch" using go_chan.recv_some by simp
      with Cons.prems WsRequest Some x Cons.IH [of "c\<lparr>wk_out := wk_out c @ [BinaryMessage [SG_Chan]]\<rparr>" ch]
      show ?thesis by (simp add: ws_control_step_def WriteMessage_ok)
    qed
  next
    case WsTick
    with Cons.prems Cons.IH [of "c\<lparr>wk_out := wk_out c @ [BinaryMessage [SG_HB]]\<rparr>" req] show ?thesis
      by (simp add: ws_control_step_def WriteMessage_ok)
  next
    case (WsMessage m)
    with Cons show ?thesis by (cases "m = SG_HB") (auto simp: ws_control_step_def split: if_splits)
  qed
qed simp

lemma ws_control_step_id: "ws_control_step ev c req = (n, c', req') \<Longrightarrow> wk_id c' = wk_id c"
  by (auto simp: ws_control_step_def WriteMessage_def
      split: ws_event.splits option.splits prod.splits if_splits bool.splits)

lemma ws_control_step_chan: "ws_control_step ev c req = (n, c', req') \<Longrightarrow> chan_ok k req \<Longrightarrow> chan_ok k req'"
  by (auto simp: ws_control_step_def split: ws_event.splits option.splits prod.splits if_splits bool.splits
      intro: chan)

end
