(* ===== verification/Ws_Server.thy ===== *)
theory Ws_Server
  imports Websocket
begin

text \<open>
  The websocket server runtime, \<^verbatim>\<open>internal/server/transport/ws.go\<close>.  A tunnel connection is shared
  by the queue, the goroutine that keeps it alive and the loop that takes it: it lives in a store
  \<open>ws_tunnels\<close>, and the queue and the goroutines hold its index.  \<open>ws_step\<close> interleaves them.
  The lemmas say what a client sees on a tunnel connection: pings, then the target.
\<close>

section \<open>State\<close>

record WsConfig =
  ws_BindAddr :: string
  ws_SnifferLog :: string
  ws_TLSCertFile :: string
  ws_TLSKeyFile :: string
  ws_TunnelStatus :: string
  ws_Token :: string
  ws_Ports :: "string list"
  ws_Nodelay :: bool
  ws_Sniffer :: bool
  ws_KeepAlive :: Duration
  ws_Heartbeat :: Duration
  ws_ChannelSize :: int
  ws_WebPort :: int
  ws_Mode :: string

text \<open>\<open>tc_ping\<close> tells whether the ping channel is closed, \<open>tc_mu\<close> whether the mutex is held.\<close>

record TunnelChannel =
  tc_conn :: ws_conn
  tc_ping :: bool
  tc_mu :: bool

record WsTransport =
  ws_config :: WsConfig
  ws_tunnelChannel :: "nat chan"
  ws_localChannel :: "LocalTCPConn chan"
  ws_reqNewConnChan :: "unit chan"
  ws_controlChannel :: "ws_conn option"
  ws_ready :: bool
  ws_tunnels :: "TunnelChannel list"
  ws_keepers :: "nat list"

definition NewWSServer :: "WsConfig \<Rightarrow> WsTransport" where
  "NewWSServer config =
     \<lparr>ws_config = config,
      ws_tunnelChannel = make_chan (nat (ws_ChannelSize config)),
      ws_localChannel = make_chan (nat (ws_ChannelSize config)),
      ws_reqNewConnChan = make_chan (nat (ws_ChannelSize config)),
      ws_controlChannel = None, ws_ready = False, ws_tunnels = [], ws_keepers = []\<rparr>"

definition ws_Start :: "WsTransport \<Rightarrow> goroutine list \<times> WsTransport" where
  "ws_Start s =
     ((if ws_WebPort (ws_config s) > 0 then [UsageMonitor] else [])
        @ [TunnelListener (ws_BindAddr (ws_config s))],
      s\<lparr>ws_config := (ws_config s)\<lparr>ws_TunnelStatus := ''Disconnected ('' @ ws_Mode (ws_config s) @ '')''\<rparr>\<rparr>)"

definition ws_Restart :: "WsTransport \<Rightarrow> ws_effect list \<times> WsTransport" where
  "ws_Restart s =
     ((case ws_controlChannel s of Some c \<Rightarrow> [CloseWs (wk_id c)] | None \<Rightarrow> []),
      s\<lparr>ws_tunnelChannel := make_chan (nat (ws_ChannelSize (ws_config s))),
        ws_localChannel := make_chan (nat (ws_ChannelSize (ws_config s))),
        ws_reqNewConnChan := make_chan (nat (ws_ChannelSize (ws_config s))),
        ws_controlChannel := None, ws_ready := False,
        ws_config := (ws_config s)\<lparr>ws_TunnelStatus := ''''\<rparr>\<rparr>)"

section \<open>Control channel and tunnel connections\<close>

definition ws_channelHandler_step :: "ws_event \<Rightarrow> WsTransport \<Rightarrow> handler_next \<times> WsTransport" where
  "ws_channelHandler_step ev s =
     (case ws_controlChannel s of
        None \<Rightarrow> (Stopped, s)
      | Some c \<Rightarrow>
          (case ws_control_step ev c (ws_reqNewConnChan s) of
             (n, c, req) \<Rightarrow> (n, s\<lparr>ws_controlChannel := Some c, ws_reqNewConnChan := req\<rparr>)))"

text \<open>The HTTP handler of \<^verbatim>\<open>tunnelListener\<close>.  A connection under another path is left open.\<close>

definition ws_tunnelListener ::
  "nat \<Rightarrow> upgrade_request \<Rightarrow> WsTransport \<Rightarrow> ws_effect list \<times> goroutine list \<times> WsTransport" where
  "ws_tunnelListener numCPU r s =
     (case admit (ws_Token (ws_config s)) r of
        Refused es \<Rightarrow> (es, [], s)
      | NewChannel conn \<Rightarrow>
          (case ws_controlChannel s of
             Some c \<Rightarrow> ([CloseWs (wk_id c), CloseWs (wk_id conn), GoRestart], [], s)
           | None \<Rightarrow>
               ([], channel_goroutines numCPU,
                s\<lparr>ws_controlChannel := Some conn, ws_ready := True,
                  ws_config := (ws_config s)\<lparr>ws_TunnelStatus :=
                    ''Connected ('' @ ws_Mode (ws_config s) @ '')''\<rparr>\<rparr>))
      | NewTunnel conn \<Rightarrow>
          (let k = length (ws_tunnels s);
               wsConn = \<lparr>tc_conn = conn, tc_ping = False, tc_mu = False\<rparr> in
           case try_send k (ws_tunnelChannel s) of
             (True, ch) \<Rightarrow>
               ([], [], s\<lparr>ws_tunnelChannel := ch, ws_tunnels := ws_tunnels s @ [wsConn],
                          ws_keepers := ws_keepers s @ [k]\<rparr>)
           | (False, _) \<Rightarrow> ([CloseWs (wk_id conn)], [], s))
      | OtherPath conn \<Rightarrow> ([], [], s))"

text \<open>The goroutine \<^verbatim>\<open>keepAlive\<close> of the tunnel connection \<open>k\<close>: the context ended, the ping channel is
  closed, or a tick of its timer.\<close>

datatype keeper_event = KeepDone | KeepPing | KeepTick

definition stop_keeper :: "nat \<Rightarrow> WsTransport \<Rightarrow> WsTransport" where
  "stop_keeper k s = s\<lparr>ws_keepers := remove1 k (ws_keepers s)\<rparr>"

definition keepAlive :: "nat \<Rightarrow> keeper_event \<Rightarrow> WsTransport \<Rightarrow> ws_effect list \<times> WsTransport" where
  "keepAlive k ev s =
     (let t = ws_tunnels s ! k in
      case ev of
        KeepDone \<Rightarrow> ([CloseWs (wk_id (tc_conn t))], stop_keeper k s)
      | KeepPing \<Rightarrow> if tc_ping t then ([], stop_keeper k s) else ([], s)
      | KeepTick \<Rightarrow>
          if tc_mu t then ([], stop_keeper k s)
          else
            (case WriteMessage (BinaryMessage [SG_Ping]) (tc_conn t) of
               (True, c) \<Rightarrow> ([], s\<lparr>ws_tunnels := (ws_tunnels s)[k := t\<lparr>tc_conn := c\<rparr>]\<rparr>)
             | (False, c) \<Rightarrow> ([CloseWs (wk_id c)], stop_keeper k s)))"

section \<open>Local connections\<close>

definition ws_IsReady :: "WsTransport \<Rightarrow> bool" where
  "ws_IsReady s = ws_ready s"

definition ws_enqueueInbound :: "int \<Rightarrow> socket \<Rightarrow> string \<Rightarrow> int \<Rightarrow> WsTransport \<Rightarrow> bool \<times> WsTransport" where
  "ws_enqueueInbound now conn target reportPort s =
     (case try_send \<lparr>lc_conn = conn, lc_remoteAddr = target, lc_timeCreated = now,
                      lc_reportPort = reportPort\<rparr> (ws_localChannel s) of
        (True, ch) \<Rightarrow>
          (True, s\<lparr>ws_localChannel := ch, ws_reqNewConnChan := snd (try_send () (ws_reqNewConnChan s))\<rparr>)
      | (False, _) \<Rightarrow> (False, s))"

definition ws_EnqueueInbound :: "int \<Rightarrow> socket \<Rightarrow> string \<Rightarrow> int \<Rightarrow> WsTransport \<Rightarrow> bool \<times> WsTransport" where
  "ws_EnqueueInbound now conn target reportPort s =
     (if \<not> ws_ready s then (False, s) else ws_enqueueInbound now conn target reportPort s)"

definition ws_acceptLocalConn :: "int \<Rightarrow> socket \<Rightarrow> string \<Rightarrow> WsTransport \<Rightarrow> ws_effect list \<times> WsTransport" where
  "ws_acceptLocalConn now conn remoteAddr s =
     (if sk_port conn = None then ([CloseLocalWs (sk_id conn)], s)
      else case ws_enqueueInbound now conn remoteAddr 0 s of
        (True, s) \<Rightarrow> ([], s)
      | (False, s) \<Rightarrow> ([CloseLocalWs (sk_id conn)], s))"

definition ws_parsePortMappings :: "WsTransport \<Rightarrow> goroutine list \<times> fatal option" where
  "ws_parsePortMappings s =
     (case parsePortMappings (ws_Ports (ws_config s)) of
        (started, e) \<Rightarrow> (map (\<lambda>l. LocalListener (fst l) (snd l)) started, e))"

text \<open>The inner loop of \<^verbatim>\<open>handleLoop\<close> for one local connection, one clock reading a turn.\<close>

fun ws_pair_loop :: "int list \<Rightarrow> LocalTCPConn \<Rightarrow> WsTransport \<Rightarrow> ws_effect list \<times> WsTransport" where
  "ws_pair_loop [] l s = ([], s)"
| "ws_pair_loop (now # nows) l s =
     (if now - lc_timeCreated l > 3000 then ([CloseLocalWs (sk_id (lc_conn l))], s) else
      case try_recv (ws_tunnelChannel s) of
        None \<Rightarrow> ([], s)
      | Some (k, ch) \<Rightarrow>
          (case WriteMessage (TextMessage (lc_remoteAddr l)) (tc_conn (ws_tunnels s ! k)) of
             (ok, c) \<Rightarrow>
               let s = s\<lparr>ws_tunnelChannel := ch,
                         ws_tunnels := (ws_tunnels s)[k := \<lparr>tc_conn = c, tc_ping = True, tc_mu = True\<rparr>]\<rparr> in
               if ok then ([RelayWs l k], s)
               else (case ws_pair_loop nows l s of (es, s) \<Rightarrow> (CloseWs (wk_id c) # es, s))))"

definition ws_handleLoop_turn :: "int list \<Rightarrow> WsTransport \<Rightarrow> ws_effect list \<times> WsTransport" where
  "ws_handleLoop_turn nows s =
     (case try_recv (ws_localChannel s) of
        None \<Rightarrow> ([], s)
      | Some (localConn, ch) \<Rightarrow> ws_pair_loop nows localConn (s\<lparr>ws_localChannel := ch\<rparr>))"

section \<open>The interleaving of the goroutines\<close>

text \<open>An upgrade gives a connection to which nothing was written yet.\<close>

inductive ws_step :: "WsTransport \<Rightarrow> ws_effect list \<times> WsTransport \<Rightarrow> bool" where
  "ws_step s ([], snd (ws_Start s))"
| "(case ur_conn r of Some c \<Rightarrow> wk_out c = [] | None \<Rightarrow> True)
    \<Longrightarrow> ws_tunnelListener numCPU r s = (es, gs, t) \<Longrightarrow> ws_step s (es, t)"
| "ws_controlChannel s \<noteq> None \<Longrightarrow> ws_step s ([], snd (ws_channelHandler_step ev s))"
| "k \<in> set (ws_keepers s) \<Longrightarrow> ws_step s (keepAlive k ev s)"
| "ws_step s (ws_acceptLocalConn now sk addr s)"
| "ws_step s ([], snd (ws_EnqueueInbound now sk addr port s))"
| "ws_step s (ws_handleLoop_turn nows s)"
| "ws_step s (ws_Restart s)"

inductive ws_reachable :: "WsConfig \<Rightarrow> WsTransport \<Rightarrow> bool" for config where
  start: "ws_reachable config (NewWSServer config)"
| step: "ws_reachable config s \<Longrightarrow> ws_step s (es, t) \<Longrightarrow> ws_reachable config t"

inductive_cases ws_stepE: "ws_step s (es, t)"

section \<open>The runtime as an inbound target\<close>

definition ws_enqueue_offer :: "offer \<Rightarrow> WsTransport \<Rightarrow> bool \<times> WsTransport" where
  "ws_enqueue_offer q s = (case q of (now, c, target, port) \<Rightarrow> ws_EnqueueInbound now c target port s)"

interpretation ws_target: inbound_target ws_IsReady ws_enqueue_offer
    "\<lambda>s. ch_buf (ws_localChannel s)" "\<lambda>s. ch_cap (ws_localChannel s)"
  by (rule inbound_targetI [where upd =
        "\<lambda>ch s. s\<lparr>ws_localChannel := ch, ws_reqNewConnChan := snd (try_send () (ws_reqNewConnChan s))\<rparr>"])
    (auto simp: ws_enqueue_offer_def ws_EnqueueInbound_def ws_enqueueInbound_def ws_IsReady_def local_of_def)

end
