(* ===== verification/Ws_Spec.thy ===== *)
theory Ws_Spec
  imports Ws_Server Tcp_Spec
begin

text \<open>
  What the websocket server promises over every interleaving: readiness and queues as in the
  plain runtime, and the hand-over of a tunnel connection from its keep-alive goroutine to the
  loop that relays it.
\<close>

section \<open>Invariant\<close>

abbreviation pings :: "nat \<Rightarrow> ws_message list" where
  "pings n \<equiv> replicate n (BinaryMessage [SG_Ping])"

text \<open>On a tunnel connection there are pings, and the target only once the loop holds it.\<close>

definition tunnel_ok :: "TunnelChannel \<Rightarrow> bool" where
  "tunnel_ok t \<longleftrightarrow> (\<exists>n. wk_out (tc_conn t) = pings n)
     \<or> (tc_mu t \<and> (\<exists>n a. wk_out (tc_conn t) = pings n @ [TextMessage a]))"

definition ws_inv :: "WsTransport \<Rightarrow> bool" where
  "ws_inv s \<longleftrightarrow> (ws_ready s \<longleftrightarrow> ws_controlChannel s \<noteq> None)
     \<and> (let n = nat (ws_ChannelSize (ws_config s)) in
        chan_ok n (ws_tunnelChannel s) \<and> chan_ok n (ws_localChannel s) \<and> chan_ok n (ws_reqNewConnChan s))
     \<and> list_all tunnel_ok (ws_tunnels s) \<and> distinct (ch_buf (ws_tunnelChannel s))
     \<and> (\<forall>k \<in> set (ch_buf (ws_tunnelChannel s)). k < length (ws_tunnels s) \<and> \<not> tc_mu (ws_tunnels s ! k))
     \<and> (\<forall>k \<in> set (ws_keepers s). k < length (ws_tunnels s))"

lemmas ws_inv_simps = ws_inv_def Let_def

definition kept :: "WsTransport \<Rightarrow> WsTransport \<Rightarrow> bool" where
  "kept s t \<longleftrightarrow> length (ws_tunnels s) \<le> length (ws_tunnels t)
     \<and> (\<forall>k < length (ws_tunnels s). tc_mu (ws_tunnels s ! k) \<longrightarrow> ws_tunnels t ! k = ws_tunnels s ! k)"

lemma kept_same: "ws_tunnels t = ws_tunnels s \<Longrightarrow> kept s t"
  by (simp add: kept_def)

text \<open>Taking a connection off the queue and holding it.\<close>

lemma take_tunnel:
  assumes "ws_inv s" and "try_recv (ws_tunnelChannel s) = Some (k, ch)"
    and "WriteMessage (TextMessage a) (tc_conn (ws_tunnels s ! k)) = (ok, c)"
  defines "t \<equiv> s\<lparr>ws_tunnelChannel := ch,
                 ws_tunnels := (ws_tunnels s)[k := \<lparr>tc_conn = c, tc_ping = True, tc_mu = True\<rparr>]\<rparr>"
  shows "ws_inv t" and "kept s t" and "k < length (ws_tunnels s)" and "tc_mu (ws_tunnels t ! k)"
    and "ok \<Longrightarrow> \<exists>n. wk_out c = pings n @ [TextMessage a]"
proof -
  have q: "ch_buf (ws_tunnelChannel s) = k # ch_buf ch" using go_chan.recv_some [OF assms(2)] .
  with assms(1) have k: "k < length (ws_tunnels s)" "\<not> tc_mu (ws_tunnels s ! k)" "k \<notin> set (ch_buf ch)"
    by (auto simp: ws_inv_simps)
  from assms(1) k have "tunnel_ok (ws_tunnels s ! k)" by (simp add: ws_inv_def list_all_length)
  with k obtain n where n: "wk_out (tc_conn (ws_tunnels s ! k)) = pings n" by (auto simp: tunnel_ok_def)
  with assms(3) have c: "wk_out c = (if ok then pings n @ [TextMessage a] else pings n)"
    by (auto simp: WriteMessage_def split: if_splits)
  then have "tunnel_ok \<lparr>tc_conn = c, tc_ping = True, tc_mu = True\<rparr>" by (auto simp: tunnel_ok_def)
  moreover have "chan_ok n (ws_tunnelChannel s) \<Longrightarrow> chan_ok n ch" for n
    using assms(2) by (rule chan_ok_recv)
  ultimately show "ws_inv t"
    using assms(1) k q by (auto simp: t_def ws_inv_simps list_all_length nth_list_update)
  show "kept s t" using k by (auto simp: t_def kept_def nth_list_update)
  show "k < length (ws_tunnels s)" by (fact k)
  show "tc_mu (ws_tunnels t ! k)" using k by (simp add: t_def)
  show "ok \<Longrightarrow> \<exists>n. wk_out c = pings n @ [TextMessage a]" using c by auto
qed

lemma kept_trans: "kept s t \<Longrightarrow> kept t u \<Longrightarrow> kept s u"
  by (auto simp: kept_def)

lemma ws_pair_loop_inv:
  "ws_pair_loop nows l s = (es, t) \<Longrightarrow> ws_inv s \<Longrightarrow>
     ws_inv t \<and> kept s t \<and> (\<forall>l' k. RelayWs l' k \<in> set es \<longrightarrow> l' = l
       \<and> (\<exists>n. wk_out (tc_conn (ws_tunnels t ! k)) = pings n @ [TextMessage (lc_remoteAddr l)]))"
proof (induction nows l s arbitrary: es rule: ws_pair_loop.induct)
  case (2 now nows l s)
  show ?case
  proof (cases "now - lc_timeCreated l > 3000 \<or> try_recv (ws_tunnelChannel s) = None")
    case True
    with "2.prems" show ?thesis by (auto simp: kept_same split: if_splits)
  next
    case False
    then obtain k ch where r: "\<not> now - lc_timeCreated l > 3000" "try_recv (ws_tunnelChannel s) = Some (k, ch)" by auto
    obtain ok c where w: "WriteMessage (TextMessage (lc_remoteAddr l)) (tc_conn (ws_tunnels s ! k)) = (ok, c)"
      by (metis prod.exhaust)
    let ?s = "s\<lparr>ws_tunnelChannel := ch,
               ws_tunnels := (ws_tunnels s)[k := \<lparr>tc_conn = c, tc_ping = True, tc_mu = True\<rparr>]\<rparr>"
    note T = take_tunnel [OF "2.prems"(2) r(2) w]
    show ?thesis
    proof (cases ok)
      case True
      with "2.prems"(1) r w have "es = [RelayWs l k]" "t = ?s" by auto
      with T True show ?thesis by auto
    next
      case False
      obtain es' where es': "ws_pair_loop nows l ?s = (es', t)" "es = CloseWs (wk_id c) # es'"
        using "2.prems"(1) r w False by (auto simp: Let_def split: prod.splits)
      from "2.IH" [OF r refl w [symmetric] refl False es'(1) T(1)] kept_trans [OF T(2)] es'(2) show ?thesis by auto
    qed
  qed
qed (simp add: kept_same)

lemma ws_enqueue_inv: "ws_enqueueInbound now c tg p s = (ok, t) \<Longrightarrow> ws_inv s \<Longrightarrow> ws_inv t \<and> ws_tunnels t = ws_tunnels s"
  by (auto simp: ws_enqueueInbound_def ws_inv_simps split: prod.splits bool.splits
      intro: chan chan_ok_send [OF surjective_pairing])

lemma keepAlive_inv:
  assumes "keepAlive k ev s = (es, t)" and "k \<in> set (ws_keepers s)" and "ws_inv s"
  shows "ws_inv t \<and> kept s t"
proof -
  let ?t = "ws_tunnels s ! k"
  have k: "k < length (ws_tunnels s)" using assms(2,3) by (simp add: ws_inv_def)
  have stop: "ws_inv (stop_keeper k s) \<and> kept s (stop_keeper k s)"
    using assms(3) by (auto simp: stop_keeper_def ws_inv_simps kept_same dest: set_remove1_subset [THEN subsetD])
  have ping: "ws_inv (s\<lparr>ws_tunnels := (ws_tunnels s)[k := ?t\<lparr>tc_conn := c\<rparr>]\<rparr>)
      \<and> kept s (s\<lparr>ws_tunnels := (ws_tunnels s)[k := ?t\<lparr>tc_conn := c\<rparr>]\<rparr>)"
    if "\<not> tc_mu ?t" "wk_out c = wk_out (tc_conn ?t) @ [BinaryMessage [SG_Ping]]" for c
  proof -
    from assms(3) k that(1) obtain n where "wk_out (tc_conn ?t) = pings n"
      by (auto simp: ws_inv_def list_all_length tunnel_ok_def)
    with that(2) have "wk_out c = pings (Suc n)" by (simp flip: replicate_append_same)
    then have "tunnel_ok (?t\<lparr>tc_conn := c\<rparr>)" unfolding tunnel_ok_def by (intro disjI1 exI [of _ "Suc n"]) simp
    with assms(3) k that(1) show ?thesis
      by (auto simp: ws_inv_simps list_all_length nth_list_update kept_def)
  qed
  show ?thesis
    using assms(1,3) stop ping
    by (auto simp: keepAlive_def Let_def WriteMessage_def kept_same split: keeper_event.splits if_splits)
qed

lemma ws_tunnelListener_inv:
  assumes "ws_tunnelListener n r s = (es, gs, t)" and "case ur_conn r of Some c \<Rightarrow> wk_out c = [] | None \<Rightarrow> True"
    and "ws_inv s"
  shows "ws_inv t \<and> kept s t"
proof (cases "admit (ws_Token (ws_config s)) r")
  case (NewTunnel conn)
  then have c: "ur_conn r = Some conn" by (auto simp: admit_def split: if_splits option.splits)
  obtain ok ch where snd: "try_send (length (ws_tunnels s)) (ws_tunnelChannel s) = (ok, ch)" by (metis prod.exhaust)
  show ?thesis
  proof (cases ok)
    case True
    with snd have b: "ch_buf ch = ch_buf (ws_tunnelChannel s) @ [length (ws_tunnels s)]"
      using go_chan.send_ok [of "length (ws_tunnels s)" "ws_tunnelChannel s" ch] by simp
    have ok: "tunnel_ok \<lparr>tc_conn = conn, tc_ping = False, tc_mu = False\<rparr>"
      using assms(2) c by (auto simp: tunnel_ok_def)
    have "t = s\<lparr>ws_tunnelChannel := ch,
        ws_tunnels := ws_tunnels s @ [\<lparr>tc_conn = conn, tc_ping = False, tc_mu = False\<rparr>],
        ws_keepers := ws_keepers s @ [length (ws_tunnels s)]\<rparr>"
      using assms(1) NewTunnel snd True by (simp add: ws_tunnelListener_def Let_def)
    moreover have "ws_inv (s\<lparr>ws_tunnelChannel := ch,
        ws_tunnels := ws_tunnels s @ [\<lparr>tc_conn = conn, tc_ping = False, tc_mu = False\<rparr>],
        ws_keepers := ws_keepers s @ [length (ws_tunnels s)]\<rparr>)"
    proof -
      have "length (ws_tunnels s) \<notin> set (ch_buf (ws_tunnelChannel s))"
        using assms(3) by (auto simp: ws_inv_simps)
      moreover have "chan_ok m (ws_tunnelChannel s) \<Longrightarrow> chan_ok m ch" for m using snd by (rule chan_ok_send)
      ultimately show ?thesis using assms(3) b ok unfolding ws_inv_def Let_def
        by (clarsimp simp: nth_append) fastforce
    qed
    ultimately show ?thesis by (simp add: kept_def nth_append)
  next
    case False
    with assms(1,3) NewTunnel snd show ?thesis by (auto simp: ws_tunnelListener_def Let_def kept_same)
  qed
qed (use assms in \<open>auto simp: ws_tunnelListener_def ws_inv_simps kept_same split: option.splits\<close>)

text \<open>One step keeps the invariant and does not touch a connection that was handed over; a relay
  that starts has the target as the last message, behind pings.\<close>

lemma ws_step_inv:
  assumes "ws_step s (es, t)" and "ws_inv s"
  shows "ws_inv t \<and> kept s t \<and> (\<forall>l k. RelayWs l k \<in> set es \<longrightarrow>
    (\<exists>n. wk_out (tc_conn (ws_tunnels t ! k)) = pings n @ [TextMessage (lc_remoteAddr l)]))"
  using assms(1)
proof (rule ws_stepE)
  note s = assms(2)
  show "es = [] \<Longrightarrow> t = snd (ws_Start s) \<Longrightarrow> ?thesis"
    using s by (auto simp: ws_Start_def ws_inv_simps kept_same)
  show ?thesis if "case ur_conn r of Some c \<Rightarrow> wk_out c = [] | None \<Rightarrow> True"
    "ws_tunnelListener n r s = (es, gs, t)" for r n gs
  proof -
    have "RelayWs l k \<notin> set es" for l k
      using that(2) by (auto simp: ws_tunnelListener_def Let_def admit_def
          split: admission.splits option.splits prod.splits bool.splits if_splits)
    with ws_tunnelListener_inv [OF that(2,1) s] show ?thesis by blast
  qed
  show "es = [] \<Longrightarrow> t = snd (ws_channelHandler_step ev s) \<Longrightarrow> ?thesis" for ev
    using s ws_control_step_chan by (auto simp: ws_channelHandler_step_def ws_inv_simps kept_same
        split: option.splits prod.splits)
  show ?thesis if "(es, t) = keepAlive k ev s" "k \<in> set (ws_keepers s)" for k ev
  proof -
    have "RelayWs l k' \<notin> set es" for l k'
      using that(1) by (auto simp: keepAlive_def Let_def split: keeper_event.splits prod.splits bool.splits if_splits)
    with keepAlive_inv [OF that(1) [symmetric] that(2) s] show ?thesis by blast
  qed
  show "(es, t) = ws_acceptLocalConn now sk addr s \<Longrightarrow> ?thesis" for now sk addr
    using s ws_enqueue_inv by (fastforce simp: ws_acceptLocalConn_def kept_same split: if_splits prod.splits bool.splits)
  show "es = [] \<Longrightarrow> t = snd (ws_EnqueueInbound now sk addr port s) \<Longrightarrow> ?thesis" for now sk addr port
    using s ws_enqueue_inv [OF surjective_pairing] by (auto simp: ws_EnqueueInbound_def kept_same)
  show ?thesis if "(es, t) = ws_handleLoop_turn nows s" for nows
  proof (cases "try_recv (ws_localChannel s)")
    case None
    with that s show ?thesis by (simp add: ws_handleLoop_turn_def kept_same)
  next
    case (Some x)
    obtain l ch where x: "x = (l, ch)" by (cases x)
    let ?s = "s\<lparr>ws_localChannel := ch\<rparr>"
    have "ws_inv ?s" using s Some x by (auto simp: ws_inv_simps intro: chan)
    from ws_pair_loop_inv [OF _ this, of nows l es t] that Some x show ?thesis
      by (auto simp: ws_handleLoop_turn_def kept_def)
  qed
  show "(es, t) = ws_Restart s \<Longrightarrow> ?thesis"
    using s by (auto simp: ws_Restart_def ws_inv_simps kept_same chan split: option.splits)
qed

lemma ws_reachable_inv: "ws_reachable config s \<Longrightarrow> ws_inv s"
proof (induction rule: ws_reachable.induct)
  case start
  show ?case by (simp add: NewWSServer_def ws_inv_simps chan)
next
  case (step s es t)
  with ws_step_inv show ?case by blast
qed

section \<open>Properties\<close>

definition demo_ws_config :: WsConfig where
  "demo_ws_config = \<lparr>ws_BindAddr = '':3080'', ws_SnifferLog = [], ws_TLSCertFile = [], ws_TLSKeyFile = [],
     ws_TunnelStatus = [], ws_Token = ''musix'', ws_Ports = [''80''], ws_Nodelay = True, ws_Sniffer = False,
     ws_KeepAlive = 75 * Second, ws_Heartbeat = 40 * Second, ws_ChannelSize = 2, ws_WebPort = 0, ws_Mode = ''ws''\<rparr>"

definition demo_upgrade :: "string \<Rightarrow> upgrade_request" where
  "demo_upgrade path = \<lparr>ur_auth = ''Bearer musix'', ur_path = path,
     ur_conn = Some \<lparr>wk_id = 4, wk_out = [], wk_fail = False\<rparr>\<rparr>"


definition demo_ws :: WsTransport where
  "demo_ws = snd (snd (ws_tunnelListener 1 (demo_upgrade ''/tunnel'') (NewWSServer demo_ws_config)))"

lemma demo_ws_reachable: "ws_reachable demo_ws_config demo_ws"
proof -
  have "ws_step (NewWSServer demo_ws_config) ([], demo_ws)"
    by (rule ws_step.intros(2) [of "demo_upgrade ''/tunnel''" 1 _ "[]" "[]"])
      (simp_all add: demo_ws_def demo_upgrade_def ws_tunnelListener_def NewWSServer_def admit_def demo_ws_config_def
        HasPrefix_def try_send_def make_chan_def Let_def)
  then show ?thesis by (blast intro: ws_reachable.intros)
qed

lemmas demo_ws_eval = demo_ws_def demo_upgrade_def ws_tunnelListener_def NewWSServer_def admit_def
  demo_ws_config_def HasPrefix_def try_send_def make_chan_def Let_def


text \<open>Nobody without the token gets anything from the tunnel port of the websocket server: a
  request whose Authorization header is not the bearer token is refused with status 401 and
  changes nothing; one with it becomes the control channel if there is none, and if there is
  one, closes both and restarts the server.\<close>

theorem ws_authorization:
  "case ws_tunnelListener n r s of (es, gs, t) \<Rightarrow>
     if ur_auth r \<noteq> ''Bearer '' @ ws_Token (ws_config s) then es = [Unauthorized] \<and> gs = [] \<and> t = s
     else if ur_path r = ''/channel''
     then (case (ur_conn r, ws_controlChannel s) of
         (Some conn, None) \<Rightarrow> es = [] \<and> ws_controlChannel t = Some conn \<and> ws_IsReady t
       | (Some conn, Some c) \<Rightarrow> t = s \<and> es = [CloseWs (wk_id c), CloseWs (wk_id conn), GoRestart]
       | (None, _) \<Rightarrow> t = s \<and> es = [])
     else ws_controlChannel t = ws_controlChannel s \<and> ws_localChannel t = ws_localChannel s"
  by (auto simp: ws_tunnelListener_def admit_def ws_IsReady_def Let_def
      split: option.splits prod.splits bool.splits)

text \<open>The reader of a websocket control channel panics exactly on an empty message, which ends
  the whole process: it indexes the message without looking at its length.\<close>

theorem ws_reader_panics:
  "ws_reader (Some msg) = ReaderPanic \<longleftrightarrow> msg = []"
  by (simp add: ws_reader_def)

text \<open>The websocket runtime keeps the contract of \<^verbatim>\<open>InboundTarget\<close>, and in every reachable state
  it is ready exactly if it has a control channel.\<close>

theorem ws_EnqueueInbound_contract:
  assumes "ws_reachable config s" and "offer_all ws_enqueue_offer qs s = (a, r, t)"
  shows "ch_buf (ws_localChannel t) = ch_buf (ws_localChannel s) @ map local_of a
    \<and> mset a + mset r = mset qs \<and> (ws_controlChannel s = None \<longrightarrow> a = [])
    \<and> length (ch_buf (ws_localChannel t)) \<le> nat (ws_ChannelSize (ws_config s))"
proof -
  have "ws_IsReady s \<longleftrightarrow> ws_controlChannel s \<noteq> None" "ch_cap (ws_localChannel s) = nat (ws_ChannelSize (ws_config s))"
    "length (ch_buf (ws_localChannel s)) \<le> nat (ws_ChannelSize (ws_config s))"
    using ws_reachable_inv [OF assms(1)] by (auto simp: ws_inv_simps chan_ok_def ws_IsReady_def)
  with ws_target.offers_split [OF assms(2)] show ?thesis by auto
qed

theorem ws_EnqueueInbound_contract_witness:
  "fst (offer_all ws_enqueue_offer [(0, demo_socket, ''443'', 443)] demo_ws) = []"
proof -
  obtain a r t where o: "offer_all ws_enqueue_offer [(0, demo_socket, ''443'', 443)] demo_ws = (a, r, t)"
    by (metis prod.exhaust)
  have "ws_controlChannel demo_ws = None"
    by (simp add: demo_ws_eval)
  with ws_EnqueueInbound_contract [OF demo_ws_reachable o] show ?thesis using o by simp
qed

end
