(* ===== verification/Wsmux_Server.thy ===== *)
theory Wsmux_Server
  imports Websocket Mux_Sessions_Spec
begin

text \<open>
  The multiplexed websocket server runtime, \<^verbatim>\<open>internal/server/transport/wsmux.go\<close>: the sessions of
  \<open>Mux_Sessions\<close> behind the HTTP front and the control channel of \<open>Websocket\<close>.  A definition
  whose text in \<^verbatim>\<open>wsmux.go\<close> is that of \<^verbatim>\<open>tcpmux.go\<close> is the shared one at this runtime's option.
\<close>

section \<open>State\<close>

record WsMuxConfig =
  wm_BindAddr :: string
  wm_Token :: string
  wm_SnifferLog :: string
  wm_TLSCertFile :: string
  wm_TLSKeyFile :: string
  wm_TunnelStatus :: string
  wm_Ports :: "string list"
  wm_Nodelay :: bool
  wm_Sniffer :: bool
  wm_KeepAlive :: Duration
  wm_Heartbeat :: Duration
  wm_ChannelSize :: int
  wm_MuxCon :: int
  wm_MuxVersion :: int
  wm_MaxFrameSize :: int
  wm_MaxReceiveBuffer :: int
  wm_MaxStreamBuffer :: int
  wm_WebPort :: int
  wm_Mode :: string
  wm_TCPCopyBuffer :: int

record WsMuxTransport = "ws_conn mux_core" +
  wm_config :: WsMuxConfig
  wm_smuxConfig :: SmuxConfig
  wm_controlChannel :: "ws_conn option"

definition NewWSMuxServer :: "WsMuxConfig \<Rightarrow> WsMuxTransport" where
  "NewWSMuxServer config =
     \<lparr>mx_tunnelChannel = make_chan (nat (wm_ChannelSize config)),
      mx_localChannel = make_chan (nat (wm_ChannelSize config)),
      mx_reqNewConnChan = make_chan (nat (wm_ChannelSize config)),
      mx_streamCounter = 0, mx_sessionCounter = 0, mx_ready = False, mx_handlers = [],
      wm_config = config,
      wm_smuxConfig = \<lparr>sx_Version = wm_MuxVersion config, sx_KeepAliveInterval = 20 * Second,
        sx_KeepAliveTimeout = 40 * Second, sx_MaxFrameSize = wm_MaxFrameSize config,
        sx_MaxReceiveBuffer = wm_MaxReceiveBuffer config,
        sx_MaxStreamBuffer = wm_MaxStreamBuffer config\<rparr>,
      wm_controlChannel = None\<rparr>"

definition wsmux_Start :: "WsMuxTransport \<Rightarrow> goroutine list \<times> WsMuxTransport" where
  "wsmux_Start s =
     ((if wm_WebPort (wm_config s) > 0 then [UsageMonitor] else [])
        @ [TunnelListener (wm_BindAddr (wm_config s))],
      s\<lparr>wm_config := (wm_config s)\<lparr>wm_TunnelStatus := ''Disconnected ('' @ wm_Mode (wm_config s) @ '')''\<rparr>\<rparr>)"

definition wsmux_Restart :: "WsMuxTransport \<Rightarrow> ws_effect list \<times> WsMuxTransport" where
  "wsmux_Restart s =
     ((case wm_controlChannel s of Some c \<Rightarrow> [CloseWs (wk_id c)] | None \<Rightarrow> []),
      s\<lparr>mx_tunnelChannel := make_chan (nat (wm_ChannelSize (wm_config s))),
        mx_localChannel := make_chan (nat (wm_ChannelSize (wm_config s))),
        mx_reqNewConnChan := make_chan (nat (wm_ChannelSize (wm_config s))),
        wm_controlChannel := None, mx_ready := False,
        wm_config := (wm_config s)\<lparr>wm_TunnelStatus := ''''\<rparr>,
        mx_streamCounter := 0, mx_sessionCounter := 0\<rparr>)"

section \<open>Control channel and tunnel connections\<close>

definition wsmux_channelHandler_step :: "ws_event \<Rightarrow> WsMuxTransport \<Rightarrow> handler_next \<times> WsMuxTransport" where
  "wsmux_channelHandler_step ev s =
     (case wm_controlChannel s of
        None \<Rightarrow> (Stopped, s)
      | Some c \<Rightarrow>
          (case ws_control_step ev c (mx_reqNewConnChan s) of
             (n, c, req) \<Rightarrow> (n, s\<lparr>wm_controlChannel := Some c, mx_reqNewConnChan := req\<rparr>)))"

text \<open>The HTTP handler; \<open>client\<close> is what \<^verbatim>\<open>smux.Client\<close> returned, a name for the session or an error.\<close>

definition wsmux_tunnelListener ::
  "nat \<Rightarrow> nat option \<Rightarrow> upgrade_request \<Rightarrow> WsMuxTransport \<Rightarrow> ws_effect list \<times> goroutine list \<times> WsMuxTransport" where
  "wsmux_tunnelListener numCPU client r s =
     (case admit (wm_Token (wm_config s)) r of
        Refused es \<Rightarrow> (es, [], s)
      | NewChannel conn \<Rightarrow>
          (case wm_controlChannel s of
             Some c \<Rightarrow> ([CloseWs (wk_id c), CloseWs (wk_id conn), GoRestart], [], s)
           | None \<Rightarrow>
               ([], channel_goroutines numCPU,
                s\<lparr>wm_controlChannel := Some conn, mx_ready := True,
                  wm_config := (wm_config s)\<lparr>wm_TunnelStatus :=
                    ''Connected ('' @ wm_Mode (wm_config s) @ '')''\<rparr>\<rparr>))
      | NewTunnel conn \<Rightarrow>
          (case client of
             None \<Rightarrow> ([CloseWs (wk_id conn)], [], s)
           | Some i \<Rightarrow>
               (case try_send \<lparr>ms_id = i, ms_conn = conn\<rparr> (mx_tunnelChannel s) of
                  (True, ch) \<Rightarrow> ([], [], s\<lparr>mx_tunnelChannel := ch\<rparr>)
                | (False, _) \<Rightarrow> ([CloseWs (wk_id conn)], [], s)))
      | OtherPath conn \<Rightarrow> ([], [], s))"

section \<open>Local connections and sessions\<close>

abbreviation wm_muxCon :: "WsMuxTransport \<Rightarrow> int" where
  "wm_muxCon s \<equiv> wm_MuxCon (wm_config s)"

definition wsmux_EnqueueInbound :: "int \<Rightarrow> socket \<Rightarrow> string \<Rightarrow> int \<Rightarrow> WsMuxTransport \<Rightarrow> bool \<times> WsMuxTransport" where
  "wsmux_EnqueueInbound now conn target reportPort s =
     mux_EnqueueInbound (wm_muxCon s) now conn target reportPort s"

definition wsmux_enqueueInbound :: "int \<Rightarrow> socket \<Rightarrow> string \<Rightarrow> int \<Rightarrow> WsMuxTransport \<Rightarrow> bool \<times> WsMuxTransport" where
  "wsmux_enqueueInbound now conn target reportPort s =
     mux_enqueueInbound (wm_muxCon s) now conn target reportPort s"

definition wsmux_acceptLocalConn :: "int \<Rightarrow> socket \<Rightarrow> string \<Rightarrow> WsMuxTransport \<Rightarrow> mux_effect list \<times> WsMuxTransport" where
  "wsmux_acceptLocalConn now conn remoteAddr s = mux_acceptLocalConn (wm_muxCon s) now conn remoteAddr s"

definition wsmux_parsePortMappings :: "WsMuxTransport \<Rightarrow> goroutine list \<times> fatal option" where
  "wsmux_parsePortMappings s =
     (case parsePortMappings (wm_Ports (wm_config s)) of
        (started, e) \<Rightarrow> (map (\<lambda>l. LocalListener (fst l) (snd l)) started, e))"

definition wsmux_handleLoop_turn :: "WsMuxTransport \<Rightarrow> WsMuxTransport" where
  "wsmux_handleLoop_turn s = mux_handleLoop_turn s"

definition wsmux_handleSession :: "nat \<Rightarrow> session_event \<Rightarrow> WsMuxTransport \<Rightarrow> mux_effect list \<times> WsMuxTransport" where
  "wsmux_handleSession i ev s = session_step (wm_muxCon s) i ev s"

section \<open>The interleaving of the goroutines\<close>

inductive wsmux_step :: "WsMuxTransport \<Rightarrow> WsMuxTransport \<Rightarrow> bool" where
  "wsmux_step s (snd (wsmux_Start s))"
| "wsmux_step s (snd (snd (wsmux_tunnelListener numCPU client r s)))"
| "wsmux_step s (snd (wsmux_channelHandler_step ev s))"
| "wsmux_step s (snd (wsmux_acceptLocalConn now sk addr s))"
| "wsmux_step s (snd (wsmux_EnqueueInbound now sk addr port s))"
| "wsmux_step s (wsmux_handleLoop_turn s)"
| "i < length (mx_handlers s) \<Longrightarrow> wsmux_step s (snd (wsmux_handleSession i sev s))"
| "wsmux_step s (snd (wsmux_Restart s))"

inductive wsmux_reachable :: "WsMuxConfig \<Rightarrow> WsMuxTransport \<Rightarrow> bool" for config where
  start: "wsmux_reachable config (NewWSMuxServer config)"
| step: "wsmux_reachable config s \<Longrightarrow> wsmux_step s t \<Longrightarrow> wsmux_reachable config t"

inductive_cases wsmux_stepE: "wsmux_step s t"

interpretation wsmux_target: inbound_target mux_IsReady "mux_offer wm_muxCon"
    "\<lambda>s :: WsMuxTransport. ch_buf (mx_localChannel s)" "\<lambda>s. ch_cap (mx_localChannel s)"
  by (rule mux_core_target)

section \<open>Invariant\<close>

definition wsmux_inv :: "WsMuxTransport \<Rightarrow> bool" where
  "wsmux_inv s \<longleftrightarrow> (mx_ready s \<longleftrightarrow> wm_controlChannel s \<noteq> None)
     \<and> core_inv (nat (wm_ChannelSize (wm_config s))) (wm_muxCon s) s"

lemma wsmux_inv_core:
  assumes "wsmux_inv s" and "core_inv (nat (wm_ChannelSize (wm_config s))) (wm_muxCon s) t"
    and "mx_ready t = mx_ready s" and "mux_core.more t = mux_core.more s"
  shows "wsmux_inv t"
proof -
  have "wm_config t = wm_config s" "wm_controlChannel t = wm_controlChannel s"
    using assms(4) by (cases s; cases t; simp)+
  with assms show ?thesis by (simp add: wsmux_inv_def)
qed

lemma wsmux_step_inv: "wsmux_step s t \<Longrightarrow> wsmux_inv s \<Longrightarrow> wsmux_inv t"
proof (erule wsmux_stepE)
  assume s: "wsmux_inv s"
  have enq: "wsmux_inv u" if "mux_enqueueInbound (wm_muxCon s) now sk addr port s = (ok, u)" for now sk addr port ok u
    using s that core_inv_enqueue [OF that] mux_enqueue_frame [OF that] wsmux_inv_core unfolding wsmux_inv_def by blast
  show "t = snd (wsmux_Start s) \<Longrightarrow> wsmux_inv t"
    using s by (auto simp: wsmux_Start_def wsmux_inv_def core_inv_def)
  show "t = snd (snd (wsmux_tunnelListener n client r s)) \<Longrightarrow> wsmux_inv t" for n client r
    using s by (auto simp: wsmux_tunnelListener_def wsmux_inv_def core_inv_def
        split: admission.splits option.splits prod.splits bool.splits intro: chan)
  show "t = snd (wsmux_channelHandler_step ev s) \<Longrightarrow> wsmux_inv t" for ev
    using s ws_control_step_chan by (auto simp: wsmux_channelHandler_step_def wsmux_inv_def core_inv_def
        split: option.splits prod.splits)
  show "t = snd (wsmux_acceptLocalConn now sk addr s) \<Longrightarrow> wsmux_inv t" for now sk addr
    using s enq by (auto simp: wsmux_acceptLocalConn_def mux_acceptLocalConn_def
        split: if_splits prod.splits bool.splits)
  show "t = snd (wsmux_EnqueueInbound now sk addr port s) \<Longrightarrow> wsmux_inv t" for now sk addr port
    using s enq [OF surjective_pairing] by (auto simp: wsmux_EnqueueInbound_def mux_EnqueueInbound_def)
  show "t = wsmux_handleLoop_turn s \<Longrightarrow> wsmux_inv t"
    using s by (auto simp: wsmux_handleLoop_turn_def mux_handleLoop_turn_def wsmux_inv_def core_inv_def
        handler_ok_def own_slot_def split: option.splits intro: chan)
  show "wsmux_inv t" if "t = snd (wsmux_handleSession i ev s)" "i < length (mx_handlers s)" for i ev
    using core_inv_session [OF surjective_pairing that(2)] wsmux_inv_core [OF s] s that(1)
    unfolding wsmux_inv_def wsmux_handleSession_def by blast
  show "t = snd (wsmux_Restart s) \<Longrightarrow> wsmux_inv t"
    using s by (simp add: wsmux_Restart_def wsmux_inv_def core_inv_def chan)
qed

lemma wsmux_reachable_inv: "wsmux_reachable config s \<Longrightarrow> wsmux_inv s"
proof (induction rule: wsmux_reachable.induct)
  case start
  show ?case by (simp add: NewWSMuxServer_def wsmux_inv_def core_inv_def chan)
next
  case (step s t)
  from wsmux_step_inv [OF step(2,3)] show ?case .
qed

section \<open>Properties\<close>

definition demo_wsmux_config :: WsMuxConfig where
  "demo_wsmux_config = \<lparr>wm_BindAddr = '':3080'', wm_Token = ''musix'', wm_SnifferLog = [], wm_TLSCertFile = [],
     wm_TLSKeyFile = [], wm_TunnelStatus = [], wm_Ports = [''80''], wm_Nodelay = True, wm_Sniffer = False,
     wm_KeepAlive = 75 * Second, wm_Heartbeat = 40 * Second, wm_ChannelSize = 2, wm_MuxCon = 8,
     wm_MuxVersion = 2, wm_MaxFrameSize = 32768, wm_MaxReceiveBuffer = 4194304, wm_MaxStreamBuffer = 65536,
     wm_WebPort = 0, wm_Mode = ''wsmux'', wm_TCPCopyBuffer = 16384\<rparr>"

text \<open>In every reachable state of the multiplexed websocket server, connections offered to it are
  queued once, in order, or refused, none without a control channel; its queues are within
  their capacity, and no session holds more slots than \<^verbatim>\<open>mux_con\<close>.\<close>

theorem wsmux_server_contract:
  assumes "wsmux_reachable config s" and "offer_all (mux_offer wm_muxCon) qs s = (a, r, t)"
  shows "ch_buf (mx_localChannel t) = ch_buf (mx_localChannel s) @ map local_of a
    \<and> mset a + mset r = mset qs \<and> (wm_controlChannel s = None \<longrightarrow> a = [])
    \<and> length (ch_buf (mx_localChannel t)) \<le> nat (wm_ChannelSize (wm_config s))
    \<and> list_all (\<lambda>h. sh_streams h \<le> sh_slots h \<and> (sh_slots h = 0 \<or> int (sh_slots h) \<le> wm_MuxCon (wm_config s)))
        (mx_handlers s)"
proof -
  have i: "wsmux_inv s" using assms(1) by (rule wsmux_reachable_inv)
  then have "mux_IsReady s \<longleftrightarrow> wm_controlChannel s \<noteq> None"
    "ch_cap (mx_localChannel s) = nat (wm_ChannelSize (wm_config s))"
    "length (ch_buf (mx_localChannel s)) \<le> nat (wm_ChannelSize (wm_config s))"
    by (auto simp: wsmux_inv_def core_inv_def chan_ok_def mux_IsReady_def)
  moreover have "list_all (\<lambda>h. sh_streams h \<le> sh_slots h
      \<and> (sh_slots h = 0 \<or> int (sh_slots h) \<le> wm_MuxCon (wm_config s))) (mx_handlers s)"
    using i by (auto simp: wsmux_inv_def core_inv_def handler_ok_def list_all_iff)
  ultimately show ?thesis using wsmux_target.offers_split [OF assms(2)] by auto
qed

theorem wsmux_server_contract_witness:
  "fst (offer_all (mux_offer wm_muxCon) [(0, demo_socket, ''443'', 443)] (NewWSMuxServer demo_wsmux_config)) = []"
proof -
  let ?s = "NewWSMuxServer demo_wsmux_config"
  obtain a r t where o: "offer_all (mux_offer wm_muxCon) [(0, demo_socket, ''443'', 443)] ?s = (a, r, t)"
    by (metis prod.exhaust)
  have "wsmux_reachable demo_wsmux_config ?s" by (rule wsmux_reachable.start)
  from wsmux_server_contract [OF this o] o show ?thesis by (simp add: NewWSMuxServer_def)
qed

end
