(* ===== verification/Quic_Server.thy ===== *)
theory Quic_Server
  imports Tcp_Server
begin

text \<open>
  The QUIC server runtime, \<^verbatim>\<open>internal/server/transport/quic.go\<close>.  Connections and streams are
  those of a third-party library: a connection has a name and an address, what opening or
  accepting a stream returns is an argument.  The goroutines \<^verbatim>\<open>keepalive\<close> and \<^verbatim>\<open>handleSession\<close> are
  state machines; there may be several of each, and \<open>quic_step\<close> interleaves all.
\<close>

section \<open>State\<close>

record QuicConfig =
  qs_BindAddr :: string
  qs_TunnelStatus :: string
  qs_SnifferLog :: string
  qs_Token :: string
  qs_Ports :: "string list"
  qs_Nodelay :: bool
  qs_Sniffer :: bool
  qs_ChannelSize :: int
  qs_MuxCon :: int
  qs_WebPort :: int
  qs_KeepAlive :: Duration
  qs_Heartbeat :: Duration
  qs_TLSCertFile :: string
  qs_TLSKeyFile :: string
  qs_AllowMultiIP :: bool

record quic_conn =
  qc_id :: nat
  qc_ip :: string

text \<open>The goroutine of a session: its counter of streams, the streams still running, and where it
  waits.  \<open>QDraining\<close> is the loop that waits for the end of all its streams.\<close>

datatype quic_phase = QServing | QPutBack LocalTCPConn | QDraining | QReturned

record quic_session =
  qh_conn :: quic_conn
  qh_counter :: nat
  qh_running :: nat
  qh_phase :: quic_phase

text \<open>The goroutine \<^verbatim>\<open>keepalive\<close>: before its first statement, waiting for its stream, in its loop
  with its stream, and waiting in the loop for a stream to ping on.\<close>

datatype keeper = KStarted | KAccepting | KServing wire | KPinging wire

text \<open>\<open>qs_next\<close> tells whether \<^verbatim>\<open>handleTunConn\<close> waits for its channel \<^verbatim>\<open>next\<close>; \<open>qs_handshakes\<close> are the
  connections of the running \<^verbatim>\<open>channelHandshake\<close> goroutines, \<open>qs_keepers\<close> the
  running \<^verbatim>\<open>keepalive\<close> goroutines.\<close>

record QuicTransport =
  qs_config :: QuicConfig
  qs_tunnelChan :: "quic_conn chan"
  qs_localChan :: "LocalTCPConn chan"
  qs_getNewConnChan :: "unit chan"
  qs_controlChannel :: "quic_conn option"
  qs_coldStart :: bool
  qs_ready :: bool
  qs_next :: bool
  qs_handshakes :: "quic_conn list"
  qs_keepers :: "keeper list"
  qs_sessions :: "quic_session list"

datatype quic_effect =
  CloseQuic nat | CloseLocalQuic nat | QRestart | QPortConfigReader | QHandleTunConn | QKeepalive
| QRelay LocalTCPConn wire | QPanic

definition NewQuicServer :: "QuicConfig \<Rightarrow> QuicTransport" where
  "NewQuicServer config =
     \<lparr>qs_config = config,
      qs_tunnelChan = make_chan (nat (qs_ChannelSize config)),
      qs_localChan = make_chan (nat (qs_ChannelSize config)),
      qs_getNewConnChan = make_chan (nat (qs_ChannelSize config)),
      qs_controlChannel = None, qs_coldStart = True, qs_ready = False,
      qs_next = False, qs_handshakes = [], qs_keepers = [], qs_sessions = []\<rparr>"

text \<open>A restart starts no new \<^verbatim>\<open>handleTunConn\<close>: the next cold handshake does; the old one, if it
  waits for \<^verbatim>\<open>next\<close>, is not counted any more.\<close>

definition quic_Restart :: "QuicTransport \<Rightarrow> QuicTransport" where
  "quic_Restart s =
     s\<lparr>qs_tunnelChan := make_chan (nat (qs_ChannelSize (qs_config s))),
       qs_getNewConnChan := make_chan (nat (qs_ChannelSize (qs_config s))),
       qs_localChan := make_chan (nat (qs_ChannelSize (qs_config s))),
       qs_controlChannel := None, qs_ready := False,
       qs_config := (qs_config s)\<lparr>qs_TunnelStatus := ''''\<rparr>,
       qs_coldStart := True\<rparr>"

definition quic_TunnelListener :: "QuicTransport \<Rightarrow> goroutine list \<times> QuicTransport" where
  "quic_TunnelListener s =
     ((if qs_WebPort (qs_config s) > 0 then [UsageMonitor] else [])
        @ [TunnelListener (qs_BindAddr (qs_config s))],
      s\<lparr>qs_config := (qs_config s)\<lparr>qs_TunnelStatus := ''Disconnected (QUIC)''\<rparr>\<rparr>)"

section \<open>Handshake and tunnel connections\<close>

text \<open>The exchange on the stream that \<^verbatim>\<open>AcceptStream\<close> returned; \<open>deadline_ok\<close> is the result of
  \<^verbatim>\<open>SetReadDeadline\<close>.\<close>

definition quic_exchange :: "bool \<Rightarrow> string \<Rightarrow> wire option \<Rightarrow> wire option" where
  "quic_exchange deadline_ok token accepted =
     (case accepted of
        None \<Rightarrow> None
      | Some stream \<Rightarrow>
          if \<not> deadline_ok then None else
          (case ReceiveBinaryString stream of
             (Inl _, _) \<Rightarrow> None
           | (Inr msg, stream) \<Rightarrow>
               if msg \<noteq> token then None
               else (case SendBinaryString stream token of
                       (Some _, _) \<Rightarrow> None | (None, stream) \<Rightarrow> Some stream)))"

definition quic_channelHandshake ::
  "bool \<Rightarrow> wire option \<Rightarrow> quic_conn \<Rightarrow> QuicTransport \<Rightarrow> quic_effect list \<times> QuicTransport" where
  "quic_channelHandshake deadline_ok accepted qConn s =
     (case quic_exchange deadline_ok (qs_Token (qs_config s)) accepted of
        None \<Rightarrow> ([CloseQuic (qc_id qConn)], s)
      | Some _ \<Rightarrow>
          ((if qs_coldStart s then [QPortConfigReader, QHandleTunConn] else []) @ [QKeepalive],
           s\<lparr>qs_controlChannel := Some qConn, qs_ready := True,
             qs_next := (if qs_coldStart s then False else qs_next s),
             qs_keepers := qs_keepers s @ [KStarted],
             qs_config := (qs_config s)\<lparr>qs_TunnelStatus := ''Connected (QUIC)''\<rparr>\<rparr>))"

text \<open>A connection is dropped without being closed, starts a handshake, or is queued.\<close>

definition quic_acceptTunCon :: "quic_conn \<Rightarrow> QuicTransport \<Rightarrow> QuicTransport" where
  "quic_acceptTunCon conn s =
     (if \<not> qs_AllowMultiIP (qs_config s)
         \<and> (case qs_controlChannel s of None \<Rightarrow> False | Some c \<Rightarrow> qc_ip c \<noteq> qc_ip conn)
      then s
      else if qs_controlChannel s = None then s\<lparr>qs_handshakes := qs_handshakes s @ [conn]\<rparr>
      else (case try_send conn (qs_tunnelChan s) of
              (True, ch) \<Rightarrow> s\<lparr>qs_tunnelChan := ch\<rparr>
            | (False, _) \<Rightarrow> s))"

section \<open>Keepalive\<close>

datatype keepalive_event =
  KBegin | KAccept "wire option" | KDone | KNewConn | KTick | KPinged "wire option" | KTimeout
| KResult "char option"

text \<open>The end of the goroutine \<open>i\<close>, with the deferred reset of \<^verbatim>\<open>ready\<close>.\<close>

definition keepalive_exit :: "nat \<Rightarrow> QuicTransport \<Rightarrow> QuicTransport" where
  "keepalive_exit i s =
     s\<lparr>qs_ready := False, qs_keepers := take i (qs_keepers s) @ drop (Suc i) (qs_keepers s)\<rparr>"

definition keepalive_fail :: "nat \<Rightarrow> QuicTransport \<Rightarrow> QuicTransport" where
  "keepalive_fail i s = keepalive_exit i (s\<lparr>qs_controlChannel := None\<rparr>)"

text \<open>A turn of the goroutine \<open>i\<close>.  Accepting a stream from the control channel when there is none
  is a nil dereference, a panic.\<close>

definition quic_keepalive :: "nat \<Rightarrow> keepalive_event \<Rightarrow> QuicTransport \<Rightarrow> quic_effect list \<times> QuicTransport" where
  "quic_keepalive i ev s =
     (let goto = (\<lambda>k s. s\<lparr>qs_keepers := (qs_keepers s)[i := k]\<rparr>) in
      case qs_keepers s ! i of
        KStarted \<Rightarrow>
          (case ev of
             KBegin \<Rightarrow> if qs_controlChannel s = None then ([QPanic], s) else ([], goto KAccepting s)
           | _ \<Rightarrow> ([], s))
      | KAccepting \<Rightarrow>
          (case ev of
             KAccept None \<Rightarrow> ([QRestart], keepalive_exit i s)
           | KAccept (Some stream) \<Rightarrow> ([], goto (KServing stream) (s\<lparr>qs_coldStart := False\<rparr>))
           | _ \<Rightarrow> ([], s))
      | KServing stream \<Rightarrow>
          (case ev of
             KDone \<Rightarrow> ([], keepalive_exit i s)
           | KNewConn \<Rightarrow>
               (case try_recv (qs_getNewConnChan s) of
                  None \<Rightarrow> ([], s)
                | Some (_, ch) \<Rightarrow>
                    let s = s\<lparr>qs_getNewConnChan := ch\<rparr> in
                    (case SendBinaryByte stream SG_Chan of
                       (Some _, _) \<Rightarrow> ([], keepalive_fail i s)
                     | (None, stream) \<Rightarrow> ([], goto (KServing stream) s)))
           | KTick \<Rightarrow> if qs_controlChannel s = None then ([QPanic], s) else ([], goto (KPinging stream) s)
           | KTimeout \<Rightarrow> ([], keepalive_fail i s)
           | KResult r \<Rightarrow>
               (case r of
                  None \<Rightarrow> ([], keepalive_fail i s)
                | Some message \<Rightarrow>
                    if message = SG_HB then ([], s)
                    else if message = SG_Closed then ([], keepalive_fail i s)
                    else ([], keepalive_fail i s))
           | _ \<Rightarrow> ([], s))
      | KPinging stream \<Rightarrow>
          (case ev of
             KPinged None \<Rightarrow> ([QRestart], keepalive_exit i s)
           | KPinged (Some streamtest) \<Rightarrow>
               (case SendBinaryByte streamtest SG_HB of
                  (Some _, _) \<Rightarrow> ([], keepalive_fail i s)
                | (None, _) \<Rightarrow> ([], goto (KServing stream) s))
           | _ \<Rightarrow> ([], s)))"

section \<open>Local connections\<close>

definition quic_IsReady :: "QuicTransport \<Rightarrow> bool" where
  "quic_IsReady s = qs_ready s"

definition quic_enqueueInbound :: "int \<Rightarrow> socket \<Rightarrow> string \<Rightarrow> int \<Rightarrow> QuicTransport \<Rightarrow> bool \<times> QuicTransport" where
  "quic_enqueueInbound now conn target reportPort s =
     (case try_send \<lparr>lc_conn = conn, lc_remoteAddr = target, lc_timeCreated = now,
                      lc_reportPort = reportPort\<rparr> (qs_localChan s) of
        (True, ch) \<Rightarrow> (True, s\<lparr>qs_localChan := ch\<rparr>)
      | (False, _) \<Rightarrow> (False, s))"

definition quic_EnqueueInbound :: "int \<Rightarrow> socket \<Rightarrow> string \<Rightarrow> int \<Rightarrow> QuicTransport \<Rightarrow> bool \<times> QuicTransport" where
  "quic_EnqueueInbound now conn target reportPort s =
     (if \<not> qs_ready s then (False, s) else quic_enqueueInbound now conn target reportPort s)"

definition quic_acceptLocalCon :: "int \<Rightarrow> socket \<Rightarrow> string \<Rightarrow> QuicTransport \<Rightarrow> quic_effect list \<times> QuicTransport" where
  "quic_acceptLocalCon now conn remoteAddr s =
     (if sk_port conn = None then ([CloseLocalQuic (sk_id conn)], s)
      else case quic_enqueueInbound now conn remoteAddr 0 s of
        (True, s) \<Rightarrow> ([], s)
      | (False, s) \<Rightarrow> ([CloseLocalQuic (sk_id conn)], s))"

text \<open>\<^verbatim>\<open>portConfigReader\<close>, one turn of its loop and the loop.\<close>

definition quic_portMapping :: "string \<Rightarrow> fatal + string \<times> string" where
  "quic_portMapping portMapping =
     (let parts = Split CHR ''='' portMapping in
      if length parts < 2 then
        (case Atoi (parts ! 0) of
           None \<Rightarrow> Inl (FatalMapping portMapping)
         | Some port \<Rightarrow> Inr (listen_at port, TrimSpace (Itoa port)))
      else
        let localAddr = TrimSpace (parts ! 0) in
        Inr (if Atoi localAddr \<noteq> None then CHR '':'' # localAddr else localAddr, TrimSpace (parts ! 1)))"

fun quic_portConfigReader :: "string list \<Rightarrow> goroutine list \<times> fatal option" where
  "quic_portConfigReader [] = ([], None)"
| "quic_portConfigReader (portMapping # ports) =
     (case quic_portMapping portMapping of
        Inl e \<Rightarrow> ([], Some e)
      | Inr (localAddr, remoteAddr) \<Rightarrow>
          (case quic_portConfigReader ports of
             (gs, e) \<Rightarrow> (LocalListener localAddr remoteAddr # gs, e)))"

section \<open>Sessions\<close>

definition quic_handleTunConn :: "QuicTransport \<Rightarrow> QuicTransport" where
  "quic_handleTunConn s =
     (if qs_next s then s else
      case try_recv (qs_tunnelChan s) of
        None \<Rightarrow> s
      | Some (tunConn, ch) \<Rightarrow>
          s\<lparr>qs_tunnelChan := ch, qs_next := True,
            qs_sessions := qs_sessions s
              @ [\<lparr>qh_conn = tunConn, qh_counter = 0, qh_running = 0, qh_phase = QServing\<rparr>]\<rparr>)"

datatype quic_event = QDone | QTake "wire option" | QPut | QStreamEnd

text \<open>A step of the goroutine of a session; a stream that ends sends to the channel \<^verbatim>\<open>done\<close>.\<close>

definition quic_handleSession :: "quic_event \<Rightarrow> quic_session \<Rightarrow> QuicTransport
    \<Rightarrow> quic_effect list \<times> quic_session \<times> QuicTransport" where
  "quic_handleSession ev h s =
     (case ev of
        QDone \<Rightarrow> if qh_phase h = QServing then ([], h\<lparr>qh_phase := QReturned\<rparr>, s) else ([], h, s)
      | QTake opened \<Rightarrow>
          if qh_phase h \<noteq> QServing then ([], h, s) else
          (case try_recv (qs_localChan s) of
             None \<Rightarrow> ([], h, s)
           | Some (incomingConn, ch) \<Rightarrow>
               let s = s\<lparr>qs_localChan := ch\<rparr> in
               (case opened of
                  None \<Rightarrow> ([CloseQuic (qc_id (qh_conn h))], h\<lparr>qh_phase := QPutBack incomingConn\<rparr>, s)
                | Some stream \<Rightarrow>
                    (case SendBinaryString stream (lc_remoteAddr incomingConn) of
                       (Some _, _) \<Rightarrow>
                         ([CloseQuic (qc_id (qh_conn h))], h\<lparr>qh_phase := QPutBack incomingConn\<rparr>, s)
                     | (None, stream) \<Rightarrow>
                         let h = h\<lparr>qh_running := qh_running h + 1, qh_counter := qh_counter h + 1\<rparr> in
                         if int (qh_counter h) = qs_MuxCon (qs_config s)
                         then ([QRelay incomingConn stream], h\<lparr>qh_phase := QDraining\<rparr>,
                               s\<lparr>qs_next := False,
                                 qs_getNewConnChan := snd (try_send () (qs_getNewConnChan s))\<rparr>)
                         else ([QRelay incomingConn stream], h, s))))
      | QPut \<Rightarrow>
          (case qh_phase h of
             QPutBack l \<Rightarrow>
               (case try_send l (qs_localChan s) of
                  (True, ch) \<Rightarrow> ([], h\<lparr>qh_phase := QReturned\<rparr>, s\<lparr>qs_localChan := ch, qs_next := False\<rparr>)
                | (False, _) \<Rightarrow> ([], h, s))
           | _ \<Rightarrow> ([], h, s))
      | QStreamEnd \<Rightarrow>
          if qh_running h = 0 then ([], h, s)
          else
            let h = h\<lparr>qh_running := qh_running h - 1\<rparr> in
            if qh_phase h = QDraining \<and> qh_running h = 0
            then ([CloseQuic (qc_id (qh_conn h))], h\<lparr>qh_phase := QReturned\<rparr>, s)
            else ([], h, s))"

definition quic_session_step :: "nat \<Rightarrow> quic_event \<Rightarrow> QuicTransport \<Rightarrow> quic_effect list \<times> QuicTransport" where
  "quic_session_step i ev s =
     (case quic_handleSession ev (qs_sessions s ! i) s of
        (es, h, s) \<Rightarrow> (es, s\<lparr>qs_sessions := (qs_sessions s)[i := h]\<rparr>))"

section \<open>The interleaving of the goroutines\<close>

inductive quic_step :: "QuicTransport \<Rightarrow> quic_effect list \<times> QuicTransport \<Rightarrow> bool" where
  "quic_step s ([], snd (quic_TunnelListener s))"
| "quic_step s ([], quic_acceptTunCon c s)"
| "c \<in> set (qs_handshakes s) \<Longrightarrow>
    quic_step s (quic_channelHandshake ok accepted c (s\<lparr>qs_handshakes := remove1 c (qs_handshakes s)\<rparr>))"
| "i < length (qs_keepers s) \<Longrightarrow> quic_step s (quic_keepalive i kev s)"
| "quic_step s (quic_acceptLocalCon now sk addr s)"
| "quic_step s ([], snd (quic_EnqueueInbound now sk addr port s))"
| "quic_step s ([], quic_handleTunConn s)"
| "i < length (qs_sessions s) \<Longrightarrow> quic_step s (quic_session_step i ev s)"
| "quic_step s ([], quic_Restart s)"

inductive quic_reachable :: "QuicConfig \<Rightarrow> QuicTransport \<Rightarrow> bool" for config where
  start: "quic_reachable config (NewQuicServer config)"
| step: "quic_reachable config s \<Longrightarrow> quic_step s (es, t) \<Longrightarrow> quic_reachable config t"

inductive_cases quic_stepE: "quic_step s (es, t)"

definition quic_enqueue_offer :: "offer \<Rightarrow> QuicTransport \<Rightarrow> bool \<times> QuicTransport" where
  "quic_enqueue_offer q s = (case q of (now, c, target, port) \<Rightarrow> quic_EnqueueInbound now c target port s)"

interpretation quic_target: inbound_target quic_IsReady quic_enqueue_offer
    "\<lambda>s. ch_buf (qs_localChan s)" "\<lambda>s. ch_cap (qs_localChan s)"
  by (rule inbound_targetI [where upd = "\<lambda>ch s. s\<lparr>qs_localChan := ch\<rparr>"])
    (auto simp: quic_enqueue_offer_def quic_EnqueueInbound_def quic_enqueueInbound_def quic_IsReady_def local_of_def)

end
