(* ===== verification/Quic_Spec.thy ===== *)
theory Quic_Spec
  imports Quic_Server Mux_Sessions_Spec
begin

text \<open>
  What the QUIC server promises: its reachable states, what its sessions do with local
  connections, how it reads the \<^verbatim>\<open>ports\<close> option, and how it comes to panic.
\<close>

section \<open>Port mappings\<close>

text \<open>A validated mapping that the QUIC runtime opens as it was validated.\<close>

definition quic_mapping :: "string \<Rightarrow> bool" where
  "quic_mapping m \<longleftrightarrow> CHR ''-'' \<notin> set (local_part m)
     \<and> (length (Split CHR ''='' m) \<ge> 2 \<or> Atoi (hd (Split CHR ''='' m)) \<noteq> None)"

lemma TrimSpace_mem: "c \<in> set s \<Longrightarrow> \<not> is_space c \<Longrightarrow> c \<in> set (TrimSpace s)"
proof -
  have d: "c \<in> set xs \<Longrightarrow> \<not> is_space c \<Longrightarrow> c \<in> set (dropWhile is_space xs)" for xs
    by (induction xs) auto
  assume "c \<in> set s" "\<not> is_space c"
  then show ?thesis by (simp add: TrimSpace_def d)
qed

lemma Atoi_Some_chars:
  assumes "Atoi s = Some v"
  shows "s \<noteq> []" and "\<forall>c \<in> set s. \<not> is_space c \<and> c \<notin> {CHR '':'', CHR ''['', CHR '']''}"
    and "CHR ''-'' \<notin> set (tl s)"
proof -
  let ?ok = "\<lambda>c. \<not> is_space c \<and> c \<notin> {CHR '':'', CHR ''['', CHR '']''}"
  have dig: "is_digit c \<Longrightarrow> ?ok c \<and> c \<noteq> CHR ''-''" for c
    by (auto simp: is_digit_def is_space_def)
  show s: "s \<noteq> []" using assms by (auto simp: Atoi_def Let_def)
  then obtain c cs where c: "s = c # cs" by (cases s) auto
  with assms have ds: "list_all is_digit cs" "c \<in> {CHR ''-'', CHR ''+''} \<or> is_digit c"
    by (auto simp: Atoi_def Let_def split: if_splits)
  then show "\<forall>c \<in> set s. ?ok c" using c dig by (auto simp: list_all_iff is_space_def)
  show "CHR ''-'' \<notin> set (tl s)" using c ds(1) dig by (auto simp: list_all_iff)
qed

lemma listens_on_colon:
  assumes "Atoi s = Some port" and "valid_port port"
  shows "listens_on (CHR '':'' # s) = Some ('''', port)"
proof -
  note A = Atoi_Some_chars [OF assms(1)]
  have "TrimSpace (CHR '':'' # s) = CHR '':'' # s"
    using A(1,2) by (intro TrimSpace_no_space) (simp add: list_all_iff is_space_def [of "CHR '':''"])
  moreover have "SplitHostPort (CHR '':'' # s) = Some ('''', s)"
    using SplitHostPort_plain [of "''''" s] A(2) by auto
  ultimately show ?thesis using assms by (simp add: listens_on_def parseHostPort_def)
qed

lemma range_no_single:
  assumes "portMappingListenAddrs m = Inr addrs" and "CHR ''-'' \<in> set (local_part m)"
  shows "Atoi (hd (Split CHR ''='' m)) = None" and "Atoi (local_part m) = None" and "CHR '':'' \<notin> set (local_part m)"
proof -
  from range_agrees [OF assms] obtain a b where s: "Split CHR ''-'' (local_part m) = [a, b]"
    and ab: "Atoi (TrimSpace a) \<noteq> None" "Atoi (TrimSpace b) \<noteq> None"
    by (auto simp: port_range_def split: list.splits option.splits if_splits)
  from split_at_first [OF assms(2)] obtain p q where pq: "local_part m = p @ CHR ''-'' # q" "CHR ''-'' \<notin> set p" by blast
  with s Split_append have "p = a" by fastforce
  then have "p \<noteq> []" using ab(1) Atoi_Some_chars(1) by fastforce
  with pq have tl: "CHR ''-'' \<in> set (tl (local_part m))" by (cases p) auto
  then show l: "Atoi (local_part m) = None" using Atoi_Some_chars(3) by (cases "Atoi (local_part m)") blast+
  show "Atoi (hd (Split CHR ''='' m)) = None"
  proof (cases "Atoi (hd (Split CHR ''='' m))")
    case (Some v)
    then have "local_part m = hd (Split CHR ''='' m)"
      using Atoi_Some_chars(2) [OF Some] by (intro TrimSpace_no_space) (simp add: list_all_iff)
    with Some l show ?thesis by simp
  qed
  have colon: "CHR '':'' \<notin> set c" if "Atoi (TrimSpace c) \<noteq> None" for c
    using that Atoi_no_colon [of "TrimSpace c"] TrimSpace_mem [of "CHR '':''" c] by (auto simp: is_space_def)
  have "CHR ''-'' \<notin> set q"
  proof
    assume "CHR ''-'' \<in> set q"
    then have "2 \<le> count_list (local_part m) CHR ''-''"
      unfolding pq(1) by (cases "count_list q CHR ''-''") (simp_all add: count_list_0_iff)
    with s length_Split [of "CHR ''-''" "local_part m"] show False by simp
  qed
  with s pq Split_append [of "CHR ''-''" p q] Split_no_sep [of "CHR ''-''" q] have "q = b" by simp
  with pq \<open>p = a\<close> colon ab show "CHR '':'' \<notin> set (local_part m)" by auto
qed

lemma quic_mapping_agrees:
  assumes "portMappingListenAddrs m = Inr addrs"
  shows "(\<exists>l r. quic_portMapping m = Inr (l, r) \<and> map Some addrs = [listens_on l]) \<longleftrightarrow> quic_mapping m"
proof (cases "CHR ''-'' \<in> set (local_part m)")
  case True
  note R = range_no_single [OF assms True]
  have "addrs \<noteq> []" using portMappingListenAddrs_ports [OF assms] by blast
  with R True show ?thesis
    by (auto simp: quic_portMapping_def quic_mapping_def Let_def listens_on_no_colon hd_conv_nth split: if_splits)
next
  case False
  note S = single_agrees [OF assms False]
  have trim: "local_part m = hd (Split CHR ''='' m)" if "Atoi (hd (Split CHR ''='' m)) = Some v" for v
    using Atoi_Some_chars(2) [OF that] by (intro TrimSpace_no_space) (simp add: list_all_iff)
  show ?thesis
  proof (cases "length (Split CHR ''='' m) < 2")
    case True
    with S False trim show ?thesis
      by (cases "Atoi (hd (Split CHR ''='' m))")
        (auto simp: quic_portMapping_def quic_mapping_def Let_def hd_conv_nth [symmetric])
  next
    case False
    with S \<open>CHR ''-'' \<notin> set (local_part m)\<close> show ?thesis
      by (auto simp: quic_portMapping_def quic_mapping_def Let_def hd_conv_nth [symmetric] listens_on_colon)
  qed
qed

lemma quic_mapping_fails:
  assumes "portMappingListenAddrs m = Inr addrs" and "\<not> quic_mapping m" and "quic_portMapping m = Inr (l, r)"
  shows "listens_on l = None"
proof (cases "CHR ''-'' \<in> set (local_part m)")
  case True
  from range_no_single [OF assms(1) True] assms(3) show ?thesis
    by (auto simp: quic_portMapping_def Let_def listens_on_no_colon hd_conv_nth split: if_splits)
next
  case False
  with assms(2,3) show ?thesis
    by (auto simp: quic_portMapping_def quic_mapping_def Let_def hd_conv_nth split: if_splits)
qed

fun listener_addr :: "goroutine \<Rightarrow> (string \<times> int) option" where
  "listener_addr (LocalListener l r) = listens_on l"
| "listener_addr _ = None"

lemma quic_reader_validated:
  "traverse portMappingListenAddrs ports = Inr addrss \<Longrightarrow> list_all quic_mapping ports \<Longrightarrow>
    \<exists>gs. quic_portConfigReader ports = (gs, None) \<and> map listener_addr gs = map Some (concat addrss)"
proof (induction ports arbitrary: addrss)
  case (Cons m ports)
  then obtain addrs rest where A: "portMappingListenAddrs m = Inr addrs"
      "traverse portMappingListenAddrs ports = Inr rest" "addrss = addrs # rest" by auto
  moreover obtain l r where "quic_portMapping m = Inr (l, r)" "map Some addrs = [listens_on l]"
    using quic_mapping_agrees [OF A(1)] Cons.prems by auto
  ultimately show ?case using Cons.IH [OF A(2)] Cons.prems by auto
qed simp

lemma quic_reader_fatal:
  "traverse portMappingListenAddrs ports = Inr addrss \<Longrightarrow> \<not> list_all quic_mapping ports \<Longrightarrow>
    snd (quic_portConfigReader ports) \<noteq> None \<or> None \<in> set (map listener_addr (fst (quic_portConfigReader ports)))"
proof (induction ports arbitrary: addrss)
  case (Cons m ports)
  then obtain addrs rest where A: "portMappingListenAddrs m = Inr addrs"
      "traverse portMappingListenAddrs ports = Inr rest" by auto
  show ?case
  proof (cases "quic_portMapping m")
    case (Inr p)
    then obtain l r where p: "quic_portMapping m = Inr (l, r)" by (cases p) auto
    show ?thesis
    proof (cases "quic_mapping m")
      case True
      with p Cons.IH [OF A(2)] Cons.prems show ?thesis by (auto split: prod.splits)
    next
      case False
      from quic_mapping_fails [OF A(1) False p] p show ?thesis by (simp split: prod.splits)
    qed
  qed simp
qed simp

text \<open>For a \<^verbatim>\<open>ports\<close> option that the validation accepts, the QUIC runtime opens all of it, on
  exactly the addresses the validation checked and in that order, if and only if no mapping is a
  range and every mapping without a target is a bare number; otherwise the process ends.\<close>

theorem quic_portConfigReader_opens_validated:
  assumes "traverse portMappingListenAddrs ports = Inr addrss"
  shows "(snd (quic_portConfigReader ports) = None
       \<and> map listener_addr (fst (quic_portConfigReader ports)) = map Some (concat addrss))
     \<longleftrightarrow> list_all quic_mapping ports"
  using quic_reader_validated [OF assms] quic_reader_fatal [OF assms] by fastforce

theorem quic_portConfigReader_opens_validated_witness:
  "map listener_addr (fst (quic_portConfigReader [''80=a:1'', ''443''])) = [Some ('''', 80), Some ('''', 443)]
   \<and> snd (quic_portConfigReader [''70-71'']) \<noteq> None"
proof -
  have T: "traverse portMappingListenAddrs [''80=a:1'', ''443''] = Inr [[('''', 80)], [('''', 443)]]"
    by (simp add: mapping_eval upto.simps)
  have "list_all quic_mapping [''80=a:1'', ''443'']"
    by (simp add: quic_mapping_def mapping_eval)
  moreover have "snd (quic_portConfigReader [''70-71'']) \<noteq> None"
    by (simp add: quic_portMapping_def mapping_eval)
  ultimately show ?thesis using quic_portConfigReader_opens_validated [OF T] by simp
qed


section \<open>Reachable states\<close>

definition quic_session_ok :: "int \<Rightarrow> quic_session \<Rightarrow> bool" where
  "quic_session_ok m h \<longleftrightarrow> qh_running h \<le> qh_counter h
     \<and> (0 < m \<longrightarrow> int (qh_counter h) \<le> m \<and> (qh_phase h = QServing \<longrightarrow> int (qh_counter h) < m))"

definition quic_inv :: "QuicTransport \<Rightarrow> bool" where
  "quic_inv s \<longleftrightarrow> (qs_ready s \<longrightarrow> qs_controlChannel s \<noteq> None)
     \<and> (let n = nat (qs_ChannelSize (qs_config s)) in
        chan_ok n (qs_tunnelChan s) \<and> chan_ok n (qs_localChan s) \<and> chan_ok n (qs_getNewConnChan s))
     \<and> list_all (quic_session_ok (qs_MuxCon (qs_config s))) (qs_sessions s)"

lemmas quic_inv_simps = quic_inv_def Let_def

lemma quic_inv_fields [simp]:
  "quic_inv (s\<lparr>qs_next := b\<rparr>) = quic_inv s" "quic_inv (s\<lparr>qs_keepers := ks\<rparr>) = quic_inv s"
  "quic_inv (s\<lparr>qs_handshakes := hs\<rparr>) = quic_inv s" "quic_inv (s\<lparr>qs_coldStart := b\<rparr>) = quic_inv s"
  by (simp_all add: quic_inv_simps)

lemma keepalive_exit_inv: "quic_inv s \<Longrightarrow> quic_inv (keepalive_exit i s)" "quic_inv s \<Longrightarrow> quic_inv (keepalive_fail i s)"
  by (simp_all add: keepalive_exit_def keepalive_fail_def quic_inv_simps)

text \<open>The outcomes of a turn of \<^verbatim>\<open>keepalive\<close>.\<close>

lemma quic_keepalive_cases:
  assumes "quic_keepalive i ev s = (es, t)"
  obtains (goto) k b where "t = s\<lparr>qs_coldStart := b, qs_keepers := (qs_keepers s)[i := k]\<rparr>" "es = []"
  | (idle) "t = s" "es = []"
  | (panic) "t = s" "es = [QPanic]" "qs_controlChannel s = None"
  | (exit) "t = keepalive_exit i s"
  | (failed) "t = keepalive_fail i s" "es = []"
  | (signal) x ch k where "try_recv (qs_getNewConnChan s) = Some (x, ch)"
      "t = s\<lparr>qs_getNewConnChan := ch, qs_keepers := (qs_keepers s)[i := k]\<rparr>" "es = []"
  | (signal_failed) x ch where "try_recv (qs_getNewConnChan s) = Some (x, ch)"
      "t = keepalive_fail i (s\<lparr>qs_getNewConnChan := ch\<rparr>)" "es = []"
proof (cases "qs_keepers s ! i")
  case KStarted
  with assms show thesis using that(1) [where k = KAccepting and b = "qs_coldStart s"] that(2,3)
    by (cases ev) (simp_all add: quic_keepalive_def split: if_splits)
next
  case KAccepting
  show thesis
  proof (cases ev)
    case (KAccept a)
    with KAccepting assms show thesis using that(1) [where k = "KServing (the a)" and b = False] that(4)
      by (cases a) (simp_all add: quic_keepalive_def)
  qed (use KAccepting assms that(2) in \<open>simp_all add: quic_keepalive_def\<close>)
next
  case (KServing stream)
  note S = assms [unfolded quic_keepalive_def Let_def, simplified KServing]
  show thesis
  proof (cases ev)
    case KNewConn
    show thesis
    proof (cases "try_recv (qs_getNewConnChan s)")
      case None
      with S KNewConn show thesis using that(2) by simp
    next
      case r: (Some p)
      obtain x ch where p: "p = (x, ch)" by (cases p)
      obtain e w where w: "SendBinaryByte stream SG_Chan = (e, w)" by (metis prod.exhaust)
      show thesis
      proof (cases e)
        case None
        with S KNewConn r p w show thesis using that(6) [where x = x and ch = ch and k = "KServing w"] by simp
      next
        case (Some y)
        with S KNewConn r p w show thesis using that(7) [where x = x and ch = ch] by simp
      qed
    qed
  next
    case KTick
    with S show thesis using that(1) [where k = "KPinging stream" and b = "qs_coldStart s"] that(3) by (simp split: if_splits)
  next
    case (KResult r)
    with S show thesis using that(2,5) by (cases r) (simp_all split: if_splits)
  qed (use S that(2,4,5) in simp_all)
next
  case (KPinging stream)
  show thesis
  proof (cases ev)
    case (KPinged a)
    show thesis
    proof (cases a)
      case None
      with KPinging KPinged assms show thesis using that(4) by (simp add: quic_keepalive_def)
    next
      case (Some w)
      obtain e w' where w: "SendBinaryByte w SG_HB = (e, w')" by (metis prod.exhaust)
      with Some KPinging KPinged assms show thesis
        using that(1) [where k = "KServing stream" and b = "qs_coldStart s"] that(5)
        by (cases e) (simp_all add: quic_keepalive_def)
    qed
  qed (use KPinging assms that(2) in \<open>simp_all add: quic_keepalive_def\<close>)
qed

lemma quic_keepalive_inv:
  assumes k: "quic_keepalive i ev s = (es, t)" and s: "quic_inv s"
  shows "quic_inv t"
proof -
  have "try_recv (qs_getNewConnChan s) = Some (x, ch) \<Longrightarrow> quic_inv (s\<lparr>qs_getNewConnChan := ch\<rparr>)" for x ch
    using s by (auto simp: quic_inv_simps intro: chan)
  with k s show ?thesis by (cases rule: quic_keepalive_cases) (simp_all add: keepalive_exit_inv)
qed

text \<open>The outcomes of a step of a session.\<close>

lemma quic_handleSession_cases:
  assumes "quic_handleSession ev h s = (es, h', s')"
  obtains (idle) "es = []" "h' = h" "s' = s"
  | (finished) "qh_phase h = QServing" "es = []" "h' = h\<lparr>qh_phase := QReturned\<rparr>" "s' = s"
  | (failed) l ch where "qh_phase h = QServing" "try_recv (qs_localChan s) = Some (l, ch)"
      "es = [CloseQuic (qc_id (qh_conn h))]" "h' = h\<lparr>qh_phase := QPutBack l\<rparr>" "s' = s\<lparr>qs_localChan := ch\<rparr>"
  | (relayed) l ch stream where "qh_phase h = QServing" "try_recv (qs_localChan s) = Some (l, ch)"
      "es = [QRelay l stream]" "int (qh_counter h + 1) \<noteq> qs_MuxCon (qs_config s)"
      "h' = h\<lparr>qh_running := qh_running h + 1, qh_counter := qh_counter h + 1\<rparr>" "s' = s\<lparr>qs_localChan := ch\<rparr>"
  | (filled) l ch stream where "qh_phase h = QServing" "try_recv (qs_localChan s) = Some (l, ch)"
      "es = [QRelay l stream]" "int (qh_counter h + 1) = qs_MuxCon (qs_config s)"
      "h' = h\<lparr>qh_running := qh_running h + 1, qh_counter := qh_counter h + 1, qh_phase := QDraining\<rparr>"
      "s' = s\<lparr>qs_localChan := ch, qs_next := False, qs_getNewConnChan := snd (try_send () (qs_getNewConnChan s))\<rparr>"
  | (putback) l ch where "qh_phase h = QPutBack l" "try_send l (qs_localChan s) = (True, ch)" "es = []"
      "h' = h\<lparr>qh_phase := QReturned\<rparr>" "s' = s\<lparr>qs_localChan := ch, qs_next := False\<rparr>"
  | (ended) "qh_running h > 0" "es = []" "h' = h\<lparr>qh_running := qh_running h - 1\<rparr>" "s' = s"
  | (drained) "qh_running h > 0" "qh_phase h = QDraining" "es = [CloseQuic (qc_id (qh_conn h))]"
      "h' = h\<lparr>qh_running := qh_running h - 1, qh_phase := QReturned\<rparr>" "s' = s"
proof (cases ev)
  case QDone
  show thesis
  proof (cases "qh_phase h = QServing")
    case True
    with assms QDone show thesis by (intro that(2)) (simp_all add: quic_handleSession_def)
  next
    case False
    with assms QDone show thesis by (intro that(1)) (simp_all add: quic_handleSession_def)
  qed
next
  case (QTake opened)
  note S = assms [unfolded quic_handleSession_def QTake]
  show thesis
  proof (cases "qh_phase h = QServing \<and> try_recv (qs_localChan s) \<noteq> None")
    case True
    then obtain l ch where l: "qh_phase h = QServing" "try_recv (qs_localChan s) = Some (l, ch)" by auto
    show thesis
    proof (cases opened)
      case None
      with S l show thesis by (intro that(3) [of l ch]) (simp_all add: Let_def)
    next
      case (Some stream)
      obtain e w where w: "SendBinaryString stream (lc_remoteAddr l) = (e, w)" by (metis prod.exhaust)
      show thesis
      proof (cases e)
        case None
        show thesis
        proof (cases "int (qh_counter h + 1) = qs_MuxCon (qs_config s)")
          case True
          with S l Some w None show thesis by (intro that(5) [of l ch w]) (simp_all add: Let_def)
        next
          case False
          with S l Some w None show thesis by (intro that(4) [of l ch w]) (simp_all add: Let_def)
        qed
      next
        case (Some x)
        with S l \<open>opened = Some stream\<close> w show thesis by (intro that(3) [of l ch]) (simp_all add: Let_def)
      qed
    qed
  next
    case False
    with S show thesis by (intro that(1)) (auto split: if_splits option.splits)
  qed
next
  case QPut
  show thesis
  proof (cases "\<exists>l ch. qh_phase h = QPutBack l \<and> try_send l (qs_localChan s) = (True, ch)")
    case True
    then obtain l ch where "qh_phase h = QPutBack l" "try_send l (qs_localChan s) = (True, ch)" by auto
    with assms QPut show thesis by (intro that(6) [of l ch]) (simp_all add: quic_handleSession_def)
  next
    case False
    with assms QPut show thesis
      by (intro that(1)) (auto simp: quic_handleSession_def split: quic_phase.splits prod.splits bool.splits)
  qed
next
  case QStreamEnd
  note S = assms [unfolded quic_handleSession_def QStreamEnd]
  consider "qh_running h = 0" | "qh_running h > 0" "qh_phase h = QDraining \<and> qh_running h - 1 = 0"
    | "qh_running h > 0" "\<not> (qh_phase h = QDraining \<and> qh_running h - 1 = 0)" by auto
  then show thesis
  proof cases
    case 1
    with S show thesis by (intro that(1)) simp_all
  next
    case 2
    with S show thesis by (intro that(8)) (simp_all add: Let_def)
  next
    case 3
    with S show thesis by (intro that(7)) (auto simp: Let_def split: if_splits)
  qed
qed

lemma quic_handleSession_ok:
  assumes "quic_handleSession ev h s = (es, h', s')" and "quic_inv s"
    and "quic_session_ok (qs_MuxCon (qs_config s)) h"
  shows "quic_session_ok (qs_MuxCon (qs_config s)) h' \<and> quic_inv s' \<and> qs_config s' = qs_config s
    \<and> qs_sessions s' = qs_sessions s"
proof -
  have recv: "try_recv (qs_localChan s) = Some (l, ch) \<Longrightarrow> quic_inv (s\<lparr>qs_localChan := ch\<rparr>)
      \<and> quic_inv (s\<lparr>qs_localChan := ch, qs_next := False,
          qs_getNewConnChan := snd (try_send () (qs_getNewConnChan s))\<rparr>)" for l ch
    using assms(2) by (auto simp: quic_inv_simps intro: chan chan_ok_send [OF surjective_pairing])
  have snd: "try_send l (qs_localChan s) = (ok, ch) \<Longrightarrow> quic_inv (s\<lparr>qs_localChan := ch, qs_next := b\<rparr>)" for l ok ch b
    using assms(2) by (auto simp: quic_inv_simps intro: chan)
  from assms(1) show ?thesis
    by (cases rule: quic_handleSession_cases)
      (use assms(2,3) recv snd in \<open>auto simp: quic_session_ok_def\<close>)
qed

section \<open>Steps\<close>

lemma quic_inv_enqueue: "quic_enqueueInbound now c tg p s = (ok, t) \<Longrightarrow> quic_inv s \<Longrightarrow> quic_inv t"
  by (auto simp: quic_enqueueInbound_def quic_inv_simps split: prod.splits bool.splits intro: chan)

lemma quic_inv_session:
  assumes "quic_session_step i ev s = (es, t)" and "i < length (qs_sessions s)" and "quic_inv s"
  shows "quic_inv t"
proof -
  obtain h' s' where st: "quic_handleSession ev (qs_sessions s ! i) s = (es, h', s')"
    "t = s'\<lparr>qs_sessions := (qs_sessions s')[i := h']\<rparr>"
    using assms(1) by (auto simp: quic_session_step_def split: prod.splits)
  have "quic_session_ok (qs_MuxCon (qs_config s)) (qs_sessions s ! i)"
    using assms(2,3) by (simp add: quic_inv_def list_all_length)
  with quic_handleSession_ok [OF st(1) assms(3)] assms(2) st(2) show ?thesis
    by (auto simp: quic_inv_simps list_all_length nth_list_update)
qed

lemma quic_step_inv: "quic_step s (es, t) \<Longrightarrow> quic_inv s \<Longrightarrow> quic_inv t"
proof (erule quic_stepE)
  assume s: "quic_inv s"
  show "t = snd (quic_TunnelListener s) \<Longrightarrow> quic_inv t"
    using s by (simp add: quic_TunnelListener_def quic_inv_simps)
  show "t = quic_acceptTunCon c s \<Longrightarrow> quic_inv t" for c
    using s by (auto simp: quic_acceptTunCon_def quic_inv_simps split: if_splits prod.splits bool.splits intro: chan)
  show "(es, t) = quic_channelHandshake ok accepted c (s\<lparr>qs_handshakes := remove1 c (qs_handshakes s)\<rparr>)
      \<Longrightarrow> quic_inv t" for ok accepted c
    using s by (auto simp: quic_channelHandshake_def quic_inv_simps split: option.splits)
  show "(es, t) = quic_keepalive i kev s \<Longrightarrow> quic_inv t" for i kev
    using s quic_keepalive_inv by metis
  show "(es, t) = quic_acceptLocalCon now sk addr s \<Longrightarrow> quic_inv t" for now sk addr
    using s by (auto simp: quic_acceptLocalCon_def quic_inv_enqueue split: if_splits prod.splits bool.splits)
  show "t = snd (quic_EnqueueInbound now sk addr port s) \<Longrightarrow> quic_inv t" for now sk addr port
    using s quic_inv_enqueue [OF surjective_pairing] by (auto simp: quic_EnqueueInbound_def)
  show "t = quic_handleTunConn s \<Longrightarrow> quic_inv t"
    using s by (auto simp: quic_handleTunConn_def quic_inv_simps quic_session_ok_def split: option.splits intro: chan)
  show "(es, t) = quic_session_step i ev s \<Longrightarrow> i < length (qs_sessions s) \<Longrightarrow> quic_inv t" for i ev
    using s quic_inv_session by metis
  show "t = quic_Restart s \<Longrightarrow> quic_inv t"
    using s by (simp add: quic_Restart_def quic_inv_simps chan)
qed

lemma quic_reachable_inv: "quic_reachable config s \<Longrightarrow> quic_inv s"
proof (induction rule: quic_reachable.induct)
  case start
  show ?case by (simp add: NewQuicServer_def quic_inv_simps chan)
next
  case (step s es t)
  from quic_step_inv [OF step(2,3)] show ?case .
qed

section \<open>Sessions\<close>

definition quic_queued :: "QuicTransport \<Rightarrow> nat multiset" where
  "quic_queued s = mset (map conn_id (ch_buf (qs_localChan s)))"

definition quic_hand :: "quic_session \<Rightarrow> nat multiset" where
  "quic_hand h = (case qh_phase h of QPutBack l \<Rightarrow> {#conn_id l#} | _ \<Rightarrow> {#})"

fun quic_relayed :: "quic_effect list \<Rightarrow> nat multiset" where
  "quic_relayed [] = {#}"
| "quic_relayed (QRelay l _ # es) = {#conn_id l#} + quic_relayed es"
| "quic_relayed (_ # es) = quic_relayed es"

lemma quic_relayed_append: "quic_relayed (es @ fs) = quic_relayed es + quic_relayed fs"
  by (induction es rule: quic_relayed.induct) auto

lemma quic_handleSession_settles:
  assumes "quic_handleSession ev h s = (es, h', s')"
  shows "quic_queued s + quic_hand h = quic_queued s' + quic_hand h' + quic_relayed es
    \<and> qs_sessions s' = qs_sessions s"
proof -
  have recv: "mset (map conn_id (ch_buf c)) = mset (map conn_id (ch_buf d)) + {#conn_id l#}"
    if "try_recv c = Some (l, d)" for c d and l :: LocalTCPConn
    using go_chan.recv_some [OF that] by simp
  have snd: "mset (map conn_id (ch_buf d)) = mset (map conn_id (ch_buf c)) + {#conn_id l#}"
    if "try_send l c = (True, d)" for c d and l :: LocalTCPConn
    using go_chan.send_ok [OF that] by simp
  from assms show ?thesis
    by (cases rule: quic_handleSession_cases)
      (auto simp: quic_queued_def quic_hand_def split: quic_phase.split dest!: recv snd)
qed

abbreviation quic_run :: "(nat \<times> quic_event) list \<Rightarrow> QuicTransport \<Rightarrow> quic_effect list \<times> QuicTransport" where
  "quic_run \<equiv> pool_run quic_handleSession qs_sessions (\<lambda>hs s. s\<lparr>qs_sessions := hs\<rparr>)"

interpretation quic_pool: session_pool quic_handleSession qs_sessions "\<lambda>hs s. s\<lparr>qs_sessions := hs\<rparr>"
    quic_queued quic_hand quic_relayed
  using quic_handleSession_settles quic_relayed_append
  by unfold_locales (blast | simp add: quic_queued_def)+

section \<open>Properties\<close>

definition demo_quic_config :: QuicConfig where
  "demo_quic_config = \<lparr>qs_BindAddr = '':3080'', qs_TunnelStatus = [], qs_SnifferLog = [], qs_Token = ''musix'',
     qs_Ports = [''80''], qs_Nodelay = True, qs_Sniffer = False, qs_ChannelSize = 2, qs_MuxCon = 8,
     qs_WebPort = 0, qs_KeepAlive = 75 * Second, qs_Heartbeat = 40 * Second, qs_TLSCertFile = [],
     qs_TLSKeyFile = [], qs_AllowMultiIP = False\<rparr>"

text \<open>In every reachable state of the QUIC server, connections offered to it are queued once, in
  order, or refused, none without a control connection; its queue is within its capacity, and a
  session never opens more than \<^verbatim>\<open>mux_con\<close> streams.\<close>

theorem quic_server_contract:
  assumes "quic_reachable config s" and "offer_all quic_enqueue_offer qs s = (a, r, t)"
  shows "ch_buf (qs_localChan t) = ch_buf (qs_localChan s) @ map local_of a
    \<and> mset a + mset r = mset qs \<and> (qs_controlChannel s = None \<longrightarrow> a = [])
    \<and> length (ch_buf (qs_localChan t)) \<le> nat (qs_ChannelSize (qs_config s))
    \<and> list_all (\<lambda>h. qh_running h \<le> qh_counter h
          \<and> (0 < qs_MuxCon (qs_config s) \<longrightarrow> int (qh_counter h) \<le> qs_MuxCon (qs_config s))) (qs_sessions s)"
proof -
  have i: "quic_inv s" using assms(1) by (rule quic_reachable_inv)
  then have "quic_IsReady s \<Longrightarrow> qs_controlChannel s \<noteq> None"
    "ch_cap (qs_localChan s) = nat (qs_ChannelSize (qs_config s))"
    "length (ch_buf (qs_localChan s)) \<le> nat (qs_ChannelSize (qs_config s))"
    by (auto simp: quic_inv_simps chan_ok_def quic_IsReady_def)
  moreover have "list_all (\<lambda>h. qh_running h \<le> qh_counter h
      \<and> (0 < qs_MuxCon (qs_config s) \<longrightarrow> int (qh_counter h) \<le> qs_MuxCon (qs_config s))) (qs_sessions s)"
    using i by (auto simp: quic_inv_simps quic_session_ok_def list_all_iff)
  ultimately show ?thesis using quic_target.offers_split [OF assms(2)] by auto
qed

theorem quic_server_contract_witness:
  "fst (offer_all quic_enqueue_offer [(0, demo_socket, ''443'', 443)] (NewQuicServer demo_quic_config)) = []"
proof -
  let ?s = "NewQuicServer demo_quic_config"
  obtain a r t where o: "offer_all quic_enqueue_offer [(0, demo_socket, ''443'', 443)] ?s = (a, r, t)"
    by (metis prod.exhaust)
  have "quic_reachable demo_quic_config ?s" by (rule quic_reachable.start)
  from quic_server_contract [OF this o] o show ?thesis by (simp add: NewQuicServer_def)
qed

text \<open>The QUIC sessions lose no local connection: whatever their goroutines do, in any
  interleaving, every connection that was queued or in a goroutine's hand is afterwards still
  there, or is relayed over a stream, exactly once.\<close>

theorem quic_sessions_conserve:
  assumes "quic_run evs s = (es, t)"
  shows "quic_queued s + sum_list (map quic_hand (qs_sessions s))
    = quic_queued t + sum_list (map quic_hand (qs_sessions t)) + quic_relayed es"
  using assms by (rule quic_pool.run_settles)

definition demo_quic :: QuicTransport where
  "demo_quic = (NewQuicServer demo_quic_config)\<lparr>
     qs_localChan := \<lparr>ch_buf = [demo_local], ch_cap = 2\<rparr>, qs_next := True,
     qs_sessions := [\<lparr>qh_conn = \<lparr>qc_id = 1, qc_ip = ''1.2.3.4''\<rparr>, qh_counter = 0, qh_running = 0, qh_phase = QServing\<rparr>]\<rparr>"

theorem quic_sessions_conserve_witness:
  "quic_relayed (fst (quic_run [(0, QTake (Some (fresh_wire [])))] demo_quic)) = {#7#}"
proof -
  obtain es t where r: "quic_run [(0, QTake (Some (fresh_wire [])))] demo_quic = (es, t)" by fastforce
  note D = demo_quic_def NewQuicServer_def demo_local_def demo_socket_def conn_id_def quic_queued_def quic_hand_def
  have "\<exists>w. SendBinaryString (fresh_wire []) ''443'' = (None, w)"
    by (simp add: SendBinaryString_def send_usable usable_def fresh_wire_def)
  then have "quic_queued t = {#} \<and> sum_list (map quic_hand (qs_sessions t)) = {#}" using r
    by (auto simp: D pool_turn_def quic_handleSession_def try_recv_def Let_def demo_quic_config_def)
  with quic_sessions_conserve [OF r] r show ?thesis by (simp add: D)
qed




end
