(* ===== verification/Payload.thy ===== *)
theory Payload
  imports Inbound
begin

text \<open>
  The payload channels of UDP connections (\<^verbatim>\<open>internal/server/transport/shared.go\<close>): buffered
  channels of datagrams that are closed at the end of a connection.  In Go, sending on a closed
  channel and closing it again panic; receiving drains it first.
\<close>

record payload =
  pl_chan :: "string chan"
  pl_closed :: bool

definition new_payload :: payload where
  "new_payload = \<lparr>pl_chan = make_chan 100000, pl_closed = False\<rparr>"

text \<open>Sending in a \<^verbatim>\<open>select\<close> with a default, so a full channel drops; \<open>None\<close> is the panic.\<close>

definition payload_send :: "string \<Rightarrow> payload \<Rightarrow> payload option" where
  "payload_send d p = (if pl_closed p then None else Some (p\<lparr>pl_chan := snd (try_send d (pl_chan p))\<rparr>))"

definition payload_close :: "payload \<Rightarrow> payload option" where
  "payload_close p = (if pl_closed p then None else Some (p\<lparr>pl_closed := True\<rparr>))"

datatype received = Datagram string | PayloadClosed | PayloadEmpty

definition payload_recv :: "payload \<Rightarrow> received \<times> payload" where
  "payload_recv p = (case try_recv (pl_chan p) of
     Some (d, ch) \<Rightarrow> (Datagram d, p\<lparr>pl_chan := ch\<rparr>)
   | None \<Rightarrow> (if pl_closed p then PayloadClosed else PayloadEmpty, p))"

abbreviation waiting :: "payload \<Rightarrow> string list" where
  "waiting p \<equiv> ch_buf (pl_chan p)"

lemma payload_send_cases:
  assumes "payload_send d p = Some p'"
  shows "\<not> pl_closed p \<and> \<not> pl_closed p'
    \<and> waiting p' = waiting p @ (if length (waiting p) < ch_cap (pl_chan p) then [d] else [])"
  using assms by (auto simp: payload_send_def try_send_def split: if_splits)

lemma payload_recv_closed: "payload_recv p = (r, p') \<Longrightarrow> pl_closed p' = pl_closed p"
  by (auto simp: payload_recv_def split: option.splits)

lemma payload_recv_fifo:
  assumes "payload_recv p = (r, p')"
  shows "waiting p = (case r of Datagram d \<Rightarrow> [d] | _ \<Rightarrow> []) @ waiting p'"
proof (cases "try_recv (pl_chan p)")
  case None
  with assms have "p' = p" "r = (if pl_closed p then PayloadClosed else PayloadEmpty)"
    by (auto simp: payload_recv_def)
  with go_chan.recv_none [OF None] show ?thesis by simp
next
  case (Some x)
  obtain d ch where x: "x = (d, ch)" by (cases x)
  with assms Some have "r = Datagram d" "p' = p\<lparr>pl_chan := ch\<rparr>" by (simp_all add: payload_recv_def)
  with go_chan.recv_some [OF Some [unfolded x]] show ?thesis by simp
qed

end
