(* ===== verification/Udp_Server.thy ===== *)
theory Udp_Server
  imports Payload Tcp_Server
begin

text \<open>
  The UDP server runtime, \<^verbatim>\<open>internal/server/transport/udp.go\<close>.  Connections are shared by maps,
  channels and goroutines: they live in stores (\<open>us_tunnels\<close>, \<open>ll_conns\<close>) that only grow, and
  everything else holds indices into them.  The goroutines are the listener and the handler of
  every local port, the two copy loops of every pair, the keep-alive of every tunnel connection
  and those of the control channel; \<open>udp_step\<close> interleaves them.
\<close>

section \<open>State\<close>

record UdpConfig =
  us_BindAddr :: string
  us_Token :: string
  us_SnifferLog :: string
  us_TunnelStatus :: string
  us_Ports :: "string list"
  us_Sniffer :: bool
  us_Heartbeat :: Duration
  us_ChannelSize :: int
  us_WebPort :: int

record LocalUDPConn =
  lu_timeCreated :: int
  lu_payload :: payload
  lu_remoteAddr :: string
  lu_addr :: string

text \<open>\<open>tu_ping\<close> tells whether the ping channel is closed, \<open>tu_mu\<close> whether the mutex is held.\<close>

record TunnelUDPConn =
  tu_payload :: payload
  tu_addr :: string
  tu_ping :: bool
  tu_mu :: bool

text \<open>A local port: the map of its active connections, the queue to its handler, what the handler
  has in hand while it waits for a tunnel connection, and whether its context is alive.\<close>

record local_port =
  ll_remoteAddr :: string
  ll_conns :: "LocalUDPConn list"
  ll_active :: "string \<rightharpoonup> nat"
  ll_udpChan :: "nat chan"
  ll_hand :: "nat option"
  ll_alive :: bool

text \<open>A pair being copied: its port, the indices of its connections, and which of the two
  directions (local to tunnel, tunnel to local) still runs.\<close>

record udp_pair =
  up_port :: nat
  up_local :: nat
  up_tunnel :: nat
  up_out :: bool
  up_in :: bool

record UdpTransport =
  us_config :: UdpConfig
  us_tunnelChannel :: "nat chan"
  us_activeConnections :: "string \<rightharpoonup> nat"
  us_reqNewConnChan :: "unit chan"
  us_controlChannel :: "tunnel_conn option"
  us_rtt :: int
  us_tunnels :: "TunnelUDPConn list"
  us_keepers :: "nat list"
  us_ports :: "local_port list"
  us_pairs :: "udp_pair list"

text \<open>What a step does: a datagram of a user (port, index) is buffered, one is sent to the peer of a
  tunnel connection or to a user, a write fails, the control channel is closed, or a panic.\<close>

datatype udp_effect =
  Received nat nat string | ToTunnel nat string | ToUser nat nat string | WriteFailed
| CloseControl nat | UdpPanic

definition NewUDPServer :: "UdpConfig \<Rightarrow> UdpTransport" where
  "NewUDPServer config =
     \<lparr>us_config = config, us_tunnelChannel = make_chan (nat (us_ChannelSize config)),
      us_activeConnections = Map.empty, us_reqNewConnChan = make_chan (nat (us_ChannelSize config)),
      us_controlChannel = None, us_rtt = 0, us_tunnels = [], us_keepers = [], us_ports = [], us_pairs = []\<rparr>"

definition udp_Start :: "UdpTransport \<Rightarrow> goroutine list \<times> UdpTransport" where
  "udp_Start s =
     ((if us_WebPort (us_config s) > 0 then [UsageMonitor] else []) @ [ChannelHandshake],
      s\<lparr>us_config := (us_config s)\<lparr>us_TunnelStatus := ''Disconnected (UDP)''\<rparr>\<rparr>)"

definition udp_Restart :: "UdpTransport \<Rightarrow> udp_effect list \<times> UdpTransport" where
  "udp_Restart s =
     ((case us_controlChannel s of Some c \<Rightarrow> [CloseControl (tn_id c)] | None \<Rightarrow> []),
      s\<lparr>us_tunnelChannel := make_chan (nat (us_ChannelSize (us_config s))),
        us_reqNewConnChan := make_chan (nat (us_ChannelSize (us_config s))),
        us_config := (us_config s)\<lparr>us_TunnelStatus := ''''\<rparr>,
        us_controlChannel := None, us_activeConnections := Map.empty,
        us_keepers := [], us_ports := map (\<lambda>l. l\<lparr>ll_alive := False\<rparr>) (us_ports s)\<rparr>)"

section \<open>Control channel\<close>

text \<open>Connections accepted one after the other until one presents the token; the exchange is the
  one of the TCP runtime.\<close>

fun udp_channelHandshake :: "(bool \<times> tunnel_conn) list \<Rightarrow> UdpTransport \<Rightarrow> udp_effect list \<times> UdpTransport" where
  "udp_channelHandshake [] s = ([], s)"
| "udp_channelHandshake ((deadline_ok, conn) # conns) s =
     (case handshake_conn deadline_ok (us_Token (us_config s)) conn of
        None \<Rightarrow> (case udp_channelHandshake conns s of (es, s) \<Rightarrow> (CloseControl (tn_id conn) # es, s))
      | Some conn \<Rightarrow> ([], s\<lparr>us_controlChannel := Some conn\<rparr>))"

definition udp_control_send :: "char \<Rightarrow> UdpTransport \<Rightarrow> wire_error option \<times> UdpTransport" where
  "udp_control_send sig s =
     (case us_controlChannel s of
        None \<Rightarrow> (Some UnsupportedType, s)
      | Some c \<Rightarrow>
          (case SendBinaryByte (tn_wire c) sig of
             (e, w) \<Rightarrow> (e, s\<lparr>us_controlChannel := Some (c\<lparr>tn_wire := w\<rparr>)\<rparr>)))"

definition udp_channelHandler_start :: "UdpTransport \<Rightarrow> handler_next \<times> UdpTransport" where
  "udp_channelHandler_start s =
     (case udp_control_send SG_RTT s of (None, s) \<Rightarrow> (Running, s) | (Some _, s) \<Rightarrow> (Restarting, s))"

definition udp_channelHandler_step :: "int \<Rightarrow> control_event \<Rightarrow> UdpTransport \<Rightarrow> handler_next \<times> UdpTransport" where
  "udp_channelHandler_step rtt ev s =
     (case ev of
        CtxDone \<Rightarrow> (Stopped, snd (udp_control_send SG_Closed s))
      | ReqNewConn \<Rightarrow>
          (case try_recv (us_reqNewConnChan s) of
             None \<Rightarrow> (Running, s)
           | Some (_, ch) \<Rightarrow>
               (case udp_control_send SG_Chan (s\<lparr>us_reqNewConnChan := ch\<rparr>) of
                  (None, s) \<Rightarrow> (Running, s) | (Some _, s) \<Rightarrow> (Restarting, s)))
      | Tick \<Rightarrow>
          (case udp_control_send SG_HB s of (None, s) \<Rightarrow> (Running, s) | (Some _, s) \<Rightarrow> (Restarting, s))
      | Message m now \<Rightarrow>
          if m = SG_Closed then (Restarting, s)
          else if m = SG_RTT then (Running, s\<lparr>us_rtt := now - rtt\<rparr>)
          else (Running, s)
      | ReaderError \<Rightarrow> (Restarting, s))"

section \<open>Datagrams\<close>

text \<open>A datagram on the tunnel port.\<close>

definition udp_acceptTunnelConn :: "string \<Rightarrow> string \<Rightarrow> UdpTransport \<Rightarrow> udp_effect list \<times> UdpTransport" where
  "udp_acceptTunnelConn key packet s =
     (case us_activeConnections s key of
        Some t \<Rightarrow>
          (case payload_send packet (tu_payload (us_tunnels s ! t)) of
             None \<Rightarrow> ([UdpPanic], s)
           | Some p \<Rightarrow> ([], s\<lparr>us_tunnels := (us_tunnels s)[t := (us_tunnels s ! t)\<lparr>tu_payload := p\<rparr>]\<rparr>))
      | None \<Rightarrow>
          if packet \<noteq> us_Token (us_config s) then ([], s)
          else
            let t = length (us_tunnels s);
                conn = \<lparr>tu_payload = new_payload, tu_addr = key, tu_ping = False, tu_mu = False\<rparr> in
            (case try_send t (us_tunnelChannel s) of
               (True, ch) \<Rightarrow>
                 ([], s\<lparr>us_tunnelChannel := ch, us_tunnels := us_tunnels s @ [conn],
                        us_activeConnections := (us_activeConnections s)(key \<mapsto> t),
                        us_keepers := us_keepers s @ [t]\<rparr>)
             | (False, _) \<Rightarrow>
                 ([], s\<lparr>us_tunnels := us_tunnels s @ [conn\<lparr>tu_payload := new_payload\<lparr>pl_closed := True\<rparr>\<rparr>]\<rparr>)))"

text \<open>A datagram on a local port.\<close>

definition port_read :: "nat \<Rightarrow> int \<Rightarrow> string \<Rightarrow> string \<Rightarrow> local_port \<Rightarrow> unit chan
    \<Rightarrow> udp_effect list \<times> local_port \<times> unit chan" where
  "port_read i now key packet l req =
     (case ll_active l key of
        Some k \<Rightarrow>
          let conn = ll_conns l ! k; room = length (waiting (lu_payload conn)) < ch_cap (pl_chan (lu_payload conn)) in
          (case payload_send packet (lu_payload conn) of
             None \<Rightarrow> ([UdpPanic], l, req)
           | Some p \<Rightarrow> (if room then [Received i k packet] else [],
                       l\<lparr>ll_conns := (ll_conns l)[k := conn\<lparr>lu_payload := p\<rparr>]\<rparr>, req))
      | None \<Rightarrow>
          let k = length (ll_conns l);
              conn = \<lparr>lu_timeCreated = now, lu_payload = new_payload, lu_remoteAddr = ll_remoteAddr l, lu_addr = key\<rparr> in
          (case try_send k (ll_udpChan l) of
             (True, ch) \<Rightarrow>
               ([Received i k packet],
                l\<lparr>ll_udpChan := ch, ll_active := (ll_active l)(key \<mapsto> k),
                  ll_conns := ll_conns l @ [conn\<lparr>lu_payload := the (payload_send packet new_payload)\<rparr>]\<rparr>,
                snd (try_send () req))
           | (False, _) \<Rightarrow>
               ([], l\<lparr>ll_conns := ll_conns l @ [conn\<lparr>lu_payload := new_payload\<lparr>pl_closed := True\<rparr>\<rparr>]\<rparr>, req)))"

definition udp_localListener_start :: "string \<Rightarrow> UdpTransport \<Rightarrow> UdpTransport" where
  "udp_localListener_start remoteAddr s =
     s\<lparr>us_ports := us_ports s @ [\<lparr>ll_remoteAddr = remoteAddr, ll_conns = [], ll_active = Map.empty,
         ll_udpChan = make_chan (nat (us_ChannelSize (us_config s))), ll_hand = None, ll_alive = True\<rparr>]\<rparr>"

definition udp_localListener :: "nat \<Rightarrow> int \<Rightarrow> string \<Rightarrow> string \<Rightarrow> UdpTransport \<Rightarrow> udp_effect list \<times> UdpTransport" where
  "udp_localListener i now key packet s =
     (if \<not> ll_alive (us_ports s ! i) then ([], s) else
      case port_read i now key packet (us_ports s ! i) (us_reqNewConnChan s) of
        (es, l, req) \<Rightarrow> (es, s\<lparr>us_ports := (us_ports s)[i := l], us_reqNewConnChan := req\<rparr>))"

text \<open>The handler of a port takes a connection, and drops it when it is older than three seconds;
  then it takes tunnel connections until the target is written to one.\<close>

definition port_take :: "int \<Rightarrow> local_port \<Rightarrow> local_port" where
  "port_take now l =
     (if \<not> ll_alive l \<or> ll_hand l \<noteq> None then l else
      case try_recv (ll_udpChan l) of
        None \<Rightarrow> l
      | Some (k, ch) \<Rightarrow>
          if now - lu_timeCreated (ll_conns l ! k) > 3000 then l\<lparr>ll_udpChan := ch\<rparr>
          else l\<lparr>ll_udpChan := ch, ll_hand := Some k\<rparr>)"

definition udp_handleLoop_take :: "nat \<Rightarrow> int \<Rightarrow> UdpTransport \<Rightarrow> UdpTransport" where
  "udp_handleLoop_take i now s = s\<lparr>us_ports := (us_ports s)[i := port_take now (us_ports s ! i)]\<rparr>"

definition udp_handleLoop_pair :: "nat \<Rightarrow> bool \<Rightarrow> UdpTransport \<Rightarrow> udp_effect list \<times> UdpTransport" where
  "udp_handleLoop_pair i write_ok s =
     (let l = us_ports s ! i in
      case ll_hand l of
        None \<Rightarrow> ([], s)
      | Some k \<Rightarrow>
          if \<not> ll_alive l then ([], s) else
          (case try_recv (us_tunnelChannel s) of
             None \<Rightarrow> ([], s)
           | Some (t, ch) \<Rightarrow>
               let conn = us_tunnels s ! t in
               if tu_ping conn then ([UdpPanic], s) else
               let s = s\<lparr>us_tunnelChannel := ch,
                         us_tunnels := (us_tunnels s)[t := conn\<lparr>tu_ping := True, tu_mu := True\<rparr>]\<rparr> in
               if \<not> write_ok then ([], s)
               else ([ToTunnel t (lu_remoteAddr (ll_conns l ! k))],
                     s\<lparr>us_ports := (us_ports s)[i := l\<lparr>ll_hand := None\<rparr>],
                       us_pairs := us_pairs s
                         @ [\<lparr>up_port = i, up_local = k, up_tunnel = t, up_out = True, up_in = True\<rparr>]\<rparr>)))"

section \<open>Copying\<close>

text \<open>\<^verbatim>\<open>udpLocalCopy\<close> and \<^verbatim>\<open>udpTunnelCopy\<close>, one turn each: a datagram whose write goes well or
  fails, or the timeout.  The write loop writes nothing for an empty datagram, and all of any
  other at once.\<close>

datatype copy_event = CopyOk | CopyFails | CopyIdle

definition write_datagram :: "(string \<Rightarrow> udp_effect) \<Rightarrow> string \<Rightarrow> udp_effect list" where
  "write_datagram to data = (if length data = 0 then [] else [to data])"

definition copy_turn :: "(string \<Rightarrow> udp_effect) \<Rightarrow> copy_event \<Rightarrow> payload \<Rightarrow> udp_effect list \<times> payload \<times> bool" where
  "copy_turn to ev p =
     (case ev of
        CopyIdle \<Rightarrow> ([], p, False)
      | _ \<Rightarrow>
          (case payload_recv p of
             (Datagram data, p) \<Rightarrow>
               if length data \<noteq> 0 \<and> ev = CopyFails then ([WriteFailed], p, False)
               else (write_datagram to data, p, True)
           | (PayloadClosed, p) \<Rightarrow> ([], p, False)
           | (PayloadEmpty, p) \<Rightarrow> ([], p, True)))"

definition udpLocalCopy :: "nat \<Rightarrow> copy_event \<Rightarrow> UdpTransport \<Rightarrow> udp_effect list \<times> UdpTransport" where
  "udpLocalCopy j ev s =
     (let c = us_pairs s ! j; l = us_ports s ! up_port c; conn = ll_conns l ! up_local c in
      if \<not> up_out c then ([], s) else
      case copy_turn (ToTunnel (up_tunnel c)) ev (lu_payload conn) of
        (es, p, on) \<Rightarrow>
          (es, s\<lparr>us_ports := (us_ports s)[up_port c :=
                   l\<lparr>ll_conns := (ll_conns l)[up_local c := conn\<lparr>lu_payload := p\<rparr>]\<rparr>],
                 us_pairs := (us_pairs s)[j := c\<lparr>up_out := on\<rparr>]\<rparr>))"

definition udpTunnelCopy :: "nat \<Rightarrow> copy_event \<Rightarrow> UdpTransport \<Rightarrow> udp_effect list \<times> UdpTransport" where
  "udpTunnelCopy j ev s =
     (let c = us_pairs s ! j; conn = us_tunnels s ! up_tunnel c in
      if \<not> up_in c then ([], s) else
      case copy_turn (ToUser (up_port c) (up_local c)) ev (tu_payload conn) of
        (es, p, on) \<Rightarrow>
          (es, s\<lparr>us_tunnels := (us_tunnels s)[up_tunnel c := conn\<lparr>tu_payload := p\<rparr>],
                 us_pairs := (us_pairs s)[j := c\<lparr>up_in := on\<rparr>]\<rparr>))"

text \<open>The end of \<^verbatim>\<open>udpCopy\<close>, when both directions are done.\<close>

definition udpCopy_end :: "nat \<Rightarrow> UdpTransport \<Rightarrow> udp_effect list \<times> UdpTransport" where
  "udpCopy_end j s =
     (let c = us_pairs s ! j; l = us_ports s ! up_port c;
          conn = ll_conns l ! up_local c; tun = us_tunnels s ! up_tunnel c in
      if up_out c \<or> up_in c then ([], s) else
      case (payload_close (lu_payload conn), payload_close (tu_payload tun)) of
        (Some p, Some q) \<Rightarrow>
          ([], s\<lparr>us_ports := (us_ports s)[up_port c :=
                   l\<lparr>ll_conns := (ll_conns l)[up_local c := conn\<lparr>lu_payload := p\<rparr>],
                     ll_active := (ll_active l)(lu_addr conn := None)\<rparr>],
                 us_tunnels := (us_tunnels s)[up_tunnel c := tun\<lparr>tu_payload := q\<rparr>],
                 us_activeConnections := (us_activeConnections s)(tu_addr tun := None),
                 us_pairs := take j (us_pairs s) @ drop (Suc j) (us_pairs s)\<rparr>)
      | _ \<Rightarrow> ([UdpPanic], s))"

datatype keep_event = PingClosed | PingTick bool

definition udp_keepAlive :: "nat \<Rightarrow> keep_event \<Rightarrow> UdpTransport \<Rightarrow> udp_effect list \<times> UdpTransport" where
  "udp_keepAlive t ev s =
     (let conn = us_tunnels s ! t; stop = s\<lparr>us_keepers := remove1 t (us_keepers s)\<rparr> in
      case ev of
        PingClosed \<Rightarrow> if tu_ping conn then ([], stop) else ([], s)
      | PingTick ok \<Rightarrow>
          if tu_mu conn then ([], stop)
          else if \<not> ok then ([], stop)
          else ([ToTunnel t [SG_Ping]], s))"

definition udp_parsePortMappings :: "UdpTransport \<Rightarrow> goroutine list \<times> fatal option" where
  "udp_parsePortMappings s =
     (case parsePortMappings (us_Ports (us_config s)) of
        (started, e) \<Rightarrow> (map (\<lambda>l. LocalListener (fst l) (snd l)) started, e))"

section \<open>The interleaving of the goroutines\<close>

inductive udp_step :: "UdpTransport \<Rightarrow> udp_effect list \<times> UdpTransport \<Rightarrow> bool" where
  "udp_step s ([], snd (udp_Start s))"
| "us_controlChannel s = None \<Longrightarrow> udp_step s (udp_channelHandshake conns s)"
| "us_controlChannel s \<noteq> None \<Longrightarrow> udp_step s ([], snd (udp_channelHandler_start s))"
| "us_controlChannel s \<noteq> None \<Longrightarrow> udp_step s ([], snd (udp_channelHandler_step rtt ev s))"
| "udp_step s (udp_acceptTunnelConn key packet s)"
| "udp_step s ([], udp_localListener_start addr s)"
| "i < length (us_ports s) \<Longrightarrow> udp_step s (udp_localListener i now key packet s)"
| "i < length (us_ports s) \<Longrightarrow> udp_step s ([], udp_handleLoop_take i now s)"
| "i < length (us_ports s) \<Longrightarrow> udp_step s (udp_handleLoop_pair i ok s)"
| "j < length (us_pairs s) \<Longrightarrow> udp_step s (udpLocalCopy j cev s)"
| "j < length (us_pairs s) \<Longrightarrow> udp_step s (udpTunnelCopy j cev s)"
| "j < length (us_pairs s) \<Longrightarrow> udp_step s (udpCopy_end j s)"
| "t \<in> set (us_keepers s) \<Longrightarrow> udp_step s (udp_keepAlive t kev s)"
| "udp_step s (udp_Restart s)"

inductive udp_reachable :: "UdpConfig \<Rightarrow> UdpTransport \<Rightarrow> bool" for config where
  start: "udp_reachable config (NewUDPServer config)"
| step: "udp_reachable config s \<Longrightarrow> udp_step s (es, t) \<Longrightarrow> udp_reachable config t"

inductive_cases udp_stepE: "udp_step s (es, t)"

end
