(* ===== verification/Udp_Spec.thy ===== *)
theory Udp_Spec
  imports Udp_Server Tcp_Spec
begin

text \<open>
  What the UDP server promises: no goroutine panics on a closed channel, datagrams keep their
  order, and what becomes of a user whose connection was dropped.
\<close>

section \<open>The structural invariant\<close>

definition local_open :: "local_port \<Rightarrow> nat \<Rightarrow> bool" where
  "local_open l k \<longleftrightarrow> k < length (ll_conns l) \<and> \<not> pl_closed (lu_payload (ll_conns l ! k))"

definition queue_of :: "local_port \<Rightarrow> nat list" where
  "queue_of l = (case ll_hand l of None \<Rightarrow> [] | Some k \<Rightarrow> [k]) @ ch_buf (ll_udpChan l)"

text \<open>The connections of port \<open>i\<close> that are being copied.\<close>

definition paired_with :: "nat \<Rightarrow> udp_pair \<Rightarrow> nat list" where
  "paired_with i c = (if up_port c = i then [up_local c] else [])"

definition paired :: "nat \<Rightarrow> udp_pair list \<Rightarrow> nat list" where
  "paired i ps = concat (map (paired_with i) ps)"

definition port_inv :: "local_port \<Rightarrow> nat list \<Rightarrow> bool" where
  "port_inv l ks \<longleftrightarrow>
     (\<forall>key k. ll_active l key = Some k \<longrightarrow> local_open l k \<and> lu_addr (ll_conns l ! k) = key)
     \<and> list_all (local_open l) (queue_of l @ ks) \<and> distinct (queue_of l @ ks)
     \<and> list_all (\<lambda>k. ll_active l (lu_addr (ll_conns l ! k)) = Some k) (queue_of l @ ks)"

definition tunnel_open :: "TunnelUDPConn list \<Rightarrow> bool \<Rightarrow> nat \<Rightarrow> bool" where
  "tunnel_open ts ping t \<longleftrightarrow> t < length ts \<and> \<not> pl_closed (tu_payload (ts ! t)) \<and> tu_ping (ts ! t) = ping"

definition tunnels_inv :: "UdpTransport \<Rightarrow> bool" where
  "tunnels_inv s \<longleftrightarrow>
     (\<forall>key t. us_activeConnections s key = Some t \<longrightarrow>
        (\<exists>b. tunnel_open (us_tunnels s) b t) \<and> tu_addr (us_tunnels s ! t) = key)
     \<and> list_all (tunnel_open (us_tunnels s) False) (ch_buf (us_tunnelChannel s))
     \<and> distinct (ch_buf (us_tunnelChannel s))
     \<and> list_all (tunnel_open (us_tunnels s) True) (map up_tunnel (us_pairs s))
     \<and> distinct (map up_tunnel (us_pairs s))
     \<and> list_all (\<lambda>c. tu_mu c = tu_ping c) (us_tunnels s)"

definition udp_inv :: "UdpTransport \<Rightarrow> bool" where
  "udp_inv s \<longleftrightarrow> tunnels_inv s \<and> list_all (\<lambda>c. up_port c < length (us_ports s)) (us_pairs s)
     \<and> (\<forall>i < length (us_ports s). port_inv (us_ports s ! i) (paired i (us_pairs s)))"

subsection \<open>Ports\<close>

lemma local_open_fields [simp]:
  "local_open (l\<lparr>ll_alive := b\<rparr>) = local_open l" "local_open (l\<lparr>ll_hand := h\<rparr>) = local_open l"
  "local_open (l\<lparr>ll_udpChan := ch\<rparr>) = local_open l" "local_open (l\<lparr>ll_active := a\<rparr>) = local_open l"
  by (rule ext, simp add: local_open_def)+

lemma local_open_update:
  "\<not> pl_closed p \<Longrightarrow> local_open (l\<lparr>ll_conns := (ll_conns l)[k := c\<lparr>lu_payload := p\<rparr>]\<rparr>) k'
     \<longleftrightarrow> (if k' = k then k < length (ll_conns l) else local_open l k')"
  by (auto simp: local_open_def nth_list_update)

lemma port_inv_payload:
  assumes "port_inv l ks" and "local_open l k" and "\<not> pl_closed p"
  shows "port_inv (l\<lparr>ll_conns := (ll_conns l)[k := (ll_conns l ! k)\<lparr>lu_payload := p\<rparr>]\<rparr>) ks"
proof -
  let ?l = "l\<lparr>ll_conns := (ll_conns l)[k := (ll_conns l ! k)\<lparr>lu_payload := p\<rparr>]\<rparr>"
  have "local_open l k' \<Longrightarrow> local_open ?l k'" for k'
    using assms(2,3) by (auto simp: local_open_def nth_list_update)
  moreover have "lu_addr (ll_conns ?l ! k') = lu_addr (ll_conns l ! k')" for k'
    using assms(2) by (cases "k = k'") (auto simp: local_open_def)
  ultimately show ?thesis using assms(1) by (auto simp: port_inv_def list_all_iff queue_of_def)
qed

lemma local_open_append: "local_open l k \<Longrightarrow> ll_conns l' = ll_conns l @ [c] \<Longrightarrow> local_open l' k \<and> ll_conns l' ! k = ll_conns l ! k"
  by (simp add: local_open_def nth_append)

lemma port_inv_new:
  assumes "port_inv l ks" and "\<not> pl_closed (lu_payload c)" and "lu_addr c = key"
    and "ch_buf ch = ch_buf (ll_udpChan l) @ [length (ll_conns l)]" and "ll_active l key = None"
  shows "port_inv (l\<lparr>ll_udpChan := ch, ll_active := (ll_active l)(key \<mapsto> length (ll_conns l)),
    ll_conns := ll_conns l @ [c]\<rparr>) ks"
proof -
  let ?k = "length (ll_conns l)" and ?l = "l\<lparr>ll_udpChan := ch, ll_active := (ll_active l)(key \<mapsto> length (ll_conns l)),
    ll_conns := ll_conns l @ [c]\<rparr>"
  have q: "queue_of ?l = queue_of l @ [?k]" using assms(4) by (simp add: queue_of_def split: option.split)
  have "local_open l k \<Longrightarrow> k < ?k" for k by (simp add: local_open_def)
  then have "distinct (queue_of ?l @ ks)"
    using assms(1) unfolding q by (fastforce simp: port_inv_def list_all_iff)
  moreover have o: "local_open l k \<Longrightarrow> local_open ?l k \<and> ll_conns ?l ! k = ll_conns l ! k" for k
    by (rule local_open_append) simp_all
  moreover have "local_open ?l ?k" using assms(2) by (simp add: local_open_def)
  moreover have "lu_addr (ll_conns l ! k) \<noteq> key" if "k \<in> set (queue_of l @ ks)" for k
  proof -
    have "ll_active l (lu_addr (ll_conns l ! k)) = Some k"
      using assms(1) that unfolding port_inv_def list_all_iff by blast
    with assms(5) show ?thesis by auto
  qed
  ultimately show ?thesis using assms(1,3) unfolding port_inv_def q list_all_iff
    by (auto split: if_splits)
qed

lemma port_inv_closed_new:
  assumes "port_inv l ks"
  shows "port_inv (l\<lparr>ll_conns := ll_conns l @ [c]\<rparr>) ks"
proof -
  have "local_open l k \<Longrightarrow> local_open (l\<lparr>ll_conns := ll_conns l @ [c]\<rparr>) k
      \<and> ll_conns (l\<lparr>ll_conns := ll_conns l @ [c]\<rparr>) ! k = ll_conns l ! k" for k
    by (rule local_open_append) simp_all
  with assms show ?thesis by (auto simp: port_inv_def list_all_iff queue_of_def)
qed

lemma port_take_inv: "port_inv l ks \<Longrightarrow> port_inv (port_take now l) ks"
proof (cases "ll_alive l \<and> ll_hand l = None")
  case True
  assume i: "port_inv l ks"
  show ?thesis
  proof (cases "try_recv (ll_udpChan l)")
    case None
    with True i show ?thesis by (simp add: port_take_def)
  next
    case (Some x)
    obtain k ch where x: "x = (k, ch)" by (cases x)
    have b: "ch_buf (ll_udpChan l) = k # ch_buf ch" using go_chan.recv_some Some x by simp
    show ?thesis using True i Some x b
      by (auto simp: port_take_def port_inv_def queue_of_def)
  qed
qed (simp add: port_take_def)

lemma port_inv_hand:
  assumes "port_inv l ks" and "ll_hand l = Some k"
  shows "port_inv (l\<lparr>ll_hand := None\<rparr>) (ks @ [k])"
proof -
  from assms show ?thesis by (auto simp: port_inv_def queue_of_def)
qed

text \<open>The outcomes of a datagram on a local port.\<close>

lemma port_read_cases:
  assumes "port_read i now key packet l req = (es, l', req')" and "port_inv l ks"
  obtains (known) k p where "ll_active l key = Some k" "payload_send packet (lu_payload (ll_conns l ! k)) = Some p"
      "es = (if length (waiting (lu_payload (ll_conns l ! k))) < ch_cap (pl_chan (lu_payload (ll_conns l ! k)))
             then [Received i k packet] else [])"
      "l' = l\<lparr>ll_conns := (ll_conns l)[k := (ll_conns l ! k)\<lparr>lu_payload := p\<rparr>]\<rparr>" "req' = req"
  | (new) ch p where "ll_active l key = None" "try_send (length (ll_conns l)) (ll_udpChan l) = (True, ch)"
      "payload_send packet new_payload = Some p" "es = [Received i (length (ll_conns l)) packet]"
      "l' = l\<lparr>ll_udpChan := ch, ll_active := (ll_active l)(key \<mapsto> length (ll_conns l)),
          ll_conns := ll_conns l @ [\<lparr>lu_timeCreated = now, lu_payload = p,
            lu_remoteAddr = ll_remoteAddr l, lu_addr = key\<rparr>]\<rparr>"
  | (full) ch c where "ll_active l key = None" "try_send (length (ll_conns l)) (ll_udpChan l) = (False, ch)"
      "es = []" "l' = l\<lparr>ll_conns := ll_conns l @ [c]\<rparr>" "pl_closed (lu_payload c)" "req' = req"
proof (cases "ll_active l key")
  case None
  obtain ok ch where s: "try_send (length (ll_conns l)) (ll_udpChan l) = (ok, ch)" by (metis prod.exhaust)
  have "\<exists>p. payload_send packet new_payload = Some p" by (simp add: payload_send_def new_payload_def)
  then obtain p where p: "payload_send packet new_payload = Some p" by blast
  show thesis
  proof (cases ok)
    case True
    with None s p assms(1) show thesis by (intro that(2) [of ch p]) (simp_all add: port_read_def Let_def)
  next
    case False
    with None s assms(1) show thesis
      by (intro that(3) [of ch "\<lparr>lu_timeCreated = now, lu_payload = new_payload\<lparr>pl_closed := True\<rparr>,
            lu_remoteAddr = ll_remoteAddr l, lu_addr = key\<rparr>"]) (simp_all add: port_read_def Let_def)
  qed
next
  case (Some k)
  then have "\<not> pl_closed (lu_payload (ll_conns l ! k))"
    using assms(2) by (auto simp: port_inv_def local_open_def)
  then obtain p where "payload_send packet (lu_payload (ll_conns l ! k)) = Some p"
    by (simp add: payload_send_def)
  with Some assms(1) show thesis by (intro that(1) [of k p]) (simp_all add: port_read_def Let_def)
qed

lemma port_read_inv:
  assumes r: "port_read i now key packet l req = (es, l', req')" and p: "port_inv l ks"
  shows "port_inv l' ks \<and> UdpPanic \<notin> set es"
  using r p
proof (cases rule: port_read_cases)
  case (known k q)
  then have "local_open l k" using p by (auto simp: port_inv_def)
  with known p payload_send_cases [OF known(2)] show ?thesis by (simp add: port_inv_payload)
next
  case (new ch q)
  with p payload_send_cases [OF new(3)] go_chan.send_ok [OF new(2)] show ?thesis
    by (simp add: port_inv_new)
next
  case (full ch c)
  with p show ?thesis by (simp add: port_inv_closed_new)
qed

subsection \<open>Pairs\<close>

lemma map_same_update: "f c = f (ps ! j) \<Longrightarrow> map f (ps[j := c]) = map f ps"
  by (cases "j < length ps") (simp_all add: map_update list_update_same_conv list_update_beyond)

lemma paired_update:
  assumes "up_port c = up_port (ps ! j)" and "up_local c = up_local (ps ! j)"
  shows "paired i (ps[j := c]) = paired i ps"
proof -
  have "paired_with i c = paired_with i (ps ! j)" using assms by (simp add: paired_with_def)
  from map_same_update [OF this] show ?thesis by (simp add: paired_def)
qed

lemma paired_remove:
  assumes "j < length ps"
  obtains A B where "paired i ps = A @ paired_with i (ps ! j) @ B"
    and "paired i (take j ps @ drop (Suc j) ps) = A @ B"
proof (rule that)
  show "paired i ps = concat (map (paired_with i) (take j ps)) @ paired_with i (ps ! j)
      @ concat (map (paired_with i) (drop (Suc j) ps))"
    by (subst id_take_nth_drop [OF assms]) (simp add: paired_def)
qed (simp add: paired_def)

lemma paired_mem: "c \<in> set ps \<Longrightarrow> up_local c \<in> set (paired (up_port c) ps)"
  by (auto simp: paired_def paired_with_def)

lemma udp_inv_port:
  assumes "udp_inv s" and "i < length (us_ports s) \<Longrightarrow> port_inv l (paired i (us_pairs s))"
  shows "udp_inv (s\<lparr>us_ports := (us_ports s)[i := l]\<rparr>)"
proof -
  have "port_inv ((us_ports s)[i := l] ! k) (paired k (us_pairs s))" if "k < length (us_ports s)" for k
    using assms that by (cases "k = i") (auto simp: udp_inv_def)
  with assms(1) show ?thesis by (simp add: udp_inv_def tunnels_inv_def)
qed

lemma udp_inv_req [simp]: "udp_inv (s\<lparr>us_reqNewConnChan := r\<rparr>) = udp_inv s"
  "udp_inv (s\<lparr>us_config := cf\<rparr>) = udp_inv s" "udp_inv (s\<lparr>us_rtt := x\<rparr>) = udp_inv s"
  "udp_inv (s\<lparr>us_controlChannel := ctl\<rparr>) = udp_inv s" "udp_inv (s\<lparr>us_keepers := ks\<rparr>) = udp_inv s"
  by (simp_all add: udp_inv_def tunnels_inv_def)

text \<open>What the invariant says of a pair.\<close>

lemma pair_facts:
  assumes "udp_inv s" and "j < length (us_pairs s)" and "c = us_pairs s ! j"
  shows "up_port c < length (us_ports s)" and "local_open (us_ports s ! up_port c) (up_local c)"
    and "tunnel_open (us_tunnels s) True (up_tunnel c)" and "port_inv (us_ports s ! up_port c) (paired (up_port c) (us_pairs s))"
proof -
  have c: "c \<in> set (us_pairs s)" using assms(2,3) by simp
  show p: "up_port c < length (us_ports s)" using assms(1) c by (auto simp: udp_inv_def list_all_iff)
  then show q: "port_inv (us_ports s ! up_port c) (paired (up_port c) (us_pairs s))"
    using assms(1) by (simp add: udp_inv_def)
  then show "local_open (us_ports s ! up_port c) (up_local c)"
    using paired_mem [OF c] by (auto simp: port_inv_def list_all_iff)
  show "tunnel_open (us_tunnels s) True (up_tunnel c)"
    using assms(1) c by (auto simp: udp_inv_def tunnels_inv_def list_all_iff)
qed

lemma copy_turn_closed: "copy_turn to ev p = (es, q, on) \<Longrightarrow> pl_closed q = pl_closed p"
  by (auto simp: copy_turn_def dest: payload_recv_closed split: copy_event.splits prod.splits received.splits if_splits)

lemma udpLocalCopy_inv:
  assumes "udpLocalCopy j ev s = (es, t)" and "j < length (us_pairs s)" and "udp_inv s"
  shows "udp_inv t"
proof (cases "up_out (us_pairs s ! j)")
  case True
  define c where "c = us_pairs s ! j"
  note F = pair_facts [OF assms(3,2) c_def]
  let ?l = "us_ports s ! up_port c"
  obtain es' p on where ct: "copy_turn (ToTunnel (up_tunnel c)) ev (lu_payload (ll_conns ?l ! up_local c)) = (es', p, on)"
    by (metis prod.exhaust)
  have "\<not> pl_closed p" using copy_turn_closed [OF ct] F(2) by (simp add: local_open_def)
  from port_inv_payload [OF F(4) F(2) this] udp_inv_port [OF assms(3)]
  have "udp_inv (s\<lparr>us_ports := (us_ports s)[up_port c := ?l\<lparr>ll_conns := (ll_conns ?l)[up_local c :=
      (ll_conns ?l ! up_local c)\<lparr>lu_payload := p\<rparr>]\<rparr>]\<rparr>)" (is "udp_inv ?s") by blast
  then have "udp_inv (?s\<lparr>us_pairs := (us_pairs s)[j := c\<lparr>up_out := on\<rparr>]\<rparr>)"
    using assms(2) F(1) c_def
    by (auto simp: udp_inv_def tunnels_inv_def paired_update map_same_update list_all_length nth_list_update)
  with assms(1) True ct show ?thesis by (simp add: udpLocalCopy_def Let_def flip: c_def)
qed (use assms in \<open>simp add: udpLocalCopy_def Let_def\<close>)

text \<open>Changing a tunnel connection without closing it.\<close>

lemma tunnels_inv_update:
  assumes "tunnels_inv s" and "t < length (us_tunnels s)" and "tu_addr c = tu_addr (us_tunnels s ! t)"
    and "pl_closed (tu_payload c) = pl_closed (tu_payload (us_tunnels s ! t))"
    and "tu_ping c = tu_ping (us_tunnels s ! t)" and "tu_mu c = tu_mu (us_tunnels s ! t)"
  shows "tunnels_inv (s\<lparr>us_tunnels := (us_tunnels s)[t := c]\<rparr>)"
proof -
  have "tunnel_open ((us_tunnels s)[t := c]) b t' = tunnel_open (us_tunnels s) b t'" for b t'
    using assms(2,4,5) by (auto simp: tunnel_open_def nth_list_update)
  moreover from this have "tunnel_open ((us_tunnels s)[t := c]) b = tunnel_open (us_tunnels s) b" for b by blast
  moreover have "tu_addr ((us_tunnels s)[t := c] ! t') = tu_addr (us_tunnels s ! t')" for t'
    using assms(2,3) by (cases "t' = t") simp_all
  moreover have "list_all (\<lambda>c. tu_mu c = tu_ping c) ((us_tunnels s)[t := c])"
    using assms by (intro list_all_update) (auto simp: tunnels_inv_def list_all_length)
  ultimately show ?thesis using assms(1) by (simp add: tunnels_inv_def)
qed

lemma udpTunnelCopy_inv:
  assumes "udpTunnelCopy j ev s = (es, t)" and "j < length (us_pairs s)" and "udp_inv s"
  shows "udp_inv t"
proof (cases "up_in (us_pairs s ! j)")
  case True
  define c where "c = us_pairs s ! j"
  note F = pair_facts [OF assms(3,2) c_def]
  let ?u = "us_tunnels s ! up_tunnel c"
  obtain es' p on where ct: "copy_turn (ToUser (up_port c) (up_local c)) ev (tu_payload ?u) = (es', p, on)"
    by (metis prod.exhaust)
  have "tunnels_inv (s\<lparr>us_tunnels := (us_tunnels s)[up_tunnel c := ?u\<lparr>tu_payload := p\<rparr>]\<rparr>)" (is "tunnels_inv ?s")
    using assms(3) F(3) copy_turn_closed [OF ct]
    by (intro tunnels_inv_update) (simp_all add: udp_inv_def tunnel_open_def)
  then have "udp_inv (?s\<lparr>us_pairs := (us_pairs s)[j := c\<lparr>up_in := on\<rparr>]\<rparr>)"
    using assms(3,2) F(1) c_def
    by (auto simp: udp_inv_def tunnels_inv_def paired_update map_same_update list_all_length nth_list_update)
  with assms(1) True ct show ?thesis by (simp add: udpTunnelCopy_def Let_def flip: c_def)
qed (use assms in \<open>simp add: udpTunnelCopy_def Let_def\<close>)

lemma udp_handleLoop_pair_inv:
  assumes "udp_handleLoop_pair i ok s = (es, u)" and "i < length (us_ports s)" and inv: "udp_inv s"
  shows "udp_inv u \<and> UdpPanic \<notin> set es"
proof (cases "ll_alive (us_ports s ! i) \<and> ll_hand (us_ports s ! i) \<noteq> None \<and> try_recv (us_tunnelChannel s) \<noteq> None")
  case True
  then obtain k t ch where k: "ll_alive (us_ports s ! i)" "ll_hand (us_ports s ! i) = Some k"
    "try_recv (us_tunnelChannel s) = Some (t, ch)" by auto
  define l where "l = us_ports s ! i"
  define conn where "conn = us_tunnels s ! t"
  have b: "ch_buf (us_tunnelChannel s) = t # ch_buf ch" by (rule go_chan.recv_some [OF k(3)])
  have T: "tunnels_inv s" using inv by (simp add: udp_inv_def)
  then have t: "tunnel_open (us_tunnels s) False t" using b by (simp add: tunnels_inv_def)
  then have ping: "\<not> tu_ping conn" by (simp add: tunnel_open_def conn_def)
  let ?ts = "(us_tunnels s)[t := conn\<lparr>tu_ping := True, tu_mu := True\<rparr>]"
  let ?s = "s\<lparr>us_tunnelChannel := ch, us_tunnels := ?ts\<rparr>"
  have o: "tunnel_open ?ts b' t' = (if t' = t then b' else tunnel_open (us_tunnels s) b' t')" for b' t'
    using t by (auto simp: tunnel_open_def nth_list_update conn_def)
  have notin: "t \<notin> set (ch_buf ch)" "t \<notin> up_tunnel ` set (us_pairs s)"
    using T b t by (auto simp: tunnels_inv_def list_all_iff tunnel_open_def)
  have addr: "tu_addr (?ts ! t') = tu_addr (us_tunnels s ! t')" for t'
    using t by (cases "t' = t") (simp_all add: tunnel_open_def conn_def)
  have T': "tunnels_inv ?s"
    unfolding tunnels_inv_def
  proof (intro conjI allI impI)
    show "\<exists>b. tunnel_open (us_tunnels ?s) b t'" "tu_addr (us_tunnels ?s ! t') = key"
      if "us_activeConnections ?s key = Some t'" for key t'
    proof -
      have a: "us_activeConnections s key = Some t'" using that by simp
      with T obtain b' where "tunnel_open (us_tunnels s) b' t'" unfolding tunnels_inv_def by blast
      then have "tunnel_open ?ts (t' = t \<or> b') t'" by (cases "t' = t") (simp_all add: o)
      then show "\<exists>b. tunnel_open (us_tunnels ?s) b t'" by auto
      from a T have "tu_addr (us_tunnels s ! t') = key" unfolding tunnels_inv_def by blast
      with addr show "tu_addr (us_tunnels ?s ! t') = key" by simp
    qed
    show "list_all (\<lambda>c. tu_mu c = tu_ping c) (us_tunnels ?s)"
      using T by (simp add: tunnels_inv_def list_all_update)
  next
    have "list_all (tunnel_open (us_tunnels s) False) (ch_buf ch)" using T b by (simp add: tunnels_inv_def)
    then show "list_all (tunnel_open (us_tunnels ?s) False) (ch_buf (us_tunnelChannel ?s))"
      using notin(1) by (fastforce simp: list_all_iff o)
    have "list_all (tunnel_open (us_tunnels s) True) (map up_tunnel (us_pairs s))" using T by (simp add: tunnels_inv_def)
    then show "list_all (tunnel_open (us_tunnels ?s) True) (map up_tunnel (us_pairs ?s))"
      using notin(2) by (fastforce simp: list_all_iff o)
  qed (use T b in \<open>simp_all add: tunnels_inv_def\<close>)
  then have S: "udp_inv ?s" using inv by (simp add: udp_inv_def)
  show ?thesis
  proof (cases ok)
    case False
    with S k assms(1) ping show ?thesis by (auto simp: udp_handleLoop_pair_def Let_def conn_def)
  next
    case True
    let ?c = "\<lparr>up_port = i, up_local = k, up_tunnel = t, up_out = True, up_in = True\<rparr>"
    let ?u = "?s\<lparr>us_ports := (us_ports s)[i := l\<lparr>ll_hand := None\<rparr>], us_pairs := us_pairs s @ [?c]\<rparr>"
    have u: "u = ?u" "UdpPanic \<notin> set es"
      using assms(1) k True ping by (auto simp: udp_handleLoop_pair_def Let_def conn_def l_def)
    have "port_inv l (paired i (us_pairs s))" using inv assms(2) by (simp add: udp_inv_def l_def)
    from port_inv_hand [OF this, of k] have p: "port_inv (l\<lparr>ll_hand := None\<rparr>) (paired i (us_pairs s @ [?c]))"
      using k(2) by (simp add: l_def paired_def paired_with_def)
    have "paired n (us_pairs s @ [?c]) = paired n (us_pairs s)" if "n \<noteq> i" for n
      using that by (simp add: paired_def paired_with_def)
    then have "port_inv (us_ports ?u ! n) (paired n (us_pairs ?u))" if "n < length (us_ports s)" for n
      using inv p that by (cases "n = i") (simp_all add: udp_inv_def)
    moreover have "tunnels_inv ?u"
      using T' t notin(2) by (auto simp: tunnels_inv_def o)
    moreover have "list_all (\<lambda>c. up_port c < length (us_ports ?u)) (us_pairs ?u)"
      using inv assms(2) by (simp add: udp_inv_def)
    ultimately show ?thesis using u by (simp add: udp_inv_def)
  qed
next
  case False
  with assms show ?thesis by (auto simp: udp_handleLoop_pair_def Let_def split: option.splits)
qed

text \<open>The end of a pair closes its two channels, once, and forgets their addresses.\<close>

lemma port_inv_end:
  assumes "port_inv l (A @ [k] @ B)" and "pl_closed p"
  shows "port_inv (l\<lparr>ll_conns := (ll_conns l)[k := (ll_conns l ! k)\<lparr>lu_payload := p\<rparr>],
    ll_active := (ll_active l)(lu_addr (ll_conns l ! k) := None)\<rparr>) (A @ B)"
proof -
  let ?l = "l\<lparr>ll_conns := (ll_conns l)[k := (ll_conns l ! k)\<lparr>lu_payload := p\<rparr>],
    ll_active := (ll_active l)(lu_addr (ll_conns l ! k) := None)\<rparr>"
  have o: "local_open l k' \<Longrightarrow> k' \<noteq> k \<Longrightarrow> local_open ?l k' \<and> ll_conns ?l ! k' = ll_conns l ! k'" for k'
    by (simp add: local_open_def)
  have q: "queue_of ?l = queue_of l" by (simp add: queue_of_def)
  have k: "k \<notin> set (queue_of l @ A @ B)" "distinct (queue_of l @ A @ B)"
    "\<forall>x \<in> set (queue_of l @ A @ B). local_open l x"
    using assms(1) by (auto simp: port_inv_def list_all_iff)
  then have "list_all (local_open ?l) (queue_of l @ A @ B)" using o unfolding list_all_iff by metis
  moreover have "local_open ?l k' \<and> lu_addr (ll_conns ?l ! k') = key"
    if "ll_active ?l key = Some k'" for key k'
  proof -
    have a: "key \<noteq> lu_addr (ll_conns l ! k)" "ll_active l key = Some k'" using that by (auto split: if_splits)
    then have "local_open l k'" "lu_addr (ll_conns l ! k') = key" using assms(1) by (auto simp: port_inv_def)
    moreover from this a have "k' \<noteq> k" by auto
    ultimately show ?thesis using o by simp
  qed
  moreover have "ll_active ?l (lu_addr (ll_conns ?l ! k')) = Some k'" if "k' \<in> set (queue_of l @ A @ B)" for k'
  proof -
    have n: "k' \<noteq> k" using k(1) that by blast
    have "ll_active l (lu_addr (ll_conns l ! k')) = Some k'" "ll_active l (lu_addr (ll_conns l ! k)) = Some k"
      using assms(1) that by (auto simp: port_inv_def list_all_iff)
    then have "lu_addr (ll_conns l ! k') \<noteq> lu_addr (ll_conns l ! k)" using n by auto
    then show ?thesis using n \<open>ll_active l (lu_addr (ll_conns l ! k')) = Some k'\<close> by simp
  qed
  then have "list_all (\<lambda>k. ll_active ?l (lu_addr (ll_conns ?l ! k)) = Some k) (queue_of l @ A @ B)"
    unfolding list_all_iff by blast
  ultimately show ?thesis using k(2) by (simp only: port_inv_def q append_assoc) blast
qed

lemma tunnels_inv_end:
  assumes inv: "tunnels_inv s" and "j < length (us_pairs s)" and "t = up_tunnel (us_pairs s ! j)"
  shows "tunnels_inv (s\<lparr>us_tunnels := (us_tunnels s)[t := (us_tunnels s ! t)\<lparr>tu_payload := q\<rparr>],
    us_activeConnections := (us_activeConnections s)(tu_addr (us_tunnels s ! t) := None),
    us_pairs := take j (us_pairs s) @ drop (Suc j) (us_pairs s)\<rparr>)" (is "tunnels_inv ?s")
proof -
  let ?ps = "take j (us_pairs s) @ drop (Suc j) (us_pairs s)"
  let ?ts = "(us_tunnels s)[t := (us_tunnels s ! t)\<lparr>tu_payload := q\<rparr>]"
  have m: "map up_tunnel (us_pairs s) = map up_tunnel (take j (us_pairs s)) @ t # map up_tunnel (drop (Suc j) (us_pairs s))"
    using id_take_nth_drop [OF assms(2)] assms(3) by (metis list.simps(9) map_append)
  have T: "tunnel_open (us_tunnels s) True t" using inv unfolding tunnels_inv_def m by simp
  have o: "tunnel_open (us_tunnels s) b t' \<Longrightarrow> t' \<noteq> t \<Longrightarrow> tunnel_open ?ts b t' \<and> ?ts ! t' = us_tunnels s ! t'" for b t'
    by (simp add: tunnel_open_def)
  have q: "t \<notin> set (ch_buf (us_tunnelChannel s))"
    using inv T by (auto simp: tunnels_inv_def list_all_iff tunnel_open_def)
  have p: "t \<notin> set (map up_tunnel ?ps)" "distinct (map up_tunnel ?ps)"
    using inv unfolding tunnels_inv_def m by auto
  show ?thesis
    unfolding tunnels_inv_def
  proof (intro conjI allI impI)
    fix key t' assume "us_activeConnections ?s key = Some t'"
    then have a: "key \<noteq> tu_addr (us_tunnels s ! t)" "us_activeConnections s key = Some t'" by (auto split: if_splits)
    with inv obtain b where b: "tunnel_open (us_tunnels s) b t'" "tu_addr (us_tunnels s ! t') = key"
      unfolding tunnels_inv_def by blast
    with a have "t' \<noteq> t" by auto
    with o [OF b(1)] b(2) show "\<exists>b. tunnel_open (us_tunnels ?s) b t'" "tu_addr (us_tunnels ?s ! t') = key" by auto
  next
    show "list_all (tunnel_open (us_tunnels ?s) False) (ch_buf (us_tunnelChannel ?s))"
      using inv q o by (fastforce simp: tunnels_inv_def list_all_iff)
    have "list_all (tunnel_open (us_tunnels s) True) (map up_tunnel ?ps)"
      using inv unfolding tunnels_inv_def m by simp
    then show "list_all (tunnel_open (us_tunnels ?s) True) (map up_tunnel (us_pairs ?s))"
      using p(1) o unfolding list_all_iff by fastforce
    have "tu_mu (us_tunnels s ! t) = tu_ping (us_tunnels s ! t)"
      using inv T by (simp add: tunnels_inv_def list_all_length tunnel_open_def)
    then show "list_all (\<lambda>c. tu_mu c = tu_ping c) (us_tunnels ?s)"
      using inv by (simp add: tunnels_inv_def list_all_update)
  qed (use inv p(2) in \<open>simp_all add: tunnels_inv_def\<close>)
qed

lemma udpCopy_end_inv:
  assumes "udpCopy_end j s = (es, u)" and j: "j < length (us_pairs s)" and inv: "udp_inv s"
  shows "udp_inv u \<and> UdpPanic \<notin> set es"
proof (cases "up_out (us_pairs s ! j) \<or> up_in (us_pairs s ! j)")
  case False
  define c where "c = us_pairs s ! j"
  note F = pair_facts [OF inv j c_def]
  let ?l = "us_ports s ! up_port c" and ?ps = "take j (us_pairs s) @ drop (Suc j) (us_pairs s)"
  define conn where "conn = ll_conns ?l ! up_local c"
  define tun where "tun = us_tunnels s ! up_tunnel c"
  let ?l' = "?l\<lparr>ll_conns := (ll_conns ?l)[up_local c := conn\<lparr>lu_payload := (lu_payload conn)\<lparr>pl_closed := True\<rparr>\<rparr>],
    ll_active := (ll_active ?l)(lu_addr conn := None)\<rparr>"
  let ?s = "s\<lparr>us_tunnels := (us_tunnels s)[up_tunnel c := tun\<lparr>tu_payload := (tu_payload tun)\<lparr>pl_closed := True\<rparr>\<rparr>],
    us_activeConnections := (us_activeConnections s)(tu_addr tun := None), us_pairs := ?ps\<rparr>"
  have u: "es = []" "u = ?s\<lparr>us_ports := (us_ports s)[up_port c := ?l']\<rparr>"
    using assms(1) False F(2,3)
    by (auto simp: udpCopy_end_def Let_def payload_close_def local_open_def tunnel_open_def
        conn_def tun_def simp flip: c_def)
  have T: "tunnels_inv ?s"
    using tunnels_inv_end [of s j "up_tunnel c"] inv j by (simp add: udp_inv_def c_def tun_def)
  have port: "port_inv ?l' (paired (up_port c) ?ps)"
  proof (rule paired_remove [OF j, of "up_port c"])
    fix A B assume AB: "paired (up_port c) (us_pairs s) = A @ paired_with (up_port c) (us_pairs s ! j) @ B"
      "paired (up_port c) ?ps = A @ B"
    then have "port_inv ?l (A @ [up_local c] @ B)" using F(4) by (simp add: paired_with_def c_def)
    from port_inv_end [OF this, of "(lu_payload conn)\<lparr>pl_closed := True\<rparr>"] AB(2) show ?thesis
      by (simp add: conn_def)
  qed
  have "paired n ?ps = paired n (us_pairs s)" if "n \<noteq> up_port c" for n
    by (rule paired_remove [OF j, of n]) (use that in \<open>auto simp: paired_with_def c_def\<close>)
  then have "port_inv ((us_ports s)[up_port c := ?l'] ! n) (paired n ?ps)" if "n < length (us_ports s)" for n
    using inv port that by (cases "n = up_port c") (simp_all add: udp_inv_def)
  moreover have "list_all (\<lambda>c. up_port c < length (us_ports s)) ?ps"
    using inv by (auto simp: udp_inv_def list_all_iff dest: in_set_takeD in_set_dropD)
  ultimately show ?thesis using T u by (simp add: udp_inv_def tunnels_inv_def)
qed (use assms in \<open>simp add: udpCopy_end_def Let_def\<close>)

lemma udp_acceptTunnelConn_inv:
  assumes "udp_acceptTunnelConn key packet s = (es, u)" and inv: "udp_inv s"
  shows "udp_inv u \<and> UdpPanic \<notin> set es"
proof (cases "us_activeConnections s key")
  case (Some t)
  then have t: "t < length (us_tunnels s)" "\<not> pl_closed (tu_payload (us_tunnels s ! t))"
    using inv by (auto simp: udp_inv_def tunnels_inv_def tunnel_open_def)
  then obtain p where p: "payload_send packet (tu_payload (us_tunnels s ! t)) = Some p"
    by (simp add: payload_send_def)
  have "tunnels_inv (s\<lparr>us_tunnels := (us_tunnels s)[t := (us_tunnels s ! t)\<lparr>tu_payload := p\<rparr>]\<rparr>)"
    using inv t payload_send_cases [OF p] by (intro tunnels_inv_update) (simp_all add: udp_inv_def)
  with inv assms(1) Some p show ?thesis by (auto simp: udp_acceptTunnelConn_def udp_inv_def)
next
  case None
  let ?t = "length (us_tunnels s)"
  have o: "tunnel_open (us_tunnels s @ [c]) b t = (if t = ?t then \<not> pl_closed (tu_payload c) \<and> tu_ping c = b
      else tunnel_open (us_tunnels s) b t)" for b t c
    by (auto simp: tunnel_open_def nth_append)
  have lt: "tunnel_open (us_tunnels s) b t \<Longrightarrow> t < ?t" for b t by (simp add: tunnel_open_def)
  have T: "tunnels_inv s" using inv by (simp add: udp_inv_def)
  have grow: "tunnels_inv (s\<lparr>us_tunnels := us_tunnels s @ [c]\<rparr>)" if "tu_mu c = tu_ping c" for c
  proof -
    have "tunnel_open (us_tunnels s) b t \<Longrightarrow> tunnel_open (us_tunnels s @ [c]) b t
        \<and> (us_tunnels s @ [c]) ! t = us_tunnels s ! t" for b t
      by (simp add: tunnel_open_def nth_append)
    then show ?thesis using T that unfolding tunnels_inv_def list_all_iff by simp metis
  qed
  show ?thesis
  proof (cases "packet = us_Token (us_config s)")
    case True
    let ?c = "\<lparr>tu_payload = new_payload, tu_addr = key, tu_ping = False, tu_mu = False\<rparr>"
    obtain ok ch where s: "try_send ?t (us_tunnelChannel s) = (ok, ch)" by (metis prod.exhaust)
    show ?thesis
    proof (cases ok)
      case False
      with assms None True s grow show ?thesis
        by (auto simp: udp_acceptTunnelConn_def Let_def udp_inv_def)
    next
      case ok: True
      have b: "ch_buf ch = ch_buf (us_tunnelChannel s) @ [?t]" using go_chan.send_ok [OF s [unfolded eqTrueI [OF ok]]] by simp
      let ?s = "s\<lparr>us_tunnels := us_tunnels s @ [?c]\<rparr>"
      have "list_all (\<lambda>t. t < ?t) (ch_buf (us_tunnelChannel s))"
        using T lt unfolding tunnels_inv_def list_all_iff by blast
      then have "?t \<notin> set (ch_buf (us_tunnelChannel s))" by (auto simp: list_all_iff)
      then have "tunnels_inv (?s\<lparr>us_tunnelChannel := ch, us_activeConnections := (us_activeConnections s)(key \<mapsto> ?t)\<rparr>)"
        using grow [of ?c] b by (auto simp: tunnels_inv_def o new_payload_def)
      with inv assms None True s ok show ?thesis
        by (auto simp: udp_acceptTunnelConn_def Let_def udp_inv_def tunnels_inv_def)
    qed
  qed (use assms None in \<open>auto simp: udp_acceptTunnelConn_def\<close>)
qed

subsection \<open>All steps\<close>

lemma udp_control_send_inv: "udp_control_send sig s = (e, t) \<Longrightarrow> udp_inv s \<Longrightarrow> udp_inv t"
  by (auto simp: udp_control_send_def split: option.splits prod.splits)

lemma udp_channelHandler_inv: "udp_channelHandler_step rtt ev s = (n, t) \<Longrightarrow> udp_inv s \<Longrightarrow> udp_inv t"
  using udp_control_send_inv [OF surjective_pairing]
  by (auto simp: udp_channelHandler_step_def dest: udp_control_send_inv
      split: control_event.splits option.splits prod.splits if_splits)

lemma udp_channelHandshake_inv: "udp_channelHandshake conns s = (es, t) \<Longrightarrow> udp_inv s \<Longrightarrow> udp_inv t \<and> UdpPanic \<notin> set es"
  by (induction conns s arbitrary: es rule: udp_channelHandshake.induct) (auto split: option.splits prod.splits)

lemma udp_localListener_inv:
  assumes "udp_localListener i now key packet s = (es, t)" and "i < length (us_ports s)" and "udp_inv s"
  shows "udp_inv t \<and> UdpPanic \<notin> set es"
proof (cases "ll_alive (us_ports s ! i)")
  case True
  obtain es' l req where r: "port_read i now key packet (us_ports s ! i) (us_reqNewConnChan s) = (es', l, req)"
    by (metis prod.exhaust)
  have "port_inv (us_ports s ! i) (paired i (us_pairs s))" using assms by (simp add: udp_inv_def)
  from port_read_inv [OF r this] udp_inv_port [OF assms(3)] assms(1) True r show ?thesis
    by (auto simp: udp_localListener_def)
qed (use assms in \<open>simp add: udp_localListener_def\<close>)

lemma udp_Restart_inv: "udp_inv s \<Longrightarrow> udp_inv (snd (udp_Restart s)) \<and> UdpPanic \<notin> set (fst (udp_Restart s))"
proof -
  assume i: "udp_inv s"
  have "port_inv (l\<lparr>ll_alive := False\<rparr>) ks = port_inv l ks" for l ks
    by (simp add: port_inv_def queue_of_def)
  with i show ?thesis by (auto simp: udp_Restart_def udp_inv_def tunnels_inv_def split: option.split)
qed

lemma udp_localListener_start_inv: "udp_inv s \<Longrightarrow> udp_inv (udp_localListener_start addr s)"
proof -
  assume i: "udp_inv s"
  have "paired n (us_pairs s) = []" if "n \<ge> length (us_ports s)"
    for n using i that by (auto simp: udp_inv_def list_all_iff paired_def paired_with_def)
  with i show ?thesis
    by (auto simp: udp_localListener_start_def udp_inv_def tunnels_inv_def port_inv_def queue_of_def
        nth_append less_Suc_eq list_all_iff)
qed

lemma copy_turn_panic: "copy_turn to ev p = (es, q, on) \<Longrightarrow> (\<And>d. to d \<noteq> UdpPanic) \<Longrightarrow> UdpPanic \<notin> set es"
  by (cases ev) (auto simp: copy_turn_def write_datagram_def split: prod.splits received.splits if_splits; metis)+

lemma udp_copies_inv:
  assumes "udp_inv s" and "j < length (us_pairs s)"
  shows "udpLocalCopy j ev s = (es, t) \<Longrightarrow> udp_inv t \<and> UdpPanic \<notin> set es"
    and "udpTunnelCopy j ev s = (es, t) \<Longrightarrow> udp_inv t \<and> UdpPanic \<notin> set es"
proof -
  have no: "copy_turn (ToTunnel k) ev p = (es, q, on) \<Longrightarrow> UdpPanic \<notin> set es"
    "copy_turn (ToUser i k) ev p = (es, q, on) \<Longrightarrow> UdpPanic \<notin> set es" for i k p q on
    by (erule copy_turn_panic, simp)+
  show "udpLocalCopy j ev s = (es, t) \<Longrightarrow> udp_inv t \<and> UdpPanic \<notin> set es"
    using assms udpLocalCopy_inv [of j ev s es t] no(1)
    by (auto simp: udpLocalCopy_def Let_def split: if_splits prod.splits)
  show "udpTunnelCopy j ev s = (es, t) \<Longrightarrow> udp_inv t \<and> UdpPanic \<notin> set es"
    using assms udpTunnelCopy_inv [of j ev s es t] no(2)
    by (auto simp: udpTunnelCopy_def Let_def split: if_splits prod.splits)
qed

lemma udp_step_inv:
  assumes step: "udp_step s (es, t)" and inv: "udp_inv s"
  shows "udp_inv t \<and> UdpPanic \<notin> set es"
proof (rule udp_stepE [OF step])
  fix conns show "(es, t) = udp_channelHandshake conns s \<Longrightarrow> ?thesis"
    using inv udp_channelHandshake_inv by metis
next
  fix rtt ev show "es = [] \<Longrightarrow> t = snd (udp_channelHandler_step rtt ev s) \<Longrightarrow> ?thesis"
    using inv udp_channelHandler_inv [OF surjective_pairing] by simp
next
  show "es = [] \<Longrightarrow> t = snd (udp_channelHandler_start s) \<Longrightarrow> ?thesis"
    using inv by (auto simp: udp_channelHandler_start_def udp_control_send_inv split: prod.splits option.splits)
next
  fix key packet show "(es, t) = udp_acceptTunnelConn key packet s \<Longrightarrow> ?thesis"
    using inv udp_acceptTunnelConn_inv by metis
next
  fix i now key packet
  show "(es, t) = udp_localListener i now key packet s \<Longrightarrow> i < length (us_ports s) \<Longrightarrow> ?thesis"
    using inv udp_localListener_inv by metis
next
  fix i now show "es = [] \<Longrightarrow> t = udp_handleLoop_take i now s \<Longrightarrow> i < length (us_ports s) \<Longrightarrow> ?thesis"
    using inv udp_inv_port [OF inv, of i] port_take_inv by (simp add: udp_handleLoop_take_def udp_inv_def)
next
  fix i ok show "(es, t) = udp_handleLoop_pair i ok s \<Longrightarrow> i < length (us_ports s) \<Longrightarrow> ?thesis"
    using inv udp_handleLoop_pair_inv by metis
next
  fix j ev show "(es, t) = udpLocalCopy j ev s \<Longrightarrow> j < length (us_pairs s) \<Longrightarrow> ?thesis"
    using udp_copies_inv(1) [OF inv] by metis
next
  fix j ev show "(es, t) = udpTunnelCopy j ev s \<Longrightarrow> j < length (us_pairs s) \<Longrightarrow> ?thesis"
    using udp_copies_inv(2) [OF inv] by metis
next
  fix j show "(es, t) = udpCopy_end j s \<Longrightarrow> j < length (us_pairs s) \<Longrightarrow> ?thesis"
    using inv udpCopy_end_inv by metis
next
  fix k ev show "(es, t) = udp_keepAlive k ev s \<Longrightarrow> ?thesis"
    using inv by (auto simp: udp_keepAlive_def Let_def split: keep_event.splits if_splits)
next
  show "(es, t) = udp_Restart s \<Longrightarrow> ?thesis" using inv udp_Restart_inv by (metis fst_conv snd_conv)
qed (use inv udp_localListener_start_inv in \<open>auto simp: udp_Start_def\<close>)

lemma udp_reachable_inv: "udp_reachable config s \<Longrightarrow> udp_inv s"
proof (induction rule: udp_reachable.induct)
  case start
  show ?case by (simp add: NewUDPServer_def udp_inv_def tunnels_inv_def make_chan_def)
next
  case (step s es t)
  from udp_step_inv [OF step(2,3)] show ?case by simp
qed

text \<open>The steps of the control channel leave the connections alone.\<close>

definition udp_conns :: "UdpTransport \<Rightarrow> local_port list \<times> udp_pair list \<times> TunnelUDPConn list \<times> nat list" where
  "udp_conns s = (us_ports s, us_pairs s, us_tunnels s, us_keepers s)"

lemma udp_control_send_conns: "udp_control_send sg s = (e, t) \<Longrightarrow> udp_conns t = udp_conns s"
  by (auto simp: udp_control_send_def udp_conns_def split: option.splits prod.splits)

lemma udp_channelHandler_conns: "udp_channelHandler_step rtt ev s = (n, t) \<Longrightarrow> udp_conns t = udp_conns s"
proof (cases ev)
  case ReqNewConn
  assume a: "udp_channelHandler_step rtt ev s = (n, t)"
  show ?thesis
  proof (cases "try_recv (us_reqNewConnChan s)")
    case None
    with a ReqNewConn show ?thesis by (simp add: udp_channelHandler_step_def)
  next
    case (Some x)
    obtain u ch e s' where x: "x = (u, ch)" and c: "udp_control_send SG_Chan (s\<lparr>us_reqNewConnChan := ch\<rparr>) = (e, s')"
      by (metis prod.exhaust)
    with a ReqNewConn Some have "t = s'" by (cases e) (simp_all add: udp_channelHandler_step_def)
    with udp_control_send_conns [OF c] show ?thesis by (simp add: udp_conns_def)
  qed
next
  case Tick
  assume a: "udp_channelHandler_step rtt ev s = (n, t)"
  obtain e s' where c: "udp_control_send SG_HB s = (e, s')" by (metis prod.exhaust)
  with a Tick have "t = s'" by (cases e) (simp_all add: udp_channelHandler_step_def)
  with udp_control_send_conns [OF c] show ?thesis by simp
next
  case CtxDone
  assume "udp_channelHandler_step rtt ev s = (n, t)"
  with CtxDone udp_control_send_conns [OF surjective_pairing] show ?thesis
    by (auto simp: udp_channelHandler_step_def)
qed (auto simp: udp_channelHandler_step_def udp_conns_def split: if_splits)

lemma udp_channelHandshake_conns:
  "udp_channelHandshake conns s = (es, t) \<Longrightarrow> udp_conns t = udp_conns s \<and> set es \<subseteq> range CloseControl"
  by (induction conns s arbitrary: es rule: udp_channelHandshake.induct)
    (auto simp: udp_conns_def split: option.splits prod.splits)

text \<open>The outcomes of a step, as far as connections are concerned.\<close>

lemma udp_step_cases:
  assumes "udp_step s (es, t)"
  obtains (control) "udp_conns t = udp_conns s" "set es \<subseteq> range CloseControl"
  | (accept) key packet where "udp_acceptTunnelConn key packet s = (es, t)"
  | (listen) addr where "t = udp_localListener_start addr s" "es = []"
  | (read) i now key packet where "udp_localListener i now key packet s = (es, t)" "i < length (us_ports s)"
  | (take) i now where "t = udp_handleLoop_take i now s" "es = []" "i < length (us_ports s)"
  | (pair) i ok where "udp_handleLoop_pair i ok s = (es, t)" "i < length (us_ports s)"
  | (copy_out) j ev where "udpLocalCopy j ev s = (es, t)" "j < length (us_pairs s)"
  | (copy_in) j ev where "udpTunnelCopy j ev s = (es, t)" "j < length (us_pairs s)"
  | (copy_end) j where "udpCopy_end j s = (es, t)" "j < length (us_pairs s)"
  | (keep) k ev where "udp_keepAlive k ev s = (es, t)" "k \<in> set (us_keepers s)"
  | (restart) "us_ports t = map (\<lambda>l. l\<lparr>ll_alive := False\<rparr>) (us_ports s)" "us_pairs t = us_pairs s"
      "us_tunnels t = us_tunnels s" "us_keepers t = []" "set es \<subseteq> range CloseControl"
proof (rule udp_stepE [OF assms])
  assume "es = []" "t = snd (udp_Start s)"
  then show thesis by (intro that(1)) (auto simp: udp_Start_def udp_conns_def)
next
  fix conns assume "(es, t) = udp_channelHandshake conns s"
  then show thesis using udp_channelHandshake_conns [of conns s es t] by (intro that(1)) simp_all
next
  assume a: "es = []" "t = snd (udp_channelHandler_start s)"
  obtain e s' where c: "udp_control_send SG_RTT s = (e, s')" by (metis prod.exhaust)
  with a have "t = s'" by (cases e) (simp_all add: udp_channelHandler_start_def)
  with udp_control_send_conns [OF c] a show thesis by (intro that(1)) simp_all
next
  fix rtt ev assume "es = []" "t = snd (udp_channelHandler_step rtt ev s)"
  then show thesis using udp_channelHandler_conns [OF surjective_pairing] by (intro that(1)) simp_all
next
  assume "(es, t) = udp_Restart s"
  then show thesis by (intro that(11)) (auto simp: udp_Restart_def split: option.splits)
qed (blast intro: that(2-10) sym)+

lemma pair_cases:
  assumes "udp_handleLoop_pair i ok s = (es, u)"
  obtains (same) "us_ports u = us_ports s" "us_pairs u = us_pairs s" "set es \<subseteq> {UdpPanic}"
      "us_tunnels u = us_tunnels s \<or> (\<exists>t. us_tunnels u = (us_tunnels s)[t := (us_tunnels s ! t)\<lparr>tu_ping := True, tu_mu := True\<rparr>]
        \<and> \<not> tu_ping (us_tunnels s ! t))" "us_keepers u = us_keepers s"
  | (paired) k t ch where "ll_hand (us_ports s ! i) = Some k" "try_recv (us_tunnelChannel s) = Some (t, ch)"
      "\<not> tu_ping (us_tunnels s ! t)"
      "es = [ToTunnel t (lu_remoteAddr (ll_conns (us_ports s ! i) ! k))]"
      "us_ports u = (us_ports s)[i := (us_ports s ! i)\<lparr>ll_hand := None\<rparr>]"
      "us_pairs u = us_pairs s @ [\<lparr>up_port = i, up_local = k, up_tunnel = t, up_out = True, up_in = True\<rparr>]"
      "us_tunnels u = (us_tunnels s)[t := (us_tunnels s ! t)\<lparr>tu_ping := True, tu_mu := True\<rparr>]"
      "us_keepers u = us_keepers s"
proof (cases "ok \<and> ll_alive (us_ports s ! i)")
  case True
  show thesis
  proof (cases "\<exists>k t ch. ll_hand (us_ports s ! i) = Some k \<and> try_recv (us_tunnelChannel s) = Some (t, ch)
      \<and> \<not> tu_ping (us_tunnels s ! t)")
    case ex: True
    then obtain k t ch where k: "ll_hand (us_ports s ! i) = Some k" "try_recv (us_tunnelChannel s) = Some (t, ch)"
      "\<not> tu_ping (us_tunnels s ! t)" by blast
    from assms True k show thesis by (intro that(2) [OF k]) (auto simp: udp_handleLoop_pair_def Let_def)
  next
    case False
    with assms True show thesis
      by (intro that(1)) (auto simp: udp_handleLoop_pair_def Let_def split: option.splits if_splits)
  qed
next
  case False
  with assms show thesis
    by (intro that(1)) (auto simp: udp_handleLoop_pair_def Let_def split: option.splits if_splits)
qed

lemma udpLocalCopy_cases:
  assumes "udpLocalCopy j ev s = (es, t)"
  obtains (off) "t = s" "es = []"
  | (turn) p on where "up_out (us_pairs s ! j)"
      "copy_turn (ToTunnel (up_tunnel (us_pairs s ! j))) ev
        (lu_payload (ll_conns (us_ports s ! up_port (us_pairs s ! j)) ! up_local (us_pairs s ! j))) = (es, p, on)"
      "t = s\<lparr>us_ports := (us_ports s)[up_port (us_pairs s ! j) := (us_ports s ! up_port (us_pairs s ! j))\<lparr>
            ll_conns := (ll_conns (us_ports s ! up_port (us_pairs s ! j)))[up_local (us_pairs s ! j) :=
              (ll_conns (us_ports s ! up_port (us_pairs s ! j)) ! up_local (us_pairs s ! j))\<lparr>lu_payload := p\<rparr>]\<rparr>],
          us_pairs := (us_pairs s)[j := (us_pairs s ! j)\<lparr>up_out := on\<rparr>]\<rparr>"
  using assms by (auto simp: udpLocalCopy_def Let_def split: if_splits prod.splits)

lemma udpTunnelCopy_cases:
  assumes "udpTunnelCopy j ev s = (es, t)"
  obtains (off) "t = s" "es = []"
  | (turn) p on where "up_in (us_pairs s ! j)"
      "copy_turn (ToUser (up_port (us_pairs s ! j)) (up_local (us_pairs s ! j))) ev
        (tu_payload (us_tunnels s ! up_tunnel (us_pairs s ! j))) = (es, p, on)"
      "t = s\<lparr>us_tunnels := (us_tunnels s)[up_tunnel (us_pairs s ! j) :=
            (us_tunnels s ! up_tunnel (us_pairs s ! j))\<lparr>tu_payload := p\<rparr>],
          us_pairs := (us_pairs s)[j := (us_pairs s ! j)\<lparr>up_in := on\<rparr>]\<rparr>"
  using assms by (auto simp: udpTunnelCopy_def Let_def split: if_splits prod.splits)

lemma copy_turn_effects:
  assumes "copy_turn to ev p = (es, q, on)"
  shows "set es \<subseteq> {WriteFailed} \<union> range to"
  using assms by (cases ev) (auto simp: copy_turn_def write_datagram_def split: prod.splits received.splits if_splits)

lemma udpCopy_end_cases:
  assumes "udpCopy_end j s = (es, t)" and "j < length (us_pairs s)" and "udp_inv s"
  obtains (running) "t = s" "es = []"
  | (ends) c l q where "c = us_pairs s ! j" "l = us_ports s ! up_port c"
      "us_ports t = (us_ports s)[up_port c := l\<lparr>ll_conns := (ll_conns l)[up_local c :=
          (ll_conns l ! up_local c)\<lparr>lu_payload := (lu_payload (ll_conns l ! up_local c))\<lparr>pl_closed := True\<rparr>\<rparr>],
        ll_active := (ll_active l)(lu_addr (ll_conns l ! up_local c) := None)\<rparr>]"
      "us_pairs t = take j (us_pairs s) @ drop (Suc j) (us_pairs s)" "es = []"
      "us_tunnels t = (us_tunnels s)[up_tunnel c := (us_tunnels s ! up_tunnel c)\<lparr>tu_payload := q\<rparr>]"
      "us_keepers t = us_keepers s"
proof (cases "up_out (us_pairs s ! j) \<or> up_in (us_pairs s ! j)")
  case False
  note F = pair_facts [OF assms(3,2) refl]
  from False F(2,3) assms(1) show thesis
    by (intro that(2) [OF refl refl])
      (auto simp: udpCopy_end_def Let_def payload_close_def local_open_def tunnel_open_def)
next
  case True
  with assms(1) show thesis by (intro that(1)) (auto simp: udpCopy_end_def Let_def)
qed

section \<open>Stranded users\<close>

text \<open>A user's connection \<open>k\<close> that is still in the map of its port, but neither queued, nor in the
  hand of the handler, nor being copied.\<close>

definition port_stranded :: "nat \<Rightarrow> nat list \<Rightarrow> string \<Rightarrow> local_port \<Rightarrow> bool" where
  "port_stranded k ks key l \<longleftrightarrow> k < length (ll_conns l) \<and> lu_addr (ll_conns l ! k) = key
     \<and> ll_active l key = Some k \<and> k \<notin> set (queue_of l @ ks)"

definition stranded :: "nat \<Rightarrow> nat \<Rightarrow> string \<Rightarrow> UdpTransport \<Rightarrow> bool" where
  "stranded i k key s \<longleftrightarrow> i < length (us_ports s)
     \<and> port_stranded k (paired i (us_pairs s)) key (us_ports s ! i)"

lemma port_stranded_read:
  assumes "port_read i now src packet l req = (es, l', req')" and "port_inv l ks" and "port_stranded k ks key l"
  shows "port_stranded k ks key l'"
  using assms(1,2)
proof (cases rule: port_read_cases)
  case (known k' p)
  with assms(3) show ?thesis by (cases "k' = k") (auto simp: port_stranded_def queue_of_def)
next
  case (new ch p)
  with assms(3) have "src \<noteq> key" by (auto simp: port_stranded_def)
  with new assms(3) go_chan.send_ok [OF new(2)] show ?thesis
    by (auto simp: port_stranded_def queue_of_def nth_append split: option.splits)
next
  case (full ch c)
  with assms(3) show ?thesis by (auto simp: port_stranded_def queue_of_def nth_append)
qed

lemma port_stranded_take: "port_stranded k ks key l \<Longrightarrow> port_stranded k ks key (port_take now l)"
proof (cases "ll_alive l \<and> ll_hand l = None \<and> try_recv (ll_udpChan l) \<noteq> None")
  case True
  assume s: "port_stranded k ks key l"
  from True obtain k' ch where t: "try_recv (ll_udpChan l) = Some (k', ch)" by auto
  with s True go_chan.recv_some [OF t] show ?thesis by (auto simp: port_take_def port_stranded_def queue_of_def)
qed (auto simp: port_take_def split: option.splits)

lemma port_stranded_payload:
  "port_stranded k ks key l \<Longrightarrow>
    port_stranded k ks key (l\<lparr>ll_conns := (ll_conns l)[k' := (ll_conns l ! k')\<lparr>lu_payload := p\<rparr>]\<rparr>)"
  by (cases "k' = k") (auto simp: port_stranded_def queue_of_def)

lemma stranded_port:
  assumes "stranded i k key s" and "n = i \<Longrightarrow> port_stranded k (paired i (us_pairs s)) key l"
    and "us_ports t = (us_ports s)[n := l]" and "paired i (us_pairs t) = paired i (us_pairs s)"
  shows "stranded i k key t"
  using assms by (cases "n = i") (auto simp: stranded_def)

text \<open>It stays so: no step serves it again.\<close>

lemma stranded_step:
  assumes step: "udp_step s (es, t)" and inv: "udp_inv s" and st: "stranded i k key s"
  shows "stranded i k key t \<and> (\<forall>d. ToUser i k d \<notin> set es)"
proof -
  have np: "\<not> (up_port c = i \<and> up_local c = k)" if "c \<in> set (us_pairs s)" for c
    using st paired_mem [OF that] by (auto simp: stranded_def port_stranded_def)
  have P: "port_stranded k (paired i (us_pairs s)) key (us_ports s ! i)" "i < length (us_ports s)"
    "port_inv (us_ports s ! i) (paired i (us_pairs s))"
    using st inv by (simp_all add: stranded_def udp_inv_def)
  from step show ?thesis
  proof (cases rule: udp_step_cases)
    case control
    with st show ?thesis by (auto simp: stranded_def udp_conns_def)
  next
    case (accept src packet)
    then have "us_ports t = us_ports s \<and> us_pairs t = us_pairs s \<and> set es \<subseteq> {UdpPanic}"
      by (auto simp: udp_acceptTunnelConn_def Let_def split: option.splits if_splits prod.splits bool.splits)
    with st show ?thesis by (auto simp: stranded_def)
  next
    case (listen addr)
    with st show ?thesis by (auto simp: stranded_def udp_localListener_start_def nth_append)
  next
    case (read n now src packet)
    show ?thesis
    proof (cases "ll_alive (us_ports s ! n)")
      case True
      obtain es' l req where r: "port_read n now src packet (us_ports s ! n) (us_reqNewConnChan s) = (es', l, req)"
        by (metis prod.exhaust)
      have "n = i \<Longrightarrow> port_stranded k (paired i (us_pairs s)) key l"
        using port_stranded_read [of i] r P by blast
      moreover have "port_inv (us_ports s ! n) (paired n (us_pairs s))" using inv read(2) by (simp add: udp_inv_def)
      with r have "ToUser i k d \<notin> set es'" for d
        by (cases rule: port_read_cases) (auto split: if_splits)
      ultimately show ?thesis using read True r stranded_port [OF st, of n l t]
        by (auto simp: udp_localListener_def)
    next
      case False
      with read st show ?thesis by (simp add: udp_localListener_def)
    qed
  next
    case (take n now)
    then show ?thesis using stranded_port [OF st, of n _ t] port_stranded_take P
      by (simp add: udp_handleLoop_take_def)
  next
    case (pair n ok)
    from pair(1) show ?thesis
    proof (cases rule: pair_cases)
      case (paired k' tn ch)
      have "n = i \<Longrightarrow> k' \<noteq> k" using P(1) paired(1) by (auto simp: port_stranded_def queue_of_def)
      then show ?thesis using st paired
        by (cases "n = i") (auto simp: stranded_def port_stranded_def queue_of_def paired_def paired_with_def)
    qed (use st in \<open>auto simp: stranded_def\<close>)
  next
    case (copy_out j ev)
    from copy_out(1) show ?thesis
    proof (cases rule: udpLocalCopy_cases)
      case (turn p on)
      have "ToUser i k d \<notin> set es" for d using copy_turn_effects [OF turn(2)] by auto
      moreover have "port_stranded k (paired i (us_pairs s)) key (us_ports t ! i)"
        using P(1,2) turn(3) by (cases "up_port (us_pairs s ! j) = i") (simp_all add: port_stranded_payload)
      ultimately show ?thesis using st turn(3) by (simp add: stranded_def paired_update)
    qed (use st in simp)
  next
    case (copy_in j ev)
    from copy_in(1) show ?thesis
    proof (cases rule: udpTunnelCopy_cases)
      case (turn p on)
      have "ToUser i k d \<notin> set es" for d
        using copy_turn_effects [OF turn(2)] np [of "us_pairs s ! j"] copy_in(2) by auto
      then show ?thesis using st turn(3) by (simp add: stranded_def paired_update)
    qed (use st in simp)
  next
    case (copy_end j)
    from copy_end inv show ?thesis
    proof (cases rule: udpCopy_end_cases)
      case (ends c l q)
      show ?thesis
      proof (cases "up_port c = i")
        case True
        obtain A B where AB: "paired i (us_pairs s) = A @ [up_local c] @ B" "paired i (us_pairs t) = A @ B"
          by (rule paired_remove [OF copy_end(2), of i]) (use ends(1,4) True in \<open>simp add: paired_with_def\<close>)
        then have n: "up_local c \<noteq> k" using P(1) by (auto simp: port_stranded_def)
        have l: "l = us_ports s ! i" using ends(2) True by simp
        have "ll_active l (lu_addr (ll_conns l ! up_local c)) = Some (up_local c)"
          using P(3) unfolding AB(1) port_inv_def l by simp
        moreover have "ll_active l key = Some k" using P(1) by (simp add: port_stranded_def l)
        ultimately have "lu_addr (ll_conns l ! up_local c) \<noteq> key" using n by auto
        moreover have "port_stranded k (A @ B) key l" using P(1) by (simp add: port_stranded_def AB(1) l)
        ultimately have "port_stranded k (A @ B) key (us_ports t ! i)"
          using n P(2) True by (simp add: ends(3) port_stranded_def queue_of_def)
        then show ?thesis using P(2) AB(2) ends(3,5) by (simp add: stranded_def)
      next
        case False
        have "paired i (us_pairs t) = paired i (us_pairs s)"
          by (rule paired_remove [OF copy_end(2), of i]) (use ends(1,4) False in \<open>simp add: paired_with_def\<close>)
        with st ends False show ?thesis by (simp add: stranded_def)
      qed
    qed (use st in simp)
  next
    case (keep t' ev)
    from keep(1) have "us_ports t = us_ports s \<and> us_pairs t = us_pairs s \<and> set es \<subseteq> range (ToTunnel t')"
      by (auto simp: udp_keepAlive_def Let_def split: keep_event.splits if_splits)
    with st show ?thesis by (auto simp: stranded_def)
  next
    case restart
    with st show ?thesis by (auto simp: stranded_def port_stranded_def queue_of_def)
  qed
qed

section \<open>Runs\<close>

inductive udp_run :: "UdpTransport \<Rightarrow> udp_effect list \<Rightarrow> UdpTransport \<Rightarrow> bool" for s where
  idle: "udp_run s [] s"
| more: "udp_run s es t \<Longrightarrow> udp_step t (fs, u) \<Longrightarrow> udp_run s (es @ fs) u"

lemma udp_run_reachable: "udp_run s es t \<Longrightarrow> udp_reachable config s \<Longrightarrow> udp_reachable config t"
  by (induction rule: udp_run.induct) (auto intro: udp_reachable.step)

lemma stranded_run:
  "udp_run s es t \<Longrightarrow> udp_inv s \<Longrightarrow> stranded i k key s \<Longrightarrow>
    udp_inv t \<and> stranded i k key t \<and> (\<forall>d. ToUser i k d \<notin> set es)"
proof (induction rule: udp_run.induct)
  case (more es t fs u)
  then have "udp_inv t" "stranded i k key t" by simp_all
  with udp_step_inv [OF more(2)] stranded_step [OF more(2)] more show ?case by auto
qed simp

end
