(* ===== verification/Udp_Order.thy ===== *)
theory Udp_Order
  imports Udp_Spec
begin

text \<open>
  The history of a UDP server: what was sent over each tunnel connection, against what was
  received from each user, in every run from the start.
\<close>

section \<open>Histories\<close>

fun sent :: "nat \<Rightarrow> udp_effect list \<Rightarrow> string list" where
  "sent t [] = []"
| "sent t (ToTunnel t' d # es) = (if t' = t then [d] else []) @ sent t es"
| "sent t (_ # es) = sent t es"

fun recvd :: "nat \<Rightarrow> nat \<Rightarrow> udp_effect list \<Rightarrow> string list" where
  "recvd i k [] = []"
| "recvd i k (Received i' k' d # es) = (if i' = i \<and> k' = k then [d] else []) @ recvd i k es"
| "recvd i k (_ # es) = recvd i k es"

lemma sent_append [simp]: "sent t (es @ fs) = sent t es @ sent t fs"
  by (induction es rule: sent.induct) auto

lemma recvd_append [simp]: "recvd i k (es @ fs) = recvd i k es @ recvd i k fs"
  by (induction es rule: recvd.induct) auto

lemma no_sent: "set es \<subseteq> {UdpPanic, WriteFailed} \<union> range CloseControl \<union> range (ToUser i k) \<union> range (Received m n) \<Longrightarrow> sent t es = []"
  by (induction es rule: sent.induct) auto

lemma no_recvd: "set es \<subseteq> {UdpPanic, WriteFailed} \<union> range CloseControl \<union> range (ToUser i k) \<union> range (ToTunnel t) \<Longrightarrow> recvd m n es = []"
  by (induction es rule: recvd.induct) auto

abbreviation nonempty :: "string list \<Rightarrow> string list" where
  "nonempty ds \<equiv> filter (\<lambda>d. d \<noteq> []) ds"

abbreviation local_conn :: "UdpTransport \<Rightarrow> nat \<Rightarrow> nat \<Rightarrow> LocalUDPConn" where
  "local_conn s i k \<equiv> ll_conns (us_ports s ! i) ! k"

definition known :: "UdpTransport \<Rightarrow> nat \<Rightarrow> nat \<Rightarrow> bool" where
  "known s i k \<longleftrightarrow> i < length (us_ports s) \<and> k < length (ll_conns (us_ports s ! i))"

definition pings_only :: "nat \<Rightarrow> udp_effect list \<Rightarrow> bool" where
  "pings_only t es \<longleftrightarrow> (\<exists>n. sent t es = replicate n [SG_Ping])"

text \<open>Over \<open>t\<close> went pings, the target of the user's connection, and then its datagrams in order;
  \<open>rest\<close> are those that are still to go.\<close>

definition relayed_ok :: "udp_effect list \<Rightarrow> UdpTransport \<Rightarrow> nat \<Rightarrow> nat \<Rightarrow> nat \<Rightarrow> string list \<Rightarrow> bool" where
  "relayed_ok es s t i k rest \<longleftrightarrow>
     (\<exists>n data. sent t es = replicate n [SG_Ping] @ lu_remoteAddr (local_conn s i k) # data
        \<and> nonempty (recvd i k es) = data @ rest)"

definition tunnel_hist :: "udp_effect list \<Rightarrow> UdpTransport \<Rightarrow> nat \<Rightarrow> bool" where
  "tunnel_hist es s t \<longleftrightarrow>
     (if tu_ping (us_tunnels s ! t) then pings_only t es \<or> (\<exists>i k rest. known s i k \<and> relayed_ok es s t i k rest)
      else pings_only t es)"

definition pair_hist :: "udp_effect list \<Rightarrow> UdpTransport \<Rightarrow> udp_pair \<Rightarrow> bool" where
  "pair_hist es s c \<longleftrightarrow>
     (\<exists>rest. relayed_ok es s (up_tunnel c) (up_port c) (up_local c) rest
        \<and> (up_out c \<longrightarrow> rest = nonempty (waiting (lu_payload (local_conn s (up_port c) (up_local c))))))"

definition udp_hist :: "udp_effect list \<Rightarrow> UdpTransport \<Rightarrow> bool" where
  "udp_hist es s \<longleftrightarrow>
     (\<forall>t < length (us_tunnels s). tunnel_hist es s t)
     \<and> (\<forall>t \<ge> length (us_tunnels s). sent t es = [])
     \<and> (\<forall>c \<in> set (us_pairs s). pair_hist es s c)
     \<and> (\<forall>i < length (us_ports s). \<forall>k \<in> set (queue_of (us_ports s ! i)).
          recvd i k es = waiting (lu_payload (local_conn s i k)))
     \<and> (\<forall>i k. \<not> known s i k \<longrightarrow> recvd i k es = [])
     \<and> (\<forall>t \<in> set (us_keepers s). t < length (us_tunnels s))"

text \<open>A step that adds the effects \<open>fs\<close> keeps what was relayed so far.\<close>

lemma relayed_ok_mono:
  assumes "relayed_ok es s t i k rest" and "sent t fs = []"
    and "lu_remoteAddr (local_conn s' i k) = lu_remoteAddr (local_conn s i k)"
  shows "relayed_ok (es @ fs) s' t i k (rest @ nonempty (recvd i k fs))"
  using assms by (auto simp: relayed_ok_def)

definition grows :: "UdpTransport \<Rightarrow> UdpTransport \<Rightarrow> bool" where
  "grows s s' \<longleftrightarrow> (\<forall>i k. known s i k \<longrightarrow> known s' i k
     \<and> lu_remoteAddr (local_conn s' i k) = lu_remoteAddr (local_conn s i k))"

lemma tunnel_hist_mono:
  assumes "tunnel_hist es s t" and "sent t fs = []" and "grows s s'"
    and "tu_ping (us_tunnels s' ! t) = tu_ping (us_tunnels s ! t)
      \<or> tu_ping (us_tunnels s' ! t) \<and> \<not> tu_ping (us_tunnels s ! t)"
  shows "tunnel_hist (es @ fs) s' t"
proof -
  have "known s' i k \<and> relayed_ok (es @ fs) s' t i k (rest @ nonempty (recvd i k fs))"
    if "known s i k" "relayed_ok es s t i k rest" for i k rest
    using that relayed_ok_mono [OF that(2) assms(2)] assms(3) by (auto simp: grows_def)
  with assms show ?thesis by (auto simp: tunnel_hist_def pings_only_def split: if_splits) blast+
qed

lemma grows_ports: "us_ports s' = us_ports s \<Longrightarrow> grows s s'"
  by (simp add: grows_def known_def)

text \<open>The part of the invariant on tunnel connections.\<close>

lemma tunnels_hist_mono:
  assumes "udp_hist es s" and "grows s s'" and "\<And>t. t < length (us_tunnels s) \<Longrightarrow> sent t fs = []"
    and "length (us_tunnels s') = length (us_tunnels s)"
    and "\<And>t. t < length (us_tunnels s) \<Longrightarrow> tu_ping (us_tunnels s ! t) \<Longrightarrow> tu_ping (us_tunnels s' ! t)"
    and "t < length (us_tunnels s')"
  shows "tunnel_hist (es @ fs) s' t"
  using assms by (intro tunnel_hist_mono [of es s]) (auto simp: udp_hist_def)

lemma pair_hist_mono:
  assumes "pair_hist es s c" and "sent (up_tunnel c) fs = []"
    and "lu_remoteAddr (local_conn s' (up_port c) (up_local c)) = lu_remoteAddr (local_conn s (up_port c) (up_local c))"
    and "up_out c \<Longrightarrow> waiting (lu_payload (local_conn s' (up_port c) (up_local c)))
      = waiting (lu_payload (local_conn s (up_port c) (up_local c))) @ recvd (up_port c) (up_local c) fs"
  shows "pair_hist (es @ fs) s' c"
proof -
  from assms(1) obtain rest where r: "relayed_ok es s (up_tunnel c) (up_port c) (up_local c) rest"
    "up_out c \<longrightarrow> rest = nonempty (waiting (lu_payload (local_conn s (up_port c) (up_local c))))"
    by (auto simp: pair_hist_def)
  from relayed_ok_mono [where s' = s', OF r(1) assms(2,3)] r(2) assms(4) show ?thesis unfolding pair_hist_def by fastforce
qed

text \<open>A step that touches no port, no pair, and no tunnel connection but to close its pings.\<close>

lemma udp_hist_quiet:
  assumes "udp_hist es s" and "us_ports s' = us_ports s" and "us_pairs s' = us_pairs s"
    and "length (us_tunnels s') = length (us_tunnels s)"
    and "\<And>t. t < length (us_tunnels s) \<Longrightarrow> tu_ping (us_tunnels s ! t) \<Longrightarrow> tu_ping (us_tunnels s' ! t)"
    and "\<And>t. sent t fs = []" and "\<And>i k. recvd i k fs = []" and "set (us_keepers s') \<subseteq> set (us_keepers s)"
  shows "udp_hist (es @ fs) s'"
  unfolding udp_hist_def
proof (intro conjI)
  show "\<forall>t < length (us_tunnels s'). tunnel_hist (es @ fs) s' t"
    using tunnels_hist_mono [OF assms(1) grows_ports [OF assms(2)] assms(6,4,5)] by blast
  show "\<forall>c \<in> set (us_pairs s'). pair_hist (es @ fs) s' c"
    using assms by (auto simp: udp_hist_def intro!: pair_hist_mono [of es s])
qed (use assms in \<open>auto simp: udp_hist_def known_def\<close>)

text \<open>A step that changes ports only.\<close>

lemma udp_hist_ports:
  assumes h: "udp_hist es s" and inv: "udp_inv s" and "grows s s'" and "us_pairs s' = us_pairs s"
    and "us_tunnels s' = us_tunnels s" and "us_keepers s' = us_keepers s" and s: "\<And>t. sent t fs = []"
    and w: "\<And>i k. known s i k \<Longrightarrow> waiting (lu_payload (local_conn s' i k)) = waiting (lu_payload (local_conn s i k)) @ recvd i k fs"
    and q: "\<And>i k. i < length (us_ports s') \<Longrightarrow> k \<in> set (queue_of (us_ports s' ! i)) \<Longrightarrow>
      known s i k \<and> k \<in> set (queue_of (us_ports s ! i))
      \<or> \<not> known s i k \<and> recvd i k fs = waiting (lu_payload (local_conn s' i k))"
    and n: "\<And>i k. \<not> known s' i k \<Longrightarrow> recvd i k fs = []"
  shows "udp_hist (es @ fs) s'"
  unfolding udp_hist_def
proof (intro conjI)
  show "\<forall>t < length (us_tunnels s'). tunnel_hist (es @ fs) s' t"
    using tunnels_hist_mono [OF h assms(3), of fs] assms(5) s by simp
  show "\<forall>c \<in> set (us_pairs s'). pair_hist (es @ fs) s' c"
  proof
    fix c assume c: "c \<in> set (us_pairs s')"
    then have p: "pair_hist es s c" using h assms(4) by (simp add: udp_hist_def)
    from c assms(4) obtain j where "j < length (us_pairs s)" "c = us_pairs s ! j" by (auto simp: in_set_conv_nth)
    from pair_facts [OF inv this] have "known s (up_port c) (up_local c)" by (simp add: known_def local_open_def)
    with assms(3) w show "pair_hist (es @ fs) s' c"
      by (intro pair_hist_mono [OF p]) (auto simp: grows_def s)
  qed
  have "recvd i k (es @ fs) = waiting (lu_payload (local_conn s' i k))"
    if "i < length (us_ports s')" "k \<in> set (queue_of (us_ports s' ! i))" for i k
    using q [OF that]
  proof
    assume "known s i k \<and> k \<in> set (queue_of (us_ports s ! i))"
    with h w show ?thesis by (simp add: udp_hist_def known_def)
  next
    assume "\<not> known s i k \<and> recvd i k fs = waiting (lu_payload (local_conn s' i k))"
    with h show ?thesis by (simp add: udp_hist_def)
  qed
  then show "\<forall>i < length (us_ports s'). \<forall>k \<in> set (queue_of (us_ports s' ! i)).
      recvd i k (es @ fs) = waiting (lu_payload (local_conn s' i k))" by blast
  show "\<forall>i k. \<not> known s' i k \<longrightarrow> recvd i k (es @ fs) = []"
    using h n assms(3) unfolding udp_hist_def grows_def by simp blast
qed (use h assms s in \<open>auto simp: udp_hist_def\<close>)

lemma queue_known:
  assumes "udp_inv s" and "i < length (us_ports s)" and "k \<in> set (queue_of (us_ports s ! i))"
  shows "known s i k"
  using assms by (auto simp: udp_inv_def port_inv_def known_def list_all_iff local_open_def)

lemma udp_hist_read:
  assumes h: "udp_hist es s" and inv: "udp_inv s" and st: "udp_localListener n now key packet s = (fs, t)"
    and n: "n < length (us_ports s)"
  shows "udp_hist (es @ fs) t"
proof (cases "ll_alive (us_ports s ! n)")
  case True
  let ?l = "us_ports s ! n"
  obtain l req where r: "port_read n now key packet ?l (us_reqNewConnChan s) = (fs, l, req)"
    and t: "t = s\<lparr>us_ports := (us_ports s)[n := l], us_reqNewConnChan := req\<rparr>"
    using st True by (auto simp: udp_localListener_def split: prod.splits)
  have pi: "port_inv ?l (paired n (us_pairs s))" using inv n by (simp add: udp_inv_def)
  have q: "i < length (us_ports s) \<Longrightarrow> k \<in> set (queue_of (us_ports s ! i)) \<Longrightarrow> known s i k" for i k
    using queue_known [OF inv] .
  from r pi show ?thesis
  proof (cases rule: port_read_cases)
    case (known k0 p)
    note P = payload_send_cases [OF known(2)]
    have lc: "local_conn t i k = (if i = n \<and> k = k0 \<and> k0 < length (ll_conns ?l) then (local_conn s i k)\<lparr>lu_payload := p\<rparr>
        else local_conn s i k)" for i k
      using n t known(4) by (cases "k0 < length (ll_conns ?l)") (auto simp: nth_list_update list_update_beyond)
    have kn: "known t i k = known s i k" for i k using n t known(4) by (auto simp: known_def nth_list_update)
    have qu: "queue_of (us_ports t ! i) = queue_of (us_ports s ! i)" for i
      using n t known(4) by (cases "i = n") (simp_all add: queue_of_def)
    have k0: "k0 < length (ll_conns ?l)" using pi known(1) by (simp add: port_inv_def local_open_def)
    show ?thesis
    proof (rule udp_hist_ports [OF h inv])
      show "grows s t" by (simp add: grows_def kn lc)
      show "waiting (lu_payload (local_conn t i k)) = waiting (lu_payload (local_conn s i k)) @ recvd i k fs"
        if "known s i k" for i k
        using P k0 known(3) by (auto simp: lc)
      show "known s i k \<and> k \<in> set (queue_of (us_ports s ! i))
        \<or> \<not> known s i k \<and> recvd i k fs = waiting (lu_payload (local_conn t i k))"
        if "i < length (us_ports t)" "k \<in> set (queue_of (us_ports t ! i))" for i k
        using that q t unfolding qu by simp
      show "recvd i k fs = []" if "\<not> known t i k" for i k
        using that known(3) k0 n unfolding kn by (auto simp: known_def)
    qed (use t known(3) in auto)
  next
    case (new ch p)
    let ?k = "length (ll_conns ?l)"
    note P = payload_send_cases [OF new(3)] and Q = go_chan.send_ok [OF new(2)]
    have lc: "local_conn t i k = local_conn s i k" if "known s i k" for i k
      using n t new(5) that by (cases "i = n") (auto simp: known_def nth_append)
    have kn: "known t i k \<longleftrightarrow> known s i k \<or> (i = n \<and> k = ?k)" for i k
      using n t new(5) by (cases "i = n") (auto simp: known_def)
    have qu: "set (queue_of (us_ports t ! i)) = (if i = n then insert ?k (set (queue_of ?l)) else set (queue_of (us_ports s ! i)))" for i
      using n t new(5) Q by (auto simp: queue_of_def split: option.splits)
    have nk: "\<not> known s n ?k" by (simp add: known_def)
    have wp: "waiting p = [packet]" using P by (simp add: new_payload_def make_chan_def)
    have pk: "lu_payload (local_conn t n ?k) = p" using n t new(5) by simp
    show ?thesis
    proof (rule udp_hist_ports [OF h inv])
      show "grows s t" by (simp add: grows_def kn lc)
      show "waiting (lu_payload (local_conn t i k)) = waiting (lu_payload (local_conn s i k)) @ recvd i k fs"
        if "known s i k" for i k
        using that lc nk new(4) by auto
      show "known s i k \<and> k \<in> set (queue_of (us_ports s ! i))
        \<or> \<not> known s i k \<and> recvd i k fs = waiting (lu_payload (local_conn t i k))"
        if "i < length (us_ports t)" "k \<in> set (queue_of (us_ports t ! i))" for i k
      proof (cases "i = n \<and> k = ?k")
        case True
        with nk pk wp new(4) show ?thesis by simp
      next
        case False
        with that(2) have "k \<in> set (queue_of (us_ports s ! i))" unfolding qu by (auto split: if_splits)
        moreover have "i < length (us_ports s)" using that(1) t by simp
        ultimately show ?thesis using q by blast
      qed
      show "recvd i k fs = []" if "\<not> known t i k" for i k
        using that new(4) unfolding kn by auto
    qed (use t new(4) in auto)
  next
    case (full ch c)
    have lc: "local_conn t i k = local_conn s i k" if "known s i k" for i k
      using n t full(4) that by (cases "i = n") (auto simp: known_def nth_append)
    have kn: "known s i k \<Longrightarrow> known t i k" for i k
      using n t full(4) by (cases "i = n") (auto simp: known_def)
    have qu: "queue_of (us_ports t ! i) = queue_of (us_ports s ! i)" for i
      using n t full(4) by (cases "i = n") (simp_all add: queue_of_def)
    show ?thesis
    proof (rule udp_hist_ports [OF h inv])
      show "grows s t" by (simp add: grows_def kn lc)
      show "known s i k \<and> k \<in> set (queue_of (us_ports s ! i))
        \<or> \<not> known s i k \<and> recvd i k fs = waiting (lu_payload (local_conn t i k))"
        if "i < length (us_ports t)" "k \<in> set (queue_of (us_ports t ! i))" for i k
        using that q t unfolding qu by simp
    qed (use t full(3) lc in auto)
  qed
next
  case False
  with h st show ?thesis by (simp add: udp_localListener_def)
qed

lemma udp_hist_take:
  assumes h: "udp_hist es s" and inv: "udp_inv s" and n: "n < length (us_ports s)"
  shows "udp_hist es (udp_handleLoop_take n now s)"
proof -
  let ?l = "port_take now (us_ports s ! n)" and ?t = "udp_handleLoop_take n now s"
  have same: "ll_conns ?l = ll_conns (us_ports s ! n)" by (simp add: port_take_def split: option.split)
  have sub: "set (queue_of ?l) \<subseteq> set (queue_of (us_ports s ! n))"
  proof (cases "ll_alive (us_ports s ! n) \<and> ll_hand (us_ports s ! n) = None \<and> try_recv (ll_udpChan (us_ports s ! n)) \<noteq> None")
    case True
    then obtain k ch where r: "try_recv (ll_udpChan (us_ports s ! n)) = Some (k, ch)" by auto
    with True go_chan.recv_some [OF r] show ?thesis by (auto simp: port_take_def queue_of_def)
  qed (auto simp: port_take_def split: option.splits)
  have lc: "ll_conns (us_ports ?t ! i) = ll_conns (us_ports s ! i)" for i
    using n same by (cases "i = n") (simp_all add: udp_handleLoop_take_def)
  have len: "length (us_ports ?t) = length (us_ports s)" by (simp add: udp_handleLoop_take_def)
  have fr: "us_pairs ?t = us_pairs s" "us_tunnels ?t = us_tunnels s" "us_keepers ?t = us_keepers s"
    by (simp_all add: udp_handleLoop_take_def)
  have qu: "set (queue_of (us_ports ?t ! i)) \<subseteq> set (queue_of (us_ports s ! i))" for i
    using n sub by (cases "i = n") (simp_all add: udp_handleLoop_take_def)
  have "udp_hist (es @ []) ?t"
  proof (rule udp_hist_ports [OF h inv])
    show "grows s ?t" by (simp add: grows_def known_def lc len)
    show "known s i k \<and> k \<in> set (queue_of (us_ports s ! i))
        \<or> \<not> known s i k \<and> recvd i k [] = waiting (lu_payload (local_conn ?t i k))"
      if "i < length (us_ports ?t)" "k \<in> set (queue_of (us_ports ?t ! i))" for i k
      using that len qu queue_known [OF inv] by (metis subsetD)
  qed (simp_all add: lc fr)
  then show ?thesis by simp
qed

lemma udp_hist_listen: "udp_hist es s \<Longrightarrow> udp_inv s \<Longrightarrow> udp_hist es (udp_localListener_start addr s)"
proof -
  assume h: "udp_hist es s" and inv: "udp_inv s"
  let ?t = "udp_localListener_start addr s"
  have p: "us_ports ?t ! i = us_ports s ! i" if "i < length (us_ports s)" for i
    using that by (simp add: udp_localListener_start_def nth_append)
  have len: "length (us_ports ?t) = Suc (length (us_ports s))" by (simp add: udp_localListener_start_def)
  have new: "queue_of (us_ports ?t ! length (us_ports s)) = []"
    by (simp add: udp_localListener_start_def queue_of_def)
  have "udp_hist (es @ []) ?t"
  proof (rule udp_hist_ports [OF h inv])
    show "grows s ?t" by (simp add: grows_def known_def p len)
    show "known s i k \<and> k \<in> set (queue_of (us_ports s ! i))
        \<or> \<not> known s i k \<and> recvd i k [] = waiting (lu_payload (local_conn ?t i k))"
      if "i < length (us_ports ?t)" "k \<in> set (queue_of (us_ports ?t ! i))" for i k
      using that len p new queue_known [OF inv] by (cases "i = length (us_ports s)") (auto simp: less_Suc_eq)
  qed (simp_all add: p known_def udp_localListener_start_def nth_append)
  then show ?thesis by simp
qed

lemma udp_hist_restart:
  assumes h: "udp_hist es s" and inv: "udp_inv s"
    and t: "us_ports t = map (\<lambda>l. l\<lparr>ll_alive := False\<rparr>) (us_ports s)" "us_pairs t = us_pairs s"
      "us_tunnels t = us_tunnels s" "us_keepers t = []" "set fs \<subseteq> range CloseControl"
  shows "udp_hist (es @ fs) t"
proof -
  have p: "ll_conns (us_ports t ! i) = ll_conns (us_ports s ! i)" "queue_of (us_ports t ! i) = queue_of (us_ports s ! i)"
    if "i < length (us_ports s)" for i
    using that t by (simp_all add: queue_of_def)
  have len: "length (us_ports t) = length (us_ports s)" using t by simp
  have s: "sent k fs = []" "recvd i k fs = []" for i k
    using t(5) by (intro no_sent no_recvd; blast)+
  have "udp_hist (es @ fs) (t\<lparr>us_keepers := us_keepers s\<rparr>)" (is "udp_hist _ ?t")
  proof (rule udp_hist_ports [OF h inv])
    show "grows s ?t" using len p by (simp add: grows_def known_def)
    show "known s i k \<and> k \<in> set (queue_of (us_ports s ! i))
        \<or> \<not> known s i k \<and> recvd i k fs = waiting (lu_payload (local_conn ?t i k))"
      if "i < length (us_ports ?t)" "k \<in> set (queue_of (us_ports ?t ! i))" for i k
      using that len p queue_known [OF inv] by auto
  qed (use t s p in \<open>auto simp: known_def\<close>)
  from udp_hist_quiet [OF this, of t "[]"] show ?thesis by (simp add: t(4))
qed

lemma udp_hist_accept:
  assumes h: "udp_hist es s" and a: "udp_acceptTunnelConn key packet s = (fs, t)" and np: "UdpPanic \<notin> set fs"
  shows "udp_hist (es @ fs) t"
proof -
  consider (known) k p where "us_tunnels t = (us_tunnels s)[k := (us_tunnels s ! k)\<lparr>tu_payload := p\<rparr>]"
      "us_ports t = us_ports s" "us_pairs t = us_pairs s" "us_keepers t = us_keepers s" "fs = []"
    | (same) "t = s" "fs = []"
    | (new) c where "us_tunnels t = us_tunnels s @ [c]" "\<not> tu_ping c"
      "us_ports t = us_ports s" "us_pairs t = us_pairs s" "fs = []"
      "set (us_keepers t) \<subseteq> insert (length (us_tunnels s)) (set (us_keepers s))"
  proof (cases "us_activeConnections s key")
    case None
    obtain ok ch where sd: "try_send (length (us_tunnels s)) (us_tunnelChannel s) = (ok, ch)" by (metis prod.exhaust)
    show thesis
    proof (cases "packet = us_Token (us_config s)")
      case True
      with None sd a show thesis
        by (cases ok; intro that(3) [where c = "last (us_tunnels t)"]) (auto simp: udp_acceptTunnelConn_def Let_def)
    next
      case False
      with None a show thesis by (intro that(2)) (simp_all add: udp_acceptTunnelConn_def)
    qed
  next
    case (Some k)
    then obtain p where "payload_send packet (tu_payload (us_tunnels s ! k)) = Some p"
      using a np by (auto simp: udp_acceptTunnelConn_def split: option.splits)
    with Some a show thesis by (intro that(1) [of k p]) (auto simp: udp_acceptTunnelConn_def)
  qed
  then show ?thesis
  proof cases
    case (known k p)
    have "tu_ping (us_tunnels t ! i) = tu_ping (us_tunnels s ! i)" if "i < length (us_tunnels s)" for i
      using known(1) that by (cases "i = k") simp_all
    with known show ?thesis by (intro udp_hist_quiet [OF h]) auto
  next
    case same
    with h show ?thesis by simp
  next
    case (new c)
    have "tunnel_hist es s i = tunnel_hist es t i" if "i < length (us_tunnels s)" for i
      using new that by (simp add: tunnel_hist_def known_def relayed_ok_def nth_append)
    moreover have "tunnel_hist es t (length (us_tunnels s))"
      using new h by (simp add: tunnel_hist_def pings_only_def udp_hist_def)
    moreover have "pair_hist es t c = pair_hist es s c" for c
      using new by (simp add: pair_hist_def relayed_ok_def)
    moreover have "known t = known s" using new by (intro ext) (simp add: known_def)
    ultimately show ?thesis using h new unfolding udp_hist_def by (auto simp: less_Suc_eq)
  qed
qed

lemma udp_hist_pair:
  assumes h: "udp_hist es s" and inv: "udp_inv s" and n: "i < length (us_ports s)"
    and st: "udp_handleLoop_pair i ok s = (fs, u)"
  shows "udp_hist (es @ fs) u"
  using st
proof (cases rule: pair_cases)
  case same
  have "UdpPanic \<notin> set fs" using udp_handleLoop_pair_inv [OF st n inv] by blast
  with same(3) have "fs = []" by (cases fs) auto
  moreover have "tu_ping (us_tunnels u ! t)" if "t < length (us_tunnels s)" "tu_ping (us_tunnels s ! t)" for t
  proof (rule disjE [OF same(4)])
    assume "\<exists>t. us_tunnels u = (us_tunnels s)[t := (us_tunnels s ! t)\<lparr>tu_ping := True, tu_mu := True\<rparr>]
        \<and> \<not> tu_ping (us_tunnels s ! t)"
    then obtain ta where "us_tunnels u = (us_tunnels s)[ta := (us_tunnels s ! ta)\<lparr>tu_ping := True, tu_mu := True\<rparr>]" by blast
    with that show ?thesis by (cases "ta = t") simp_all
  qed (use that in simp)
  moreover have "length (us_tunnels u) = length (us_tunnels s)" using same(4) by auto
  ultimately show ?thesis using same by (intro udp_hist_quiet [OF h]) auto
next
  case (paired k t ch)
  let ?l = "us_ports s ! i" and ?c = "\<lparr>up_port = i, up_local = k, up_tunnel = t, up_out = True, up_in = True\<rparr>"
  have kq: "k \<in> set (queue_of ?l)" using paired(1) by (simp add: queue_of_def)
  from queue_known [OF inv n this] have k: "known s i k" .
  have lc: "ll_conns (us_ports u ! m) = ll_conns (us_ports s ! m)" for m
    using n paired(5) by (cases "m = i") simp_all
  have kn: "known u = known s" using paired(5) lc by (intro ext) (simp add: known_def)
  have b: "ch_buf (us_tunnelChannel s) = t # ch_buf ch" by (rule go_chan.recv_some [OF paired(2)])
  have T: "tunnels_inv s" using inv by (simp add: udp_inv_def)
  then have t: "tunnel_open (us_tunnels s) False t" using b by (simp add: tunnels_inv_def)
  then have tl: "t < length (us_tunnels s)" by (simp add: tunnel_open_def)
  have tn: "t \<notin> up_tunnel ` set (us_pairs s)"
    using T t by (auto simp: tunnels_inv_def list_all_iff tunnel_open_def)
  have fs: "sent m fs = (if m = t then [lu_remoteAddr (local_conn s i k)] else [])" "recvd a c fs = []" for m a c
    using paired(4) by simp_all
  have "tunnel_hist es s t" using h tl by (simp add: udp_hist_def)
  with paired(3) obtain n0 where n0: "sent t es = replicate n0 [SG_Ping]"
    by (auto simp: tunnel_hist_def pings_only_def)
  have "recvd i k es = waiting (lu_payload (local_conn s i k))" using h n kq by (simp add: udp_hist_def)
  then have new: "relayed_ok (es @ fs) u t i k (nonempty (waiting (lu_payload (local_conn u i k))))"
    using n0 fs lc by (simp add: relayed_ok_def)
  have g: "grows s u" by (simp add: grows_def kn lc)
  show ?thesis unfolding udp_hist_def
  proof (intro conjI)
    show "\<forall>m < length (us_tunnels u). tunnel_hist (es @ fs) u m"
    proof (intro allI impI)
      fix m assume m: "m < length (us_tunnels u)"
      show "tunnel_hist (es @ fs) u m"
      proof (cases "m = t")
        case True
        with new k kn tl paired(7) show ?thesis unfolding tunnel_hist_def by auto
      next
        case False
        have "tunnel_hist es s m" using h m paired(7) by (simp add: udp_hist_def)
        then show ?thesis using False fs g paired(7) by (intro tunnel_hist_mono [of es s]) auto
      qed
    qed
    show "\<forall>c \<in> set (us_pairs u). pair_hist (es @ fs) u c"
    proof
      fix c assume "c \<in> set (us_pairs u)"
      then consider "c \<in> set (us_pairs s)" | "c = ?c" using paired(6) by auto
      then show "pair_hist (es @ fs) u c"
      proof cases
        case 1
        then have "pair_hist es s c" "up_tunnel c \<noteq> t" using h tn by (auto simp: udp_hist_def)
        then show ?thesis using fs lc by (intro pair_hist_mono [of es s]) auto
      next
        case 2
        with new show ?thesis by (auto simp: pair_hist_def)
      qed
    qed
    have "set (queue_of (us_ports u ! m)) \<subseteq> set (queue_of (us_ports s ! m))" for m
      using n paired(5) by (cases "m = i") (auto simp: queue_of_def)
    moreover have "length (us_ports u) = length (us_ports s)" using paired(5) by simp
    ultimately show "\<forall>a < length (us_ports u). \<forall>c \<in> set (queue_of (us_ports u ! a)).
        recvd a c (es @ fs) = waiting (lu_payload (local_conn u a c))"
      using h fs lc unfolding udp_hist_def by (auto simp: subset_iff)
  qed (use h fs kn paired(7,8) tl in \<open>auto simp: udp_hist_def\<close>)
qed

section \<open>Copying keeps the order\<close>

abbreviation other_pairs :: "UdpTransport \<Rightarrow> nat \<Rightarrow> udp_pair list" where
  "other_pairs s j \<equiv> take j (us_pairs s) @ drop (Suc j) (us_pairs s)"

lemma update_others: "j < length ps \<Longrightarrow> set (ps[j := c]) = insert c (set (take j ps @ drop (Suc j) ps))"
  by (simp add: upd_conv_take_nth_drop)

lemma other_pairs_apart:
  assumes inv: "udp_inv s" and j: "j < length (us_pairs s)" and c: "c \<in> set (other_pairs s j)"
  shows "up_tunnel c \<noteq> up_tunnel (us_pairs s ! j)"
    and "up_port c = up_port (us_pairs s ! j) \<Longrightarrow> up_local c \<noteq> up_local (us_pairs s ! j)"
proof -
  let ?ps = "us_pairs s" and ?c = "us_pairs s ! j"
  have "distinct (map up_tunnel ?ps)" using inv by (simp add: udp_inv_def tunnels_inv_def)
  then have "distinct (map up_tunnel (take j ?ps) @ up_tunnel ?c # map up_tunnel (drop (Suc j) ?ps))"
    by (subst (asm) id_take_nth_drop [OF j]) simp
  then have "up_tunnel ?c \<notin> up_tunnel ` set (other_pairs s j)" by auto
  moreover have "up_tunnel c \<in> up_tunnel ` set (other_pairs s j)" by (rule imageI [OF c])
  ultimately show "up_tunnel c \<noteq> up_tunnel ?c" by metis
  assume p: "up_port c = up_port ?c"
  obtain A B where A: "paired (up_port ?c) ?ps = A @ paired_with (up_port ?c) ?c @ B"
    and B: "paired (up_port ?c) (other_pairs s j) = A @ B" by (rule paired_remove [OF j])
  have "distinct (paired (up_port ?c) ?ps)"
    using pair_facts(4) [OF inv j refl] by (simp add: port_inv_def)
  then have "up_local ?c \<notin> set (A @ B)" unfolding A by (auto simp: paired_with_def)
  moreover have "up_local c \<in> set (A @ B)" using paired_mem [OF c] p B by simp
  ultimately show "up_local c \<noteq> up_local ?c" by metis
qed

lemma queued_not_paired:
  assumes "udp_inv s" and "j < length (us_pairs s)" and "k \<in> set (queue_of (us_ports s ! up_port (us_pairs s ! j)))"
  shows "k \<noteq> up_local (us_pairs s ! j)"
proof -
  have "up_local (us_pairs s ! j) \<in> set (paired (up_port (us_pairs s ! j)) (us_pairs s))"
    using assms(2) by (intro paired_mem) simp
  with pair_facts(4) [OF assms(1,2) refl] assms(3) show ?thesis by (auto simp: port_inv_def)
qed

lemma copy_turn_cases:
  assumes "copy_turn to ev p = (es, q, on)"
  obtains (quiet) "waiting q = waiting p" "es = []"
  | (failed) "es = [WriteFailed]" "\<not> on"
  | (delivered) d where "waiting p = d # waiting q" "es = (if d = [] then [] else [to d])"
proof -
  obtain r p' where r: "payload_recv p = (r, p')" by (metis prod.exhaust)
  note F = payload_recv_fifo [OF r]
  show thesis
  proof (cases "ev = CopyIdle")
    case True
    with assms show thesis by (intro that(1)) (simp_all add: copy_turn_def)
  next
    case False
    show thesis
    proof (cases r)
      case (Datagram d)
      show thesis
      proof (cases "d \<noteq> [] \<and> ev = CopyFails")
        case True
        with assms r Datagram show thesis by (intro that(2)) (simp_all add: copy_turn_def)
      next
        case ok: False
        with assms r Datagram F False show thesis
          by (cases ev; intro that(3) [of d]) (auto simp: copy_turn_def write_datagram_def)
      qed
    qed (use assms r F False in \<open>cases ev; intro that(1); auto simp: copy_turn_def\<close>)+
  qed
qed

lemma relayed_ok_next:
  assumes "relayed_ok es s t i k (d # rest)" and "sent t fs = [d]" and "recvd i k fs = []"
    and "lu_remoteAddr (local_conn s' i k) = lu_remoteAddr (local_conn s i k)"
  shows "relayed_ok (es @ fs) s' t i k rest"
proof -
  from assms(1) obtain n data where "sent t es = replicate n [SG_Ping] @ lu_remoteAddr (local_conn s i k) # data"
    and "nonempty (recvd i k es) = data @ d # rest" by (auto simp: relayed_ok_def)
  with assms(2-) show ?thesis unfolding relayed_ok_def by (intro exI [of _ n] exI [of _ "data @ [d]"]) simp
qed

lemma udp_hist_copy_out:
  assumes h: "udp_hist es s" and inv: "udp_inv s" and j: "j < length (us_pairs s)"
    and st: "udpLocalCopy j ev s = (fs, u)"
  shows "udp_hist (es @ fs) u"
  using st
proof (cases rule: udpLocalCopy_cases)
  case off
  with h show ?thesis by simp
next
  case (turn p on)
  let ?c = "us_pairs s ! j"
  let ?i = "up_port ?c" and ?k = "up_local ?c" and ?t = "up_tunnel ?c"
  note F = pair_facts [OF inv j refl]
  have k: "?k < length (ll_conns (us_ports s ! ?i))" using F(2) by (simp add: local_open_def)
  have lc: "local_conn u m n = (if m = ?i \<and> n = ?k then (local_conn s ?i ?k)\<lparr>lu_payload := p\<rparr> else local_conn s m n)" for m n
    using turn(3) k F(1) by (cases "m = ?i"; cases "n = ?k") simp_all
  have kn: "known u = known s" using turn(3) F(1) by (intro ext) (auto simp: known_def nth_list_update)
  have qu: "queue_of (us_ports u ! m) = queue_of (us_ports s ! m)" for m
    using turn(3) F(1) by (cases "m = ?i") (simp_all add: queue_of_def)
  have ts: "us_tunnels u = us_tunnels s" "us_keepers u = us_keepers s" "length (us_ports u) = length (us_ports s)"
    using turn(3) by simp_all
  have E: "set fs \<subseteq> {WriteFailed} \<union> range (ToTunnel ?t)" by (rule copy_turn_effects [OF turn(2)])
  then have rc: "recvd m n fs = []" for m n by (intro no_recvd [of _ 0 0 ?t]) auto
  have se: "sent m fs = []" if "m \<noteq> ?t" for m
    using E that by (induction fs) (auto split: if_splits)
  have g: "grows s u" by (simp add: grows_def kn lc)
  have "pair_hist es s ?c" using h j by (simp add: udp_hist_def)
  then obtain rest where r: "relayed_ok es s ?t ?i ?k rest" "rest = nonempty (waiting (lu_payload (local_conn s ?i ?k)))"
    using turn(1) by (auto simp: pair_hist_def)
  have "\<exists>rest. relayed_ok (es @ fs) u ?t ?i ?k rest \<and> (on \<longrightarrow> rest = nonempty (waiting p))"
    using turn(2)
  proof (cases rule: copy_turn_cases)
    case (delivered d)
    show ?thesis
    proof (cases "d = []")
      case True
      with r delivered show ?thesis by (auto simp: relayed_ok_def rc lc)
    next
      case False
      with r delivered have "relayed_ok (es @ fs) u ?t ?i ?k (nonempty (waiting p))"
        by (intro relayed_ok_next [of es s _ _ _ d]) (simp_all add: rc lc)
      then show ?thesis by blast
    qed
  qed (use r in \<open>auto simp: relayed_ok_def rc lc\<close>)
  then have new: "pair_hist (es @ fs) u (?c\<lparr>up_out := on\<rparr>)" by (auto simp: pair_hist_def lc)
  show ?thesis unfolding udp_hist_def
  proof (intro conjI)
    show "\<forall>m < length (us_tunnels u). tunnel_hist (es @ fs) u m"
    proof (intro allI impI)
      fix m assume m: "m < length (us_tunnels u)"
      then have hm: "tunnel_hist es s m" using h ts by (simp add: udp_hist_def)
      show "tunnel_hist (es @ fs) u m"
      proof (cases "m = ?t")
        case True
        have "known u ?i ?k" using kn F(1) k by (simp add: known_def)
        with new F(3) ts True show ?thesis by (auto simp: tunnel_hist_def pair_hist_def tunnel_open_def)
      next
        case False
        from tunnel_hist_mono [OF hm se [OF False] g] ts show ?thesis by simp
      qed
    qed
    show "\<forall>c \<in> set (us_pairs u). pair_hist (es @ fs) u c"
    proof
      fix c assume "c \<in> set (us_pairs u)"
      then consider "c = ?c\<lparr>up_out := on\<rparr>" | "c \<in> set (other_pairs s j)"
        using turn(3) update_others [OF j] by auto
      then show "pair_hist (es @ fs) u c"
      proof cases
        case 2
        then have "c \<in> set (us_pairs s)" by (auto dest: in_set_takeD in_set_dropD)
        then have "pair_hist es s c" using h by (simp add: udp_hist_def)
        with other_pairs_apart [OF inv j 2] se rc lc show ?thesis by (intro pair_hist_mono [of es s]) auto
      qed (use new in simp)
    qed
    show "\<forall>a < length (us_ports u). \<forall>b \<in> set (queue_of (us_ports u ! a)).
        recvd a b (es @ fs) = waiting (lu_payload (local_conn u a b))"
      using h ts queued_not_paired [OF inv j] by (auto simp: udp_hist_def rc lc qu)
    show "\<forall>m \<ge> length (us_tunnels u). sent m (es @ fs) = []"
      using h ts se F(3) by (auto simp: udp_hist_def tunnel_open_def)
  qed (use h ts rc kn in \<open>auto simp: udp_hist_def\<close>)
qed

lemma udp_hist_copy_in:
  assumes h: "udp_hist es s" and inv: "udp_inv s" and j: "j < length (us_pairs s)"
    and st: "udpTunnelCopy j ev s = (fs, u)"
  shows "udp_hist (es @ fs) u"
  using st
proof (cases rule: udpTunnelCopy_cases)
  case off
  with h show ?thesis by simp
next
  case (turn p on)
  let ?c = "us_pairs s ! j"
  have E: "set fs \<subseteq> {WriteFailed} \<union> range (ToUser (up_port ?c) (up_local ?c))" by (rule copy_turn_effects [OF turn(2)])
  have e: "sent m fs = []" "recvd a b fs = []" for m a b
    using E by (intro no_sent no_recvd; blast)+
  have pi: "tu_ping (us_tunnels u ! m) = tu_ping (us_tunnels s ! m)" if "m < length (us_tunnels s)" for m
    using turn(3) that by (cases "m = up_tunnel ?c") simp_all
  have "udp_hist es (s\<lparr>us_pairs := us_pairs u\<rparr>)" (is "udp_hist es ?v")
  proof -
    have ph: "pair_hist es ?v c = pair_hist es s c" for c by (simp add: pair_hist_def relayed_ok_def)
    have th: "tunnel_hist es ?v m = tunnel_hist es s m" for m by (simp add: tunnel_hist_def relayed_ok_def known_def)
    have cc: "pair_hist es s (?c\<lparr>up_in := on\<rparr>) = pair_hist es s ?c" by (simp add: pair_hist_def)
    have "pair_hist es s c" if "c \<in> set (us_pairs u)" for c
    proof -
      from that turn(3) have "c \<in> insert (?c\<lparr>up_in := on\<rparr>) (set (us_pairs s))"
        using set_update_subset_insert by (fastforce simp: subset_iff)
      with h j cc show ?thesis by (auto simp: udp_hist_def)
    qed
    with h show ?thesis by (simp add: udp_hist_def ph th known_def)
  qed
  then show ?thesis using turn(3) e pi by (intro udp_hist_quiet [of es ?v]) auto
qed

lemma udp_hist_end:
  assumes h: "udp_hist es s" and inv: "udp_inv s" and j: "j < length (us_pairs s)"
    and st: "udpCopy_end j s = (fs, u)"
  shows "udp_hist (es @ fs) u"
  using st j inv
proof (cases rule: udpCopy_end_cases)
  case running
  with h show ?thesis by simp
next
  case (ends c l q)
  note F = pair_facts [OF inv j refl, folded ends(1)]
  have k: "up_local c < length (ll_conns (us_ports s ! up_port c))" using F(2) by (simp add: local_open_def)
  have lc: "lu_remoteAddr (local_conn u m n) = lu_remoteAddr (local_conn s m n)"
    "waiting (lu_payload (local_conn u m n)) = waiting (lu_payload (local_conn s m n))" for m n
    using ends(2,3) k F(1) by (cases "m = up_port c"; cases "n = up_local c"; simp)+
  have kn: "known u = known s" using ends(2,3) F(1) by (intro ext) (auto simp: known_def nth_list_update)
  have qu: "queue_of (us_ports u ! m) = queue_of (us_ports s ! m)" for m
    using ends(2,3) F(1) by (cases "m = up_port c") (simp_all add: queue_of_def)
  have pi: "tu_ping (us_tunnels u ! m) = tu_ping (us_tunnels s ! m)" if "m < length (us_tunnels s)" for m
    using ends(6) that by (cases "m = up_tunnel c") simp_all
  have ro: "relayed_ok es u = relayed_ok es s" by (intro ext) (simp add: relayed_ok_def lc)
  have ph: "pair_hist es u = pair_hist es s" by (intro ext) (simp add: pair_hist_def ro lc)
  have th: "tunnel_hist es u m = tunnel_hist es s m" if "m < length (us_tunnels s)" for m
    using pi [OF that] by (simp add: tunnel_hist_def ro kn)
  have ps: "set (us_pairs u) \<subseteq> set (us_pairs s)" unfolding ends(4) by (auto dest: in_set_takeD in_set_dropD)
  have "length (us_tunnels u) = length (us_tunnels s)" "length (us_ports u) = length (us_ports s)"
    using ends(3,6) by simp_all
  with h ps ends(5,7) show ?thesis by (auto simp: udp_hist_def ph th kn qu lc)
qed

lemma udp_hist_keep:
  assumes h: "udp_hist es s" and inv: "udp_inv s" and k: "t \<in> set (us_keepers s)"
    and st: "udp_keepAlive t ev s = (fs, u)"
  shows "udp_hist (es @ fs) u"
proof (cases "fs = []")
  case True
  with st have "us_ports u = us_ports s" "us_pairs u = us_pairs s" "us_tunnels u = us_tunnels s"
    "set (us_keepers u) \<subseteq> set (us_keepers s)"
    using set_remove1_subset [of t "us_keepers s"]
    by (auto simp: udp_keepAlive_def Let_def subset_iff split: keep_event.splits if_splits)
  with True show ?thesis by (intro udp_hist_quiet [OF h]) auto
next
  case False
  with st have f: "fs = [ToTunnel t [SG_Ping]]" "u = s" "\<not> tu_mu (us_tunnels s ! t)"
    by (auto simp: udp_keepAlive_def Let_def split: keep_event.splits if_splits)
  have t: "t < length (us_tunnels s)" using h k by (simp add: udp_hist_def)
  have "list_all (\<lambda>c. tu_mu c = tu_ping c) (us_tunnels s)" using inv by (simp add: udp_inv_def tunnels_inv_def)
  with t f(3) have p: "\<not> tu_ping (us_tunnels s ! t)" by (simp add: list_all_length)
  have np: "t \<noteq> up_tunnel c" if "c \<in> set (us_pairs s)" for c
    using inv that p by (auto simp: udp_inv_def tunnels_inv_def list_all_iff tunnel_open_def)
  have "tunnel_hist (es @ fs) s m" if m: "m < length (us_tunnels s)" for m
  proof (cases "m = t")
    case True
    have "tunnel_hist es s t" using h t by (simp add: udp_hist_def)
    with p obtain n where "sent t es = replicate n [SG_Ping]" by (auto simp: tunnel_hist_def pings_only_def)
    with f(1) have "sent t (es @ fs) = replicate (Suc n) [SG_Ping]" by (simp add: replicate_append_same)
    then have "pings_only t (es @ fs)" unfolding pings_only_def by (rule exI)
    with p True show ?thesis by (simp add: tunnel_hist_def)
  next
    case False
    have "tunnel_hist es s m" using h m by (simp add: udp_hist_def)
    then show ?thesis using False f(1) grows_ports [of s s] by (intro tunnel_hist_mono [of es s]) auto
  qed
  moreover have "pair_hist (es @ fs) s c" if "c \<in> set (us_pairs s)" for c
  proof -
    have "pair_hist es s c" using h that by (simp add: udp_hist_def)
    then show ?thesis using np [OF that] f(1) by (intro pair_hist_mono [of es s]) auto
  qed
  ultimately show ?thesis using h t f(1,2) by (auto simp: udp_hist_def)
qed

section \<open>All steps, all runs\<close>

lemma udp_step_hist:
  assumes h: "udp_hist es s" and inv: "udp_inv s" and st: "udp_step s (fs, t)"
  shows "udp_hist (es @ fs) t"
  using st
proof (cases rule: udp_step_cases)
  case control
  then have "sent m fs = []" "recvd a b fs = []" for m a b by (intro no_sent no_recvd; blast)+
  with control show ?thesis by (intro udp_hist_quiet [OF h]) (auto simp: udp_conns_def)
next
  case (accept key packet)
  then show ?thesis using udp_step_inv [OF st inv] by (intro udp_hist_accept [OF h]) auto
next
  case restart
  then show ?thesis by (rule udp_hist_restart [OF h inv])
qed (use udp_hist_listen [OF h inv] udp_hist_read [OF h inv] udp_hist_take [OF h inv] udp_hist_pair [OF h inv]
    udp_hist_copy_out [OF h inv] udp_hist_copy_in [OF h inv] udp_hist_end [OF h inv] udp_hist_keep [OF h inv] in auto)

lemma udp_hist_init: "udp_hist [] (NewUDPServer config)"
  by (simp add: udp_hist_def NewUDPServer_def known_def)

lemma udp_run_hist: "udp_run s es t \<Longrightarrow> udp_hist [] s \<Longrightarrow> udp_inv s \<Longrightarrow> udp_hist es t \<and> udp_inv t"
proof (induction rule: udp_run.induct)
  case (more es t fs u)
  then have "udp_hist es t" "udp_inv t" by simp_all
  with udp_step_hist [OF _ _ more(2)] udp_step_inv [OF more(2)] show ?case by blast
qed simp

section \<open>What the server promises\<close>

lemma udp_run_next: "udp_run s es t \<Longrightarrow> udp_step t p \<Longrightarrow> udp_run s (es @ fst p) (snd p)"
  by (cases p) (auto intro: udp_run.more)

lemma handleLoop_take_strands:
  assumes inv: "udp_inv s" and i: "i < length (us_ports s)" and l: "l = us_ports s ! i"
    and alive: "ll_alive l" "ll_hand l = None" and r: "try_recv (ll_udpChan l) = Some (k, ch)"
    and old: "now - lu_timeCreated (ll_conns l ! k) > 3000"
  shows "stranded i k (lu_addr (ll_conns l ! k)) (udp_handleLoop_take i now s)"
proof -
  have "port_inv l (paired i (us_pairs s))" using inv i l by (simp add: udp_inv_def)
  moreover have "queue_of l = k # ch_buf ch" using go_chan.recv_some [OF r] alive by (simp add: queue_of_def)
  ultimately show ?thesis using i l alive r old
    by (simp add: stranded_def port_stranded_def udp_handleLoop_take_def port_take_def port_inv_def
        local_open_def queue_of_def)
qed

definition demo_udp_config :: UdpConfig where
  "demo_udp_config = \<lparr>us_BindAddr = '':1'', us_Token = ''t'', us_SnifferLog = '''', us_TunnelStatus = '''',
     us_Ports = [], us_Sniffer = False, us_Heartbeat = 40, us_ChannelSize = 2, us_WebPort = 0\<rparr>"

text \<open>A user's first datagram is buffered, a tunnel connection arrives, the two are paired, and the
  datagram is copied.\<close>

definition demo_udp_state :: "string list \<Rightarrow> nat chan \<Rightarrow> bool \<Rightarrow> udp_pair list \<Rightarrow> UdpTransport" where
  "demo_udp_state w tunnels ping ps = (NewUDPServer demo_udp_config)\<lparr>
     us_tunnelChannel := tunnels, us_activeConnections := [''c'' \<mapsto> 0],
     us_reqNewConnChan := \<lparr>ch_buf = [()], ch_cap = 2\<rparr>, us_keepers := [0],
     us_tunnels := [\<lparr>tu_payload = new_payload, tu_addr = ''c'', tu_ping = ping, tu_mu = ping\<rparr>],
     us_ports := [\<lparr>ll_remoteAddr = ''80'', ll_conns = [\<lparr>lu_timeCreated = 0,
         lu_payload = \<lparr>pl_chan = \<lparr>ch_buf = w, ch_cap = 100000\<rparr>, pl_closed = False\<rparr>,
         lu_remoteAddr = ''80'', lu_addr = ''u''\<rparr>],
       ll_active = [''u'' \<mapsto> 0], ll_udpChan = \<lparr>ch_buf = if ping then [] else [0], ch_cap = 2\<rparr>,
       ll_hand = None, ll_alive = True\<rparr>],
     us_pairs := ps\<rparr>"

abbreviation demo_pair :: udp_pair where
  "demo_pair \<equiv> \<lparr>up_port = 0, up_local = 0, up_tunnel = 0, up_out = True, up_in = True\<rparr>"

definition demo_udp :: "nat \<Rightarrow> UdpTransport" where
  "demo_udp n = (if n = 0 then demo_udp_state [''hi''] \<lparr>ch_buf = [0], ch_cap = 2\<rparr> False []
     else demo_udp_state (if n = 1 then [''hi''] else []) \<lparr>ch_buf = [], ch_cap = 2\<rparr> True [demo_pair])"

lemmas demo_udp_simps = demo_udp_def demo_udp_state_def Let_def NewUDPServer_def demo_udp_config_def udp_localListener_start_def
  udp_localListener_def port_read_def udp_acceptTunnelConn_def udp_handleLoop_take_def port_take_def
  udp_handleLoop_pair_def udpLocalCopy_def copy_turn_def write_datagram_def payload_recv_def new_payload_def
  payload_send_def try_send_def try_recv_def make_chan_def

lemma demo_udp_step1: "udp_acceptTunnelConn ''c'' ''t'' (snd (udp_localListener 0 0 ''u'' ''hi''
    (udp_localListener_start ''80'' (NewUDPServer demo_udp_config)))) = ([], demo_udp 0)"
  by (simp add: demo_udp_simps)

lemma demo_udp_step2: "udp_handleLoop_pair 0 True (udp_handleLoop_take 0 9 (demo_udp 0)) = ([ToTunnel 0 ''80''], demo_udp 1)"
  by (simp add: demo_udp_simps)

lemma demo_udp_step3: "udpLocalCopy 0 CopyOk (demo_udp 1) = ([ToTunnel 0 ''hi''], demo_udp 2)"
  by (simp add: demo_udp_simps)

lemma demo_udp_run:
  "udp_run (NewUDPServer demo_udp_config) [Received 0 0 ''hi''] (demo_udp 0)"
  "udp_run (NewUDPServer demo_udp_config) [Received 0 0 ''hi'', ToTunnel 0 ''80''] (demo_udp 1)"
  "udp_run (NewUDPServer demo_udp_config) [Received 0 0 ''hi'', ToTunnel 0 ''80'', ToTunnel 0 ''hi''] (demo_udp 2)"
proof -
  let ?s0 = "NewUDPServer demo_udp_config"
  let ?s1 = "udp_localListener_start ''80'' ?s0"
  let ?p2 = "udp_localListener 0 0 ''u'' ''hi'' ?s1"
  have 1: "udp_run ?s0 [] ?s1" using udp_run_next [OF udp_run.idle udp_step.intros(6)] by simp
  have "0 < length (us_ports ?s1)" by (simp add: udp_localListener_start_def)
  from udp_run_next [OF 1 udp_step.intros(7) [OF this]]
  have 2: "udp_run ?s0 (fst ?p2) (snd ?p2)" by simp
  have e: "fst ?p2 = [Received 0 0 ''hi'']" by (simp add: demo_udp_simps)
  from udp_run_next [OF 2 udp_step.intros(5), of "''c''" "''t''", unfolded demo_udp_step1]
  show 3: "udp_run ?s0 [Received 0 0 ''hi''] (demo_udp 0)" by (simp add: e)
  have "0 < length (us_ports (demo_udp 0))" "0 < length (us_ports (udp_handleLoop_take 0 9 (demo_udp 0)))"
    by (simp_all add: demo_udp_def demo_udp_state_def udp_handleLoop_take_def)
  note take = udp_run_next [OF 3 udp_step.intros(8) [OF this(1), of 9], unfolded fst_conv snd_conv] and n = this(2)
  from udp_run_next [OF take udp_step.intros(9) [OF n, of True], unfolded demo_udp_step2]
  show 5: "udp_run ?s0 [Received 0 0 ''hi'', ToTunnel 0 ''80''] (demo_udp 1)" by simp
  have "0 < length (us_pairs (demo_udp 1))" by (simp add: demo_udp_def demo_udp_state_def)
  from udp_run_next [OF 5 udp_step.intros(10) [OF this, of CopyOk], unfolded demo_udp_step3]
  show "udp_run ?s0 [Received 0 0 ''hi'', ToTunnel 0 ''80'', ToTunnel 0 ''hi''] (demo_udp 2)" by simp
qed

text \<open>C30: the UDP server relays users in order: in every run of its goroutines from the start, what
  went over a tunnel connection is pings, or pings, then the target of one user's connection, then
  a prefix of the non-empty datagrams received from that user: none is lost in between, reordered,
  repeated or mixed with those of another user.\<close>

theorem udp_relays_in_order:
  assumes "udp_run (NewUDPServer config) es s"
  shows "(\<exists>n. sent t es = replicate n [SG_Ping])
    \<or> (\<exists>i k n data rest. sent t es = replicate n [SG_Ping] @ lu_remoteAddr (ll_conns (us_ports s ! i) ! k) # data
        \<and> filter (\<lambda>d. d \<noteq> []) (recvd i k es) = data @ rest)"
proof -
  have "udp_inv (NewUDPServer config)" by (rule udp_reachable_inv [OF udp_reachable.start])
  with udp_run_hist [OF assms udp_hist_init] have h: "udp_hist es s" by simp
  show ?thesis
  proof (cases "t < length (us_tunnels s)")
    case True
    with h have "tunnel_hist es s t" by (simp add: udp_hist_def)
    then consider "pings_only t es" | i k rest where "relayed_ok es s t i k rest"
      by (auto simp: tunnel_hist_def split: if_splits)
    then show ?thesis by cases (auto simp: pings_only_def relayed_ok_def)
  next
    case False
    with h have "sent t es = replicate 0 [SG_Ping]" by (simp add: udp_hist_def)
    then show ?thesis by blast
  qed
qed

theorem udp_relays_in_order_witness:
  "\<exists>i k n data rest. [''80'', ''hi''] = replicate n [SG_Ping]
      @ lu_remoteAddr (ll_conns (us_ports (demo_udp 2) ! i) ! k) # data
    \<and> filter (\<lambda>d. d \<noteq> []) (recvd i k [Received 0 0 ''hi'', ToTunnel 0 ''80'', ToTunnel 0 ''hi'']) = data @ rest"
proof -
  have "[''80'', ''hi''] \<noteq> replicate n [SG_Ping]" for n
    by (cases n; simp)
  with udp_relays_in_order [OF demo_udp_run(3), of 0] show ?thesis by simp
qed

text \<open>C31: no goroutine of the UDP server panics: in every reachable state, whatever step is taken,
  no payload channel is sent to or closed after its close, and no ping channel is closed twice.\<close>

theorem udp_never_panics:
  assumes "udp_reachable config s" and "udp_step s (es, t)"
  shows "UdpPanic \<notin> set es"
  using udp_step_inv [OF assms(2) udp_reachable_inv [OF assms(1)]] by simp

theorem udp_never_panics_witness:
  "UdpPanic \<notin> set (fst (udpLocalCopy 0 CopyOk (demo_udp 1)))"
proof (rule udp_never_panics)
  show "udp_reachable demo_udp_config (demo_udp 1)"
    by (rule udp_run_reachable [OF demo_udp_run(2) udp_reachable.start])
  have "udp_step (demo_udp 1) (udpLocalCopy 0 CopyOk (demo_udp 1))"
    by (rule udp_step.intros(10)) (simp add: demo_udp_def demo_udp_state_def)
  then show "udp_step (demo_udp 1) (fst (udpLocalCopy 0 CopyOk (demo_udp 1)), snd (udpLocalCopy 0 CopyOk (demo_udp 1)))"
    by simp
qed

text \<open>A user whose connection waited for more than three seconds is cut off for good: the
  handler drops the connection from its queue but leaves it in the map of the port, so in every
  later run its datagrams go to a connection that no pair copies and nothing is sent to it.\<close>

theorem udp_timeout_strands:
  assumes "udp_reachable config s" and "i < length (us_ports s)" and "l = us_ports s ! i"
    and "ll_alive l" and "ll_hand l = None" and "try_recv (ll_udpChan l) = Some (k, ch)"
    and "now - lu_timeCreated (ll_conns l ! k) > 3000"
    and "udp_run (udp_handleLoop_take i now s) es t"
  shows "ll_active (us_ports t ! i) (lu_addr (ll_conns l ! k)) = Some k
    \<and> (\<forall>c \<in> set (us_pairs t). \<not> (up_port c = i \<and> up_local c = k)) \<and> (\<forall>d. ToUser i k d \<notin> set es)"
proof -
  have "udp_reachable config (udp_handleLoop_take i now s)"
    by (rule udp_reachable.step [OF assms(1) udp_step.intros(8) [OF assms(2)]])
  from stranded_run [OF assms(8) udp_reachable_inv [OF this]
      handleLoop_take_strands [OF udp_reachable_inv [OF assms(1)] assms(2-7)]]
  show ?thesis using paired_mem by (fastforce simp: stranded_def port_stranded_def)
qed

theorem udp_timeout_strands_witness:
  "ll_active (us_ports (udp_handleLoop_take 0 4000 (demo_udp 0)) ! 0) ''u'' = Some 0
    \<and> queue_of (us_ports (udp_handleLoop_take 0 4000 (demo_udp 0)) ! 0) = []"
proof -
  have r: "udp_reachable demo_udp_config (demo_udp 0)"
    by (rule udp_run_reachable [OF demo_udp_run(1) udp_reachable.start])
  show ?thesis
    using udp_timeout_strands [OF r _ refl, of 0 0 "make_chan 2" 4000 "[]" "udp_handleLoop_take 0 4000 (demo_udp 0)"]
    by (auto simp: demo_udp_simps queue_of_def intro: udp_run.idle)
qed

end
