(* ===== verification/Client_Common.thy ===== *)
theory Client_Common
  imports Inbound Wire Config
begin

text \<open>
  What the client runtimes share (\<^verbatim>\<open>internal/client/transport/shared.go\<close>): reading the target of
  a tunnel connection, dialling with retries, and the request of a websocket dial.  What an
  attempt to dial returns is an argument.
\<close>

section \<open>The target of a connection\<close>

definition ResolveRemoteAddr :: "string \<Rightarrow> (int \<times> string) option" where
  "ResolveRemoteAddr remoteAddr =
     (let parts = Split CHR '':'' remoteAddr in
      if length parts < 2 then
        (case Atoi (parts ! 0) of
           None \<Rightarrow> None
         | Some port \<Rightarrow> Some (port, ''127.0.0.1:'' @ Itoa port))
      else
        (case Atoi (parts ! 1) of
           None \<Rightarrow> None
         | Some port \<Rightarrow> Some (port, remoteAddr)))"

lemma ResolveRemoteAddr_port:
  assumes "CHR '':'' \<notin> set p"
  shows "ResolveRemoteAddr p = map_option (\<lambda>n. (n, ''127.0.0.1:'' @ Itoa n)) (Atoi p)"
  using assms by (simp add: ResolveRemoteAddr_def Split_no_sep split: option.split)

lemma ResolveRemoteAddr_host_port:
  assumes "CHR '':'' \<notin> set h" and "CHR '':'' \<notin> set p"
  shows "ResolveRemoteAddr (h @ CHR '':'' # p) = map_option (\<lambda>n. (n, h @ CHR '':'' # p)) (Atoi p)"
  using assms by (simp add: ResolveRemoteAddr_def Split_append Split_no_sep split: option.split)

text \<open>Of an address with several colons the text after the first is read as the port.\<close>

lemma ResolveRemoteAddr_colons:
  assumes "CHR '':'' \<notin> set h" and "CHR '':'' \<notin> set p"
  shows "ResolveRemoteAddr (h @ CHR '':'' # p @ CHR '':'' # r)
    = map_option (\<lambda>n. (n, h @ CHR '':'' # p @ CHR '':'' # r)) (Atoi p)"
  using assms by (simp add: ResolveRemoteAddr_def Split_append split: option.split)

section \<open>Dialling with retries\<close>

text \<open>The loop of \<^verbatim>\<open>TcpDialer\<close> and \<^verbatim>\<open>WebSocketDialer\<close>: \<open>attempt i\<close> is what the \<open>i\<close>-th attempt
  returns.  The result is the sleeps in seconds, and the connection or the last error; with no
  retries both are nil.\<close>

function retry_loop :: "nat \<Rightarrow> nat \<Rightarrow> nat \<Rightarrow> (nat \<Rightarrow> 'e + 'c) \<Rightarrow> 'e option \<Rightarrow> nat list \<times> ('e option + 'c)" where
  "retry_loop i retries backoff attempt err =
     (if i < retries then
        (case attempt i of
           Inr c \<Rightarrow> ([], Inr c)
         | Inl e \<Rightarrow>
             if i = retries - 1 then ([], Inl (Some e))
             else (case retry_loop (i + 1) retries (backoff * 2) attempt (Some e) of
                     (ws, r) \<Rightarrow> (backoff # ws, r)))
      else ([], Inl err))"
  by pat_completeness auto

termination by (relation "measure (\<lambda>(i, retries, _). retries - i)") auto

declare retry_loop.simps [simp del]

definition TcpDialer :: "nat \<Rightarrow> (nat \<Rightarrow> 'e + 'c) \<Rightarrow> nat list \<times> ('e option + 'c)" where
  "TcpDialer retry attemptTcpDialer = retry_loop 0 retry 1 attemptTcpDialer None"

definition WebSocketDialer :: "nat \<Rightarrow> (nat \<Rightarrow> 'e + 'c) \<Rightarrow> nat list \<times> ('e option + 'c)" where
  "WebSocketDialer retry attemptDialWebSocket = retry_loop 0 retry 1 attemptDialWebSocket None"

lemma retry_loop_first:
  assumes "attempt (i + k) = Inr c" and "\<And>j. j < k \<Longrightarrow> \<exists>e. attempt (i + j) = Inl e" and "i + k < retries"
  shows "retry_loop i retries b attempt err = (map (\<lambda>j. b * 2 ^ j) [0..<k], Inr c)"
  using assms
proof (induction k arbitrary: i b err)
  case 0
  then show ?case by (simp add: retry_loop.simps [of i])
next
  case (Suc k)
  from Suc.prems(2) [of 0] obtain e where e: "attempt i = Inl e" by auto
  have "\<exists>e. attempt (i + 1 + j) = Inl e" if "j < k" for j using Suc.prems(2) [of "Suc j"] that by simp
  with Suc.IH [of "i + 1" "b * 2" "Some e"] Suc.prems
  have "retry_loop (i + 1) retries (b * 2) attempt (Some e) = (map (\<lambda>j. b * 2 * 2 ^ j) [0..<k], Inr c)" by simp
  moreover have "map (\<lambda>j. b * 2 ^ j) [0..<Suc k] = b # map (\<lambda>j. b * 2 * 2 ^ j) [0..<k]"
    by (simp add: upt_conv_Cons map_Suc_upt [symmetric] o_def algebra_simps del: upt_Suc)
  ultimately show ?case using e Suc.prems(3) by (simp add: retry_loop.simps [of i])
qed

lemma retry_loop_fails:
  assumes "\<And>j. j \<le> k \<Longrightarrow> \<exists>e. attempt (i + j) = Inl e" and "retries = i + k + 1" and "attempt (i + k) = Inl e"
  shows "retry_loop i retries b attempt err = (map (\<lambda>j. b * 2 ^ j) [0..<k], Inl (Some e))"
  using assms
proof (induction k arbitrary: i b err)
  case 0
  then show ?case by (simp add: retry_loop.simps [of i])
next
  case (Suc k)
  from Suc.prems(1) [of 0] obtain e' where e: "attempt i = Inl e'" by auto
  have "\<exists>e. attempt (i + 1 + j) = Inl e" if "j \<le> k" for j using Suc.prems(1) [of "Suc j"] that by simp
  with Suc.IH [of "i + 1" "b * 2" "Some e'"] Suc.prems
  have "retry_loop (i + 1) retries (b * 2) attempt (Some e') = (map (\<lambda>j. b * 2 * 2 ^ j) [0..<k], Inl (Some e))" by simp
  moreover have "map (\<lambda>j. b * 2 ^ j) [0..<Suc k] = b # map (\<lambda>j. b * 2 * 2 ^ j) [0..<k]"
    by (simp add: upt_conv_Cons map_Suc_upt [symmetric] o_def algebra_simps del: upt_Suc)
  ultimately show ?case using e Suc.prems(2) by (simp add: retry_loop.simps [of i])
qed

section \<open>The request of a websocket dial\<close>

text \<open>The URL, the headers, the address that is dialled and the name of the user agent; the random
  user id (31 bits) and the user agent of the list are arguments.\<close>

record ws_dial =
  wd_url :: string
  wd_headers :: "(string \<times> string) list"
  wd_edge :: string

definition attemptDialWebSocket ::
  "int \<Rightarrow> string \<Rightarrow> string \<Rightarrow> string \<Rightarrow> string \<Rightarrow> string \<Rightarrow> TransportType \<Rightarrow> ws_dial option" where
  "attemptDialWebSocket randomUserID randomUserAgent addr edgeIP path token mode =
     (let headers = [(''Authorization'', ''Bearer '' @ token), (''X-User-Id'', Itoa randomUserID),
                     (''User-Agent'', randomUserAgent)];
          edge = (if edgeIP \<noteq> [] then map_option (\<lambda>(_, port). edgeIP @ '':'' @ port) (SplitHostPort addr)
                  else Some addr);
          path = (if path \<noteq> ''/channel'' then path @ ''/'' @ Itoa randomUserID else path);
          wsURL = (if mode = WS \<or> mode = WSMUX then ''ws://'' @ addr @ path
                   else if mode = WSS \<or> mode = WSSMUX then ''wss://'' @ addr @ path
                   else []) in
      map_option (\<lambda>e. \<lparr>wd_url = wsURL, wd_headers = headers, wd_edge = e\<rparr>) edge)"

text \<open>What a server of \<^verbatim>\<open>net/http\<close> sees of a request: the path of its URL, and the first header of a
  name.  Writing a header replaces line ends by spaces, and reading trims ASCII white space.\<close>

definition url_path :: "string \<Rightarrow> string" where
  "url_path url = (case Index url ''://'' of
     None \<Rightarrow> [] | Some i \<Rightarrow> dropWhile (\<lambda>c. c \<noteq> CHR ''/'') (drop (i + 3) url))"

definition ascii_space :: "char \<Rightarrow> bool" where
  "ascii_space c \<longleftrightarrow> c = CHR '' '' \<or> c = byte 9 \<or> c = byte 10 \<or> c = byte 13"

definition header_value :: "string \<Rightarrow> string" where
  "header_value v =
     (let v = map (\<lambda>c. if c = byte 10 \<or> c = byte 13 then CHR '' '' else c) v in
      rev (dropWhile ascii_space (rev (dropWhile ascii_space v))))"

definition get_header :: "string \<Rightarrow> (string \<times> string) list \<Rightarrow> string" where
  "get_header name hs = (case map_of hs name of None \<Rightarrow> [] | Some v \<Rightarrow> header_value v)"

end
