(* ===== verification/Client_Pool.thy ===== *)
theory Client_Pool
  imports Complex_Main Client_Common Tcp_Server "HOL-Library.Signed_Division"
begin

text \<open>
  The part of the client runtimes that is the same text in \<^verbatim>\<open>tcp.go\<close>, \<^verbatim>\<open>udp.go\<close>, \<^verbatim>\<open>tcpmux.go\<close>,
  \<^verbatim>\<open>ws.go\<close> and \<^verbatim>\<open>wsmux.go\<close> of \<^verbatim>\<open>internal/client/transport\<close>: the state, \<^verbatim>\<open>Restart\<close>, and the pool of
  tunnel connections.  The counters are \<^verbatim>\<open>int32\<close>.  The local variables of \<^verbatim>\<open>poolMaintainer\<close> are
  fields, and every goroutine \<^verbatim>\<open>tunnelDialer\<close> is an entry of \<open>cl_dialers\<close>.  The locale
  \<open>pooled_client\<close> says what the control handler and the dialers of a runtime may do to the pool.
\<close>

section \<open>State\<close>

record DialConfig =
  dc_RemoteAddr :: string
  dc_Token :: string
  dc_SnifferLog :: string
  dc_TunnelStatus :: string
  dc_RetryInterval :: Duration
  dc_DialTimeOut :: Duration
  dc_ConnPoolSize :: int
  dc_WebPort :: int
  dc_Sniffer :: bool
  dc_AggressivePool :: bool

text \<open>A dialer is still dialling, has its connection in the pool, or is done with the pool.\<close>

datatype 'k dialer = Dialing | Pooled 'k | Gone

record ('c, 'w, 'k) client =
  cl_config :: "'c DialConfig_scheme"
  cl_controlChannel :: "'w option"
  cl_poolConnections :: "32 word"
  cl_loadConnections :: "32 word"
  cl_controlFlow :: "unit chan"
  cl_newPoolSize :: int
  cl_poolConnectionsSum :: "32 word"
  cl_blocked :: bool
  cl_dialers :: "'k dialer list"

datatype client_effect =
  GoTunnelDialer | GoPoolMaintainer | GoChannelHandler | GoChannelDialer | GoUsageMonitor | GoStart
| RestartClient | CloseControl | CloseTunnelConn | CloseStream | RetryAfter Duration
| RelayTo int string | RelayUDPTo int string

definition new_client :: "'c DialConfig_scheme \<Rightarrow> ('c, 'w, 'k) client" where
  "new_client config =
     \<lparr>cl_config = config, cl_controlChannel = None, cl_poolConnections = 0, cl_loadConnections = 0,
      cl_controlFlow = make_chan 100, cl_newPoolSize = 0, cl_poolConnectionsSum = 0, cl_blocked = False,
      cl_dialers = []\<rparr>"

definition set_status :: "string \<Rightarrow> ('c, 'w, 'k, 'x) client_scheme \<Rightarrow> ('c, 'w, 'k, 'x) client_scheme" where
  "set_status st s = s\<lparr>cl_config := (cl_config s)\<lparr>dc_TunnelStatus := st\<rparr>\<rparr>"

definition client_Start :: "string \<Rightarrow> ('c, 'w, 'k, 'x) client_scheme \<Rightarrow> client_effect list \<times> ('c, 'w, 'k, 'x) client_scheme" where
  "client_Start status s =
     ((if dc_WebPort (cl_config s) > 0 then [GoUsageMonitor] else []) @ [GoChannelDialer], set_status status s)"

text \<open>The dialers go on; only those that still dial are stopped by the context.\<close>

definition client_Restart :: "('c, 'w, 'k, 'x) client_scheme \<Rightarrow> client_effect list \<times> ('c, 'w, 'k, 'x) client_scheme" where
  "client_Restart s =
     ((if cl_controlChannel s \<noteq> None then [CloseControl] else []) @ [GoStart],
      (set_status '''' s)\<lparr>cl_controlChannel := None, cl_poolConnections := 0, cl_loadConnections := 0,
        cl_controlFlow := make_chan 100\<rparr>)"

section \<open>The pool\<close>

definition start_dialers :: "nat \<Rightarrow> ('c, 'w, 'k, 'x) client_scheme \<Rightarrow> client_effect list \<times> ('c, 'w, 'k, 'x) client_scheme" where
  "start_dialers n s = (replicate n GoTunnelDialer, s\<lparr>cl_dialers := cl_dialers s @ replicate n Dialing\<rparr>)"

text \<open>The factors \<open>a\<close>, \<open>b\<close>, \<open>x\<close>, \<open>y\<close>.  The products and sums with \<open>y\<close> of 32-bit numbers are exact in
  \<^verbatim>\<open>float64\<close>.\<close>

definition pool_factors :: "bool \<Rightarrow> int \<times> int \<times> int \<times> rat" where
  "pool_factors aggressive = (if aggressive then (1, 2, 0, 3 / 4) else (4, 5, 3, 4))"

text \<open>\<^verbatim>\<open>poolMaintainer\<close>: its start, a tick of each ticker, and its send to \<^verbatim>\<open>controlFlow\<close>, which
  blocks while the channel is full.\<close>

definition pool_start :: "('c, 'w, 'k, 'x) client_scheme \<Rightarrow> client_effect list \<times> ('c, 'w, 'k, 'x) client_scheme" where
  "pool_start s =
     start_dialers (nat (dc_ConnPoolSize (cl_config s)))
       (s\<lparr>cl_newPoolSize := dc_ConnPoolSize (cl_config s), cl_poolConnectionsSum := 0, cl_blocked := False\<rparr>)"

definition pool_tick :: "('c, 'w, 'k, 'x) client_scheme \<Rightarrow> ('c, 'w, 'k, 'x) client_scheme" where
  "pool_tick s = (if cl_blocked s then s
     else s\<lparr>cl_poolConnectionsSum := cl_poolConnectionsSum s + cl_poolConnections s\<rparr>)"

definition pool_unblock :: "('c, 'w, 'k, 'x) client_scheme \<Rightarrow> ('c, 'w, 'k, 'x) client_scheme" where
  "pool_unblock s =
     (if \<not> cl_blocked s then s
      else case try_send () (cl_controlFlow s) of
        (True, ch) \<Rightarrow> s\<lparr>cl_controlFlow := ch, cl_blocked := False\<rparr>
      | (False, _) \<Rightarrow> s)"

definition load_tick :: "('c, 'w, 'k, 'x) client_scheme \<Rightarrow> client_effect list \<times> ('c, 'w, 'k, 'x) client_scheme" where
  "load_tick s =
     (if cl_blocked s then ([], s) else
      let loadConnections = (sint (cl_loadConnections s) + 9) sdiv 10;
          poolConnectionsAvg = (sint (cl_poolConnectionsSum s) + 9) sdiv 10;
          s = s\<lparr>cl_loadConnections := 0, cl_poolConnectionsSum := 0\<rparr>;
          (a, b, x, y) = pool_factors (dc_AggressivePool (cl_config s)) in
      if loadConnections + a > poolConnectionsAvg * b then
        start_dialers 1 (s\<lparr>cl_newPoolSize := cl_newPoolSize s + 1\<rparr>)
      else if of_int (loadConnections + x) < of_int poolConnectionsAvg * y
          \<and> cl_newPoolSize s > dc_ConnPoolSize (cl_config s) then
        ([], pool_unblock (s\<lparr>cl_newPoolSize := cl_newPoolSize s - 1, cl_blocked := True\<rparr>))
      else ([], s))"

datatype pool_event = PoolBegin | PoolSecond | PoolTenSeconds | PoolRoom

definition poolMaintainer :: "pool_event \<Rightarrow> ('c, 'w, 'k, 'x) client_scheme \<Rightarrow> client_effect list \<times> ('c, 'w, 'k, 'x) client_scheme" where
  "poolMaintainer ev s = (case ev of
     PoolBegin \<Rightarrow> pool_start s
   | PoolSecond \<Rightarrow> ([], pool_tick s)
   | PoolTenSeconds \<Rightarrow> load_tick s
   | PoolRoom \<Rightarrow> ([], pool_unblock s))"

text \<open>What \<^verbatim>\<open>channelHandler\<close> does for the signal \<^verbatim>\<open>SG_Chan\<close>.\<close>

definition on_signal :: "('c, 'w, 'k, 'x) client_scheme \<Rightarrow> client_effect list \<times> ('c, 'w, 'k, 'x) client_scheme" where
  "on_signal s =
     (let s = s\<lparr>cl_loadConnections := cl_loadConnections s + 1\<rparr> in
      case try_recv (cl_controlFlow s) of
        Some (_, ch) \<Rightarrow> ([], s\<lparr>cl_controlFlow := ch\<rparr>)
      | None \<Rightarrow> start_dialers 1 s)"

text \<open>The counter around a dialer's connection: it joins the pool after its dial and leaves it with
  the target, with an error, or with the end of its session.\<close>

definition pool_join :: "nat \<Rightarrow> 'k \<Rightarrow> ('c, 'w, 'k, 'x) client_scheme \<Rightarrow> ('c, 'w, 'k, 'x) client_scheme" where
  "pool_join i c s = s\<lparr>cl_poolConnections := cl_poolConnections s + 1, cl_dialers := (cl_dialers s)[i := Pooled c]\<rparr>"

definition pool_leave :: "nat \<Rightarrow> ('c, 'w, 'k, 'x) client_scheme \<Rightarrow> ('c, 'w, 'k, 'x) client_scheme" where
  "pool_leave i s = s\<lparr>cl_poolConnections := cl_poolConnections s - 1, cl_dialers := (cl_dialers s)[i := Gone]\<rparr>"

definition dial_failed :: "nat \<Rightarrow> ('c, 'w, 'k, 'x) client_scheme \<Rightarrow> ('c, 'w, 'k, 'x) client_scheme" where
  "dial_failed i s = s\<lparr>cl_dialers := (cl_dialers s)[i := Gone]\<rparr>"

definition pool_set :: "nat \<Rightarrow> 'k \<Rightarrow> ('c, 'w, 'k, 'x) client_scheme \<Rightarrow> ('c, 'w, 'k, 'x) client_scheme" where
  "pool_set i c s = s\<lparr>cl_dialers := (cl_dialers s)[i := Pooled c]\<rparr>"

section \<open>Runs of a client\<close>

text \<open>The events of a client between two restarts, once its pool has begun: a message on the control
  channel, an event of \<^verbatim>\<open>poolMaintainer\<close>, and something a dialer waited for.  That the handler
  stops after a restart is not enforced: the runs include those of the code.\<close>

datatype ('m, 'd) client_event = Control 'm | Maintain pool_event | Dialer nat 'd

definition client_turn ::
  "('m \<Rightarrow> ('c, 'w, 'k, 'x) client_scheme \<Rightarrow> handler_next \<times> client_effect list \<times> ('c, 'w, 'k, 'x) client_scheme)
    \<Rightarrow> (nat \<Rightarrow> 'd \<Rightarrow> ('c, 'w, 'k, 'x) client_scheme \<Rightarrow> client_effect list \<times> ('c, 'w, 'k, 'x) client_scheme)
    \<Rightarrow> ('m, 'd) client_event \<Rightarrow> ('c, 'w, 'k, 'x) client_scheme \<Rightarrow> client_effect list \<times> ('c, 'w, 'k, 'x) client_scheme"
  where
  "client_turn control dialer ev s = (case ev of
     Control m \<Rightarrow> snd (control m s)
   | Maintain pev \<Rightarrow> if pev = PoolBegin then ([], s) else poolMaintainer pev s
   | Dialer i d \<Rightarrow> if i < length (cl_dialers s) then dialer i d s else ([], s))"

fun client_run ::
  "('m \<Rightarrow> ('c, 'w, 'k, 'x) client_scheme \<Rightarrow> handler_next \<times> client_effect list \<times> ('c, 'w, 'k, 'x) client_scheme)
    \<Rightarrow> (nat \<Rightarrow> 'd \<Rightarrow> ('c, 'w, 'k, 'x) client_scheme \<Rightarrow> client_effect list \<times> ('c, 'w, 'k, 'x) client_scheme)
    \<Rightarrow> ('m, 'd) client_event list \<Rightarrow> ('c, 'w, 'k, 'x) client_scheme \<Rightarrow> client_effect list \<times> ('c, 'w, 'k, 'x) client_scheme"
  where
  "client_run control dialer [] s = ([], s)"
| "client_run control dialer (ev # evs) s =
     (case client_turn control dialer ev s of (es, s) \<Rightarrow>
      case client_run control dialer evs s of (fs, s) \<Rightarrow> (es @ fs, s))"

section \<open>The books of the pool\<close>

definition dials :: "client_effect list \<Rightarrow> nat" where
  "dials es = count_list es GoTunnelDialer"

text \<open>The permits not to dial: those in \<^verbatim>\<open>controlFlow\<close>, and the one \<^verbatim>\<open>poolMaintainer\<close> waits with.\<close>

definition permits :: "('c, 'w, 'k, 'x) client_scheme \<Rightarrow> nat" where
  "permits s = length (ch_buf (cl_controlFlow s)) + (if cl_blocked s then 1 else 0)"

definition in_pool :: "('c, 'w, 'k, 'x) client_scheme \<Rightarrow> nat" where
  "in_pool s = length (filter (\<lambda>d. case d of Pooled c \<Rightarrow> True | _ \<Rightarrow> False) (cl_dialers s))"

text \<open>By how much the counter is off, in 32 bits.\<close>

definition miscount :: "('c, 'w, 'k, 'x) client_scheme \<Rightarrow> 32 word" where
  "miscount s = cl_poolConnections s - of_nat (in_pool s)"

fun signals :: "('m \<Rightarrow> bool) \<Rightarrow> ('m, 'd) client_event list \<Rightarrow> nat" where
  "signals sig [] = 0"
| "signals sig (Control m # evs) = (if sig m then 1 else 0) + signals sig evs"
| "signals sig (_ # evs) = signals sig evs"

definition pool_size :: "('c, 'w, 'k, 'x) client_scheme \<Rightarrow> int" where
  "pool_size s = dc_ConnPoolSize (cl_config s)"

lemma dials_simps [simp]: "dials [] = 0" "dials (e # es) = (if e = GoTunnelDialer then 1 else 0) + dials es"
  "dials (es @ fs) = dials es + dials fs" "dials (replicate n GoTunnelDialer) = n"
  by (simp_all add: dials_def) (induction n; simp)

text \<open>What an operation of the pool does to the books.\<close>

definition books :: "int \<Rightarrow> client_effect list \<Rightarrow> ('c, 'w, 'k, 'x) client_scheme \<Rightarrow> ('c, 'w, 'k, 'x) client_scheme \<Rightarrow> bool" where
  "books sigs es s t \<longleftrightarrow>
     int (dials es) + cl_newPoolSize s + int (permits s) = cl_newPoolSize t + int (permits t) + sigs
     \<and> (pool_size s \<le> cl_newPoolSize s \<longrightarrow> pool_size t \<le> cl_newPoolSize t) \<and> pool_size t = pool_size s
     \<and> miscount t = miscount s \<and> length (cl_dialers t) = length (cl_dialers s) + dials es"

lemma books_trans: "books m es s t \<Longrightarrow> books n fs t u \<Longrightarrow> books (m + n) (es @ fs) s u"
  by (auto simp: books_def)

lemma books_refl [simp]: "books 0 [] s s"
  by (simp add: books_def)

named_theorems pool \<open>the operations of the pool\<close>

lemma start_dialers_pool [pool]:
  "start_dialers n s = (es, t) \<Longrightarrow> dials es = n \<and> miscount t = miscount s \<and> permits t = permits s
     \<and> cl_newPoolSize t = cl_newPoolSize s \<and> pool_size t = pool_size s \<and> length (cl_dialers t) = length (cl_dialers s) + n"
  by (auto simp: start_dialers_def miscount_def in_pool_def permits_def pool_size_def)

lemma books_unblock: "books 0 [] s (pool_unblock s)"
proof (cases "cl_blocked s")
  case True
  obtain ok ch where t: "try_send () (cl_controlFlow s) = (ok, ch)" by (metis prod.exhaust)
  show ?thesis
  proof (cases ok)
    case True
    with t have "ch_buf ch = ch_buf (cl_controlFlow s) @ [()]" using go_chan.send_ok [of "()" "cl_controlFlow s" ch] by simp
    with \<open>cl_blocked s\<close> True t show ?thesis
      by (simp add: books_def pool_unblock_def permits_def miscount_def in_pool_def pool_size_def)
  qed (use \<open>cl_blocked s\<close> t in \<open>simp add: books_def pool_unblock_def\<close>)
qed (simp add: pool_unblock_def)

lemma books_pool_tick: "books 0 [] s (pool_tick s)"
  by (simp add: books_def pool_tick_def permits_def miscount_def in_pool_def pool_size_def)

lemma books_on_signal:
  assumes "on_signal s = (es, t)"
  shows "books 1 es s t"
proof (cases "try_recv (cl_controlFlow s)")
  case None
  let ?s = "s\<lparr>cl_loadConnections := cl_loadConnections s + 1\<rparr>"
  have "start_dialers 1 ?s = (es, t)" using assms None by (simp add: on_signal_def)
  from start_dialers_pool [OF this] show ?thesis
    by (simp add: books_def permits_def miscount_def in_pool_def pool_size_def)
next
  case (Some x)
  obtain u ch where x: "x = (u, ch)" by (cases x)
  have "ch_buf (cl_controlFlow s) = u # ch_buf ch" by (rule go_chan.recv_some [OF Some [unfolded x]])
  with assms Some x show ?thesis
    by (auto simp: books_def on_signal_def permits_def miscount_def in_pool_def pool_size_def)
qed

text \<open>The averages \<^verbatim>\<open>poolMaintainer\<close> looks at.\<close>

definition avg10 :: "32 word \<Rightarrow> int" where
  "avg10 w = (sint w + 9) sdiv 10"

definition grows_pool :: "('c, 'w, 'k, 'x) client_scheme \<Rightarrow> bool" where
  "grows_pool s \<longleftrightarrow> (case pool_factors (dc_AggressivePool (cl_config s)) of (a, b, x, y) \<Rightarrow>
     avg10 (cl_loadConnections s) + a > avg10 (cl_poolConnectionsSum s) * b)"

lemma load_tick_cases:
  assumes "load_tick s = (es, t)"
  obtains (blocked) "cl_blocked s" "es = []" "t = s"
  | (grow) "\<not> cl_blocked s" "grows_pool s" "es = [GoTunnelDialer]"
      "start_dialers 1 (s\<lparr>cl_loadConnections := 0, cl_poolConnectionsSum := 0,
        cl_newPoolSize := cl_newPoolSize s + 1\<rparr>) = (es, t)"
  | (shrink) "\<not> cl_blocked s" "\<not> grows_pool s" "es = []" "cl_newPoolSize s > pool_size s"
      "t = pool_unblock (s\<lparr>cl_loadConnections := 0, cl_poolConnectionsSum := 0,
        cl_newPoolSize := cl_newPoolSize s - 1, cl_blocked := True\<rparr>)"
  | (keep) "\<not> cl_blocked s" "\<not> grows_pool s" "es = []" "t = s\<lparr>cl_loadConnections := 0, cl_poolConnectionsSum := 0\<rparr>"
proof -
  obtain a b x y where f: "pool_factors (dc_AggressivePool (cl_config s)) = (a, b, x, y)" by (metis prod.exhaust)
  show thesis
  proof (cases "cl_blocked s")
    case True
    with assms show thesis by (intro that(1)) (simp_all add: load_tick_def)
  next
    case False
    show thesis
    proof (cases "grows_pool s")
      case True
      with False assms f show thesis
        by (intro that(2)) (auto simp: load_tick_def grows_pool_def avg10_def Let_def start_dialers_def)
    next
      case ng: False
      show thesis
      proof (cases "of_int (avg10 (cl_loadConnections s) + x) < of_int (avg10 (cl_poolConnectionsSum s)) * y
          \<and> cl_newPoolSize s > dc_ConnPoolSize (cl_config s)")
        case True
        with False ng assms f show thesis
          by (intro that(3)) (auto simp: load_tick_def grows_pool_def avg10_def Let_def pool_size_def)
      next
        case nf: False
        with False ng assms f show thesis
          by (intro that(4)) (auto simp: load_tick_def grows_pool_def avg10_def Let_def)
      qed
    qed
  qed
qed

lemma books_load_tick:
  assumes "load_tick s = (es, t)"
  shows "books 0 es s t"
  using assms
proof (cases rule: load_tick_cases)
  case grow
  from start_dialers_pool [OF grow(4)] show ?thesis
    by (simp add: books_def permits_def miscount_def in_pool_def pool_size_def)
next
  case shrink
  let ?s = "s\<lparr>cl_loadConnections := 0, cl_poolConnectionsSum := 0, cl_newPoolSize := cl_newPoolSize s - 1, cl_blocked := True\<rparr>"
  have "books 0 [] s ?s" using shrink(1,4)
    by (simp add: books_def permits_def miscount_def in_pool_def pool_size_def)
  from books_trans [OF this books_unblock] shrink show ?thesis by simp
next
  case keep
  then show ?thesis by (simp add: books_def permits_def miscount_def in_pool_def pool_size_def)
qed simp

text \<open>The steps of a dialer.\<close>

lemma in_pool_update:
  assumes "i < length (cl_dialers s)" and "cl_dialers t = (cl_dialers s)[i := d]"
  shows "in_pool t + (case cl_dialers s ! i of Pooled c \<Rightarrow> 1 | _ \<Rightarrow> 0)
    = in_pool s + (case d of Pooled c \<Rightarrow> 1 | _ \<Rightarrow> 0)"
proof -
  let ?P = "\<lambda>d. case d of Pooled c \<Rightarrow> True | _ \<Rightarrow> False"
  have a: "cl_dialers s = take i (cl_dialers s) @ cl_dialers s ! i # drop (Suc i) (cl_dialers s)"
    by (rule id_take_nth_drop [OF assms(1)])
  have b: "cl_dialers t = take i (cl_dialers s) @ d # drop (Suc i) (cl_dialers s)"
    using assms by (simp add: upd_conv_take_nth_drop)
  have "in_pool s = length (filter ?P (take i (cl_dialers s) @ cl_dialers s ! i # drop (Suc i) (cl_dialers s)))"
    unfolding in_pool_def using a by metis
  then show ?thesis unfolding in_pool_def b by (simp split: dialer.split)
qed

definition pooled_one :: "'k dialer \<Rightarrow> nat" where
  "pooled_one d = (case d of Pooled c \<Rightarrow> 1 | _ \<Rightarrow> 0)"

lemma books_update:
  assumes i: "i < length (cl_dialers s)" and d: "cl_dialers t = (cl_dialers s)[i := d]"
    and c: "cl_poolConnections t + of_nat (pooled_one (cl_dialers s ! i)) = cl_poolConnections s + of_nat (pooled_one d)"
    and same: "cl_newPoolSize t = cl_newPoolSize s" "permits t = permits s" "pool_size t = pool_size s"
  shows "books 0 [] s t"
proof -
  have "of_nat (in_pool t) + of_nat (pooled_one (cl_dialers s ! i)) = of_nat (in_pool s) + (of_nat (pooled_one d) :: 32 word)"
    using in_pool_update [OF i d] by (metis of_nat_add pooled_one_def)
  with c have "miscount t = miscount s" unfolding miscount_def by (metis add_diff_cancel_right)
  with d same show ?thesis by (simp add: books_def)
qed

lemma books_dialer:
  assumes "i < length (cl_dialers s)"
  shows "cl_dialers s ! i = Dialing \<Longrightarrow> books 0 [] s (pool_join i c s)"
    and "cl_dialers s ! i = Pooled c \<Longrightarrow> books 0 [] s (pool_leave i s)"
    and "cl_dialers s ! i = Dialing \<Longrightarrow> books 0 [] s (dial_failed i s)"
    and "cl_dialers s ! i = Pooled c \<Longrightarrow> books 0 [] s (pool_set i d s)"
  by (auto intro!: books_update [OF assms]
      simp: permits_def pool_size_def pool_join_def pool_leave_def dial_failed_def pool_set_def pooled_one_def)

section \<open>The contract of a runtime with a pool\<close>

text \<open>A signal does \<open>on_signal\<close>; all else a handler or a dialer does leaves the books alone.\<close>

locale pooled_client =
  fixes control :: "'m \<Rightarrow> ('c, 'w, 'k, 'x) client_scheme \<Rightarrow> handler_next \<times> client_effect list \<times> ('c, 'w, 'k, 'x) client_scheme"
    and dialer :: "nat \<Rightarrow> 'd \<Rightarrow> ('c, 'w, 'k, 'x) client_scheme \<Rightarrow> client_effect list \<times> ('c, 'w, 'k, 'x) client_scheme"
    and sig :: "'m \<Rightarrow> bool"
  assumes control_signal: "sig m \<Longrightarrow> control m s = (Running, on_signal s)"
    and control_other: "\<not> sig m \<Longrightarrow> control m s = (n, es, t) \<Longrightarrow> dials es = 0 \<and> books 0 [] s t"
    and dialer_books: "i < length (cl_dialers s) \<Longrightarrow> dialer i d s = (es, t) \<Longrightarrow> dials es = 0 \<and> books 0 [] s t"
begin

lemma turn_books:
  assumes "client_turn control dialer ev s = (es, t)"
  shows "books (int (signals sig [ev])) es s t"
proof (cases ev)
  case (Control m)
  show ?thesis
  proof (cases "sig m")
    case True
    with assms Control control_signal [OF True] books_on_signal [of s es t] show ?thesis by (simp add: client_turn_def)
  next
    case False
    obtain n es' t' where c: "control m s = (n, es', t')" by (metis prod.exhaust)
    with assms Control have "control m s = (n, es, t)" by (simp add: client_turn_def)
    from control_other [OF False this] False Control show ?thesis by (auto simp: books_def)
  qed
next
  case (Dialer i d)
  show ?thesis
  proof (cases "i < length (cl_dialers s)")
    case True
    with assms Dialer have "dialer i d s = (es, t)" by (simp add: client_turn_def)
    from dialer_books [OF True this] Dialer show ?thesis by (auto simp: books_def)
  qed (use assms Dialer in \<open>simp add: client_turn_def\<close>)
next
  case (Maintain pev)
  with assms books_pool_tick books_unblock books_load_tick show ?thesis
    by (cases pev) (auto simp: client_turn_def poolMaintainer_def)
qed

lemma signals_Cons: "signals sig (ev # evs) = signals sig [ev] + signals sig evs"
  by (cases ev) simp_all

lemma run_books: "client_run control dialer evs s = (es, t) \<Longrightarrow> books (int (signals sig evs)) es s t"
proof (induction evs arbitrary: s es)
  case (Cons ev evs)
  obtain es1 s1 where 1: "client_turn control dialer ev s = (es1, s1)" by (metis prod.exhaust)
  obtain es2 where 2: "client_run control dialer evs s1 = (es2, t)" "es = es1 @ es2"
    using Cons.prems 1 by (auto split: prod.splits)
  from books_trans [OF turn_books [OF 1] Cons.IH [OF 2(1)]] 2(2) signals_Cons [of ev evs] show ?case by simp
qed simp

text \<open>From the start of \<^verbatim>\<open>poolMaintainer\<close>: the dials are the pool size, the signals and the permits.\<close>

lemma pool_run_books:
  assumes "pool_start s = (es, t)" and "client_run control dialer evs t = (fs, u)"
    and "ch_buf (cl_controlFlow s) = []" and "0 \<le> dc_ConnPoolSize (cl_config s)"
  shows "int (dials (es @ fs)) = cl_newPoolSize u + int (permits u) + int (signals sig evs)"
    and "pool_size u \<le> cl_newPoolSize u" and "miscount u = miscount s"
proof -
  have "dials es = nat (pool_size s) \<and> cl_newPoolSize t = pool_size s \<and> permits t = 0 \<and> pool_size t = pool_size s
      \<and> miscount t = miscount s"
    using start_dialers_pool [OF assms(1) [unfolded pool_start_def]] assms(3)
    by (simp add: pool_size_def permits_def miscount_def in_pool_def)
  with run_books [OF assms(2)] assms(4)
  show "int (dials (es @ fs)) = cl_newPoolSize u + int (permits u) + int (signals sig evs)"
    and "pool_size u \<le> cl_newPoolSize u" and "miscount u = miscount s"
    by (auto simp: books_def pool_size_def)
qed

end

end
