(* ===== verification/Tcp_Client.thy ===== *)
theory Tcp_Client
  imports Client_Pool Mux_Sessions
begin

text \<open>
  The client runtimes over a TCP control channel: \<^verbatim>\<open>tcp.go\<close>, \<^verbatim>\<open>udp.go\<close> and \<^verbatim>\<open>tcpmux.go\<close> of
  \<^verbatim>\<open>internal/client/transport\<close>.  The control channel and its handshake are the same text in the
  three; their dialers are state machines that each interpret \<open>pooled_client\<close>.
\<close>

section \<open>Configurations and states\<close>

record TcpClientConfig = DialConfig +
  tk_KeepAlive :: Duration
  tk_Nodelay :: bool
  tk_TCPCopyBuffer :: int

type_synonym TcpClient = "(unit TcpClientConfig_ext, wire, wire) client"

type_synonym UdpClient = "(unit, wire, unit) client"

record MuxClientConfig = DialConfig +
  mk_Nodelay :: bool
  mk_KeepAlive :: Duration
  mk_MuxVersion :: int
  mk_MaxFrameSize :: int
  mk_MaxReceiveBuffer :: int
  mk_MaxStreamBuffer :: int
  mk_TunnelTCPBuffer :: int
  mk_TCPCopyBuffer :: int

record ('c, 'w, 'k) mux_client = "('c, 'w, 'k) client" +
  cl_smuxConfig :: SmuxConfig

type_synonym TcpMuxClient = "(unit MuxClientConfig_ext, wire, unit) mux_client"

definition NewTCPClient :: "TcpClientConfig \<Rightarrow> TcpClient" where
  "NewTCPClient config = new_client config"

definition NewUDPClient :: "DialConfig \<Rightarrow> UdpClient" where
  "NewUDPClient config = new_client config"

definition NewMuxClient :: "MuxClientConfig \<Rightarrow> TcpMuxClient" where
  "NewMuxClient config =
     client.extend (new_client config)
       \<lparr>cl_smuxConfig = \<lparr>sx_Version = mk_MuxVersion config, sx_KeepAliveInterval = 20 * Second,
          sx_KeepAliveTimeout = 40 * Second, sx_MaxFrameSize = mk_MaxFrameSize config,
          sx_MaxReceiveBuffer = mk_MaxReceiveBuffer config, sx_MaxStreamBuffer = mk_MaxStreamBuffer config\<rparr>\<rparr>"

definition tcpc_Start :: "TcpClient \<Rightarrow> client_effect list \<times> TcpClient" where
  "tcpc_Start s = client_Start ''Disconnected (TCP)'' s"

definition udpc_Start :: "UdpClient \<Rightarrow> client_effect list \<times> UdpClient" where
  "udpc_Start s = client_Start ''Disconnected (UDP)'' s"

definition muxc_Start :: "TcpMuxClient \<Rightarrow> client_effect list \<times> TcpMuxClient" where
  "muxc_Start s = client_Start ''Disconnected (TCPMUX)'' s"

definition tcpc_Restart :: "TcpClient \<Rightarrow> client_effect list \<times> TcpClient" where
  "tcpc_Restart s = client_Restart s"

definition udpc_Restart :: "UdpClient \<Rightarrow> client_effect list \<times> UdpClient" where
  "udpc_Restart s = client_Restart s"

definition muxc_Restart :: "TcpMuxClient \<Rightarrow> client_effect list \<times> TcpMuxClient" where
  "muxc_Restart s = client_Restart s"

section \<open>The handshake\<close>

text \<open>The token is sent and has to come back: \<open>Inl\<close> tells that the connection is closed, and whether
  the loop waits before the next attempt.\<close>

definition dialer_handshake :: "bool \<Rightarrow> string \<Rightarrow> wire \<Rightarrow> bool + wire" where
  "dialer_handshake deadline_ok token w =
     (case SendBinaryTransportString w token SG_Chan of
        (Some _, _) \<Rightarrow> Inl False
      | (None, w) \<Rightarrow>
          if \<not> deadline_ok then Inl False else
          (case ReceiveBinaryTransportString w of
             ((message, _, err), w) \<Rightarrow>
               if err \<noteq> None then Inl True
               else if message = token then Inr w
               else Inl True))"

text \<open>The loop of \<^verbatim>\<open>channelDialer\<close>, with what \<^verbatim>\<open>TcpDialer\<close> and \<^verbatim>\<open>SetReadDeadline\<close> return in each turn.\<close>

fun channel_dialer :: "string \<Rightarrow> (wire option \<times> bool) list \<Rightarrow> ('c, wire, 'k, 'x) client_scheme
    \<Rightarrow> client_effect list \<times> ('c, wire, 'k, 'x) client_scheme" where
  "channel_dialer status [] s = ([], s)"
| "channel_dialer status ((None, _) # ds) s =
     (case channel_dialer status ds s of (es, s) \<Rightarrow> (RetryAfter (dc_RetryInterval (cl_config s)) # es, s))"
| "channel_dialer status ((Some w, deadline_ok) # ds) s =
     (case dialer_handshake deadline_ok (dc_Token (cl_config s)) w of
        Inr w \<Rightarrow> ([GoPoolMaintainer, GoChannelHandler], (set_status status s)\<lparr>cl_controlChannel := Some w\<rparr>)
      | Inl wait \<Rightarrow>
          (case channel_dialer status ds s of (es, t) \<Rightarrow>
             (CloseTunnelConn # (if wait then [RetryAfter (dc_RetryInterval (cl_config s))] else []) @ es, t)))"

definition tcpc_channelDialer :: "(wire option \<times> bool) list \<Rightarrow> TcpClient \<Rightarrow> client_effect list \<times> TcpClient" where
  "tcpc_channelDialer ds s = channel_dialer ''Connected (TCP)'' ds s"

definition udpc_channelDialer :: "(wire option \<times> bool) list \<Rightarrow> UdpClient \<Rightarrow> client_effect list \<times> UdpClient" where
  "udpc_channelDialer ds s = channel_dialer ''Connected (UDP)'' ds s"

definition muxc_channelDialer :: "(wire option \<times> bool) list \<Rightarrow> TcpMuxClient \<Rightarrow> client_effect list \<times> TcpMuxClient" where
  "muxc_channelDialer ds s = channel_dialer ''Connected (TCPMux)'' ds s"

section \<open>The control channel\<close>

text \<open>What the select of \<^verbatim>\<open>channelHandler\<close> got, or the error of its reading goroutine.\<close>

datatype client_msg = ClientDone | ClientMsg char | ClientReadError

definition control_write :: "char \<Rightarrow> ('c, wire, 'k, 'x) client_scheme \<Rightarrow> bool \<times> ('c, wire, 'k, 'x) client_scheme" where
  "control_write sig s =
     (case cl_controlChannel s of
        None \<Rightarrow> (False, s)
      | Some w \<Rightarrow> (case SendBinaryByte w sig of (e, w) \<Rightarrow> (e = None, s\<lparr>cl_controlChannel := Some w\<rparr>)))"

text \<open>\<open>rtt\<close> tells whether the runtime knows the signal \<^verbatim>\<open>SG_RTT\<close>.\<close>

definition client_control :: "bool \<Rightarrow> client_msg \<Rightarrow> ('c, wire, 'k, 'x) client_scheme
    \<Rightarrow> handler_next \<times> client_effect list \<times> ('c, wire, 'k, 'x) client_scheme" where
  "client_control rtt ev s =
     (case ev of
        ClientDone \<Rightarrow> (Stopped, [], snd (control_write SG_Closed s))
      | ClientReadError \<Rightarrow> (Restarting, [RestartClient], s)
      | ClientMsg msg \<Rightarrow>
          if msg = SG_Chan then (Running, on_signal s)
          else if msg = SG_HB then (Running, [], s)
          else if msg = SG_Closed then (Restarting, [RestartClient], s)
          else if rtt \<and> msg = SG_RTT then
            (case control_write SG_RTT s of
               (True, s) \<Rightarrow> (Running, [], s) | (False, s) \<Rightarrow> (Restarting, [RestartClient], s))
          else (Restarting, [RestartClient], s))"

definition tcpc_channelHandler :: "client_msg \<Rightarrow> TcpClient \<Rightarrow> handler_next \<times> client_effect list \<times> TcpClient" where
  "tcpc_channelHandler ev s = client_control True ev s"

definition udpc_channelHandler :: "client_msg \<Rightarrow> UdpClient \<Rightarrow> handler_next \<times> client_effect list \<times> UdpClient" where
  "udpc_channelHandler ev s = client_control True ev s"

definition muxc_channelHandler :: "client_msg \<Rightarrow> TcpMuxClient \<Rightarrow> handler_next \<times> client_effect list \<times> TcpMuxClient" where
  "muxc_channelHandler ev s = client_control False ev s"

section \<open>The pool in the three runtimes\<close>

definition tcpc_poolMaintainer :: "pool_event \<Rightarrow> TcpClient \<Rightarrow> client_effect list \<times> TcpClient" where
  "tcpc_poolMaintainer ev s = poolMaintainer ev s"

definition udpc_poolMaintainer :: "pool_event \<Rightarrow> UdpClient \<Rightarrow> client_effect list \<times> UdpClient" where
  "udpc_poolMaintainer ev s = poolMaintainer ev s"

definition muxc_poolMaintainer :: "pool_event \<Rightarrow> TcpMuxClient \<Rightarrow> client_effect list \<times> TcpMuxClient" where
  "muxc_poolMaintainer ev s = poolMaintainer ev s"

section \<open>Dialers\<close>

text \<open>\<^verbatim>\<open>tunnelDialer\<close> of the TCP runtime: its dial returned, or the target arrived (or an error), and
  then \<open>local_ok\<close> tells whether the target could be dialled.\<close>

datatype tcp_dial_event = TcpDialed "wire option" | TcpTarget bool

definition tcpc_localDialer :: "bool \<Rightarrow> string \<Rightarrow> int \<Rightarrow> client_effect list" where
  "tcpc_localDialer local_ok remoteAddr port = (if \<not> local_ok then [CloseTunnelConn] else [RelayTo port remoteAddr])"

definition tcpc_target :: "bool \<Rightarrow> wire \<Rightarrow> client_effect list \<times> wire" where
  "tcpc_target local_ok w =
     (case ReceiveBinaryTransportString w of
        ((remoteAddr, transport, err), w) \<Rightarrow>
          (if err \<noteq> None then [CloseTunnelConn]
           else case ResolveRemoteAddr remoteAddr of
             None \<Rightarrow> [CloseTunnelConn]
           | Some (port, resolvedAddr) \<Rightarrow>
               if transport = SG_TCP then tcpc_localDialer local_ok resolvedAddr port
               else if transport = SG_UDP then [RelayUDPTo port resolvedAddr]
               else [CloseTunnelConn], w))"

definition tcpc_tunnelDialer :: "nat \<Rightarrow> tcp_dial_event \<Rightarrow> TcpClient \<Rightarrow> client_effect list \<times> TcpClient" where
  "tcpc_tunnelDialer i ev s =
     (case (cl_dialers s ! i, ev) of
        (Dialing, TcpDialed None) \<Rightarrow> ([], dial_failed i s)
      | (Dialing, TcpDialed (Some tcpConn)) \<Rightarrow> ([], pool_join i tcpConn s)
      | (Pooled tcpConn, TcpTarget local_ok) \<Rightarrow> (fst (tcpc_target local_ok tcpConn), pool_leave i s)
      | _ \<Rightarrow> ([], s))"

text \<open>The UDP runtime: \<^verbatim>\<open>tunnelDialer\<close> dials and \<^verbatim>\<open>handleTunnelConn\<close> sends the token (\<open>UdpDialed\<close> tells
  which of the two went well), then reads datagrams into a buffer of 47 bytes.\<close>

datatype udp_dial_event = UdpDialed bool bool | UdpDatagram string bool | UdpReadError

definition udpc_localDialer :: "bool \<Rightarrow> string \<Rightarrow> int \<Rightarrow> client_effect list" where
  "udpc_localDialer local_ok remoteAddr port = (if \<not> local_ok then [CloseTunnelConn] else [RelayUDPTo port remoteAddr])"

definition udpc_handleTunnelConn :: "nat \<Rightarrow> udp_dial_event \<Rightarrow> UdpClient \<Rightarrow> client_effect list \<times> UdpClient" where
  "udpc_handleTunnelConn i ev s =
     (case (cl_dialers s ! i, ev) of
        (Dialing, UdpDialed dialed sent) \<Rightarrow>
          if \<not> dialed then ([], dial_failed i s)
          else if \<not> sent then ([CloseTunnelConn], dial_failed i s)
          else ([], pool_join i () s)
      | (Pooled _, UdpReadError) \<Rightarrow> ([CloseTunnelConn], pool_leave i s)
      | (Pooled _, UdpDatagram d local_ok) \<Rightarrow>
          let buffer = take 47 d in
          if length buffer = 1 \<and> buffer ! 0 = SG_Ping then ([], s)
          else (case ResolveRemoteAddr buffer of
                  None \<Rightarrow> [CloseTunnelConn]
                | Some (port, remoteAddr) \<Rightarrow> udpc_localDialer local_ok remoteAddr port, pool_leave i s)
      | _ \<Rightarrow> ([], s))"

text \<open>\<^verbatim>\<open>udpCopy\<close>, one direction of a relay: what setting the deadline, reading (\<open>None\<close> is an error or the
  timeout of 60 seconds) and writing return in each turn.  The result is the datagrams written, and
  whether the loop returned.  A datagram is cut to the buffer; of an empty one nothing is written.\<close>

fun udpc_udpCopy :: "(bool \<times> string option \<times> bool) list \<Rightarrow> string list \<times> bool" where
  "udpc_udpCopy [] = ([], False)"
| "udpc_udpCopy ((deadline_ok, read, write_ok) # ts) =
     (if \<not> deadline_ok then ([], True) else
      case read of
        None \<Rightarrow> ([], True)
      | Some d \<Rightarrow>
          let buf = take (16 * 1024) d in
          if length buf = 0 then udpc_udpCopy ts
          else if \<not> write_ok then ([], True)
          else (case udpc_udpCopy ts of (ds, r) \<Rightarrow> (buf # ds, r)))"

text \<open>The multiplexed runtime: the dialer serves a session.  A stream arrives with its bytes; the
  session could not be made, or the context ended, or (with \<open>True\<close>) accepting a stream failed, is
  \<open>MuxSessionEnd\<close>.\<close>

datatype mux_dial_event = MuxDialed bool | MuxStream wire bool | MuxSessionEnd bool

definition muxc_localDialer :: "bool \<Rightarrow> string \<Rightarrow> client_effect list" where
  "muxc_localDialer local_ok remoteAddr =
     (case ResolveRemoteAddr remoteAddr of
        None \<Rightarrow> [CloseStream]
      | Some (port, resolvedAddr) \<Rightarrow> if \<not> local_ok then [CloseStream] else [RelayTo port resolvedAddr])"

definition muxc_stream :: "bool \<Rightarrow> wire \<Rightarrow> client_effect list" where
  "muxc_stream local_ok stream =
     (case ReceiveBinaryString stream of
        (Inl _, _) \<Rightarrow> [CloseStream]
      | (Inr remoteAddr, _) \<Rightarrow> muxc_localDialer local_ok remoteAddr)"

definition muxc_handleSession :: "nat \<Rightarrow> mux_dial_event \<Rightarrow> ('c, 'w, unit, 'x) client_scheme
    \<Rightarrow> client_effect list \<times> ('c, 'w, unit, 'x) client_scheme" where
  "muxc_handleSession i ev s =
     (case (cl_dialers s ! i, ev) of
        (Dialing, MuxDialed False) \<Rightarrow> ([], dial_failed i s)
      | (Dialing, MuxDialed True) \<Rightarrow> ([], pool_join i () s)
      | (Pooled _, MuxStream stream local_ok) \<Rightarrow> (muxc_stream local_ok stream, s)
      | (Pooled _, MuxSessionEnd close) \<Rightarrow> (if close then [CloseTunnelConn] else [], pool_leave i s)
      | _ \<Rightarrow> ([], s))"

text \<open>While all goes well \<^verbatim>\<open>udpCopy\<close> forwards what it read, in order, but not the empty datagrams.\<close>

lemma udpc_udpCopy_forwards:
  "udpc_udpCopy (map (\<lambda>d. (True, Some d, True)) ds @ ts)
    = (filter (\<lambda>d. d \<noteq> []) (map (take (16 * 1024)) ds) @ fst (udpc_udpCopy ts), snd (udpc_udpCopy ts))"
  by (induction ds) (auto simp: Let_def split: prod.splits)

section \<open>The three runtimes keep the books of the pool\<close>

definition is_signal :: "client_msg \<Rightarrow> bool" where
  "is_signal m \<longleftrightarrow> m = ClientMsg SG_Chan"

lemma control_write_books: "control_write g s = (ok, t) \<Longrightarrow> books 0 [] s t"
  by (auto simp: control_write_def books_def permits_def miscount_def in_pool_def pool_size_def
      split: option.splits prod.splits)

lemma client_control_books:
  assumes "\<not> is_signal m" and "client_control rtt m s = (n, es, t)"
  shows "dials es = 0 \<and> books 0 [] s t"
proof (cases m)
  case ClientDone
  with assms control_write_books [OF surjective_pairing [of "control_write SG_Closed s"]] show ?thesis by (auto simp: client_control_def)
next
  case (ClientMsg c)
  obtain ok s' where w: "control_write SG_RTT s = (ok, s')" by (metis prod.exhaust)
  from control_write_books [OF w] w assms ClientMsg show ?thesis
    by (cases ok) (auto simp: client_control_def is_signal_def split: if_splits)
qed (use assms in \<open>auto simp: client_control_def\<close>)

lemma client_control_signal: "is_signal m \<Longrightarrow> client_control rtt m s = (Running, on_signal s)"
  by (simp add: is_signal_def client_control_def)

lemma client_control_pooled:
  assumes "\<And>i d s es t. i < length (cl_dialers s) \<Longrightarrow> dialer i d s = (es, t) \<Longrightarrow> dials es = 0 \<and> books 0 [] s t"
  shows "pooled_client (client_control rtt) dialer is_signal"
proof
  show "is_signal m \<Longrightarrow> client_control rtt m s = (Running, on_signal s)" for m s
    by (rule client_control_signal)
  show "\<not> is_signal m \<Longrightarrow> client_control rtt m s = (n, es, t) \<Longrightarrow> dials es = 0 \<and> books 0 [] s t" for m s n es t
    by (rule client_control_books)
qed (rule assms)

lemma tcpc_target_dials: "dials (fst (tcpc_target ok w)) = 0"
  by (auto simp: tcpc_target_def tcpc_localDialer_def split: prod.splits option.splits)

lemma muxc_stream_dials: "dials (muxc_stream ok w) = 0"
  by (auto simp: muxc_stream_def muxc_localDialer_def split: prod.splits sum.splits option.splits)

lemma tcpc_tunnelDialer_books:
  assumes i: "i < length (cl_dialers s)" and r: "tcpc_tunnelDialer i d s = (es, t)"
  shows "dials es = 0 \<and> books 0 [] s t"
  using r books_dialer [OF i] tcpc_target_dials
  by (auto simp: tcpc_tunnelDialer_def split: dialer.splits tcp_dial_event.splits option.splits)

lemma udpc_handleTunnelConn_books:
  assumes i: "i < length (cl_dialers s)" and r: "udpc_handleTunnelConn i d s = (es, t)"
  shows "dials es = 0 \<and> books 0 [] s t"
  using r books_dialer [OF i]
  by (auto simp: udpc_handleTunnelConn_def udpc_localDialer_def Let_def
      split: dialer.splits udp_dial_event.splits option.splits bool.splits if_splits)

lemma muxc_handleSession_books:
  assumes i: "i < length (cl_dialers s)" and r: "muxc_handleSession i d s = (es, t)"
  shows "dials es = 0 \<and> books 0 [] s t"
  using r books_dialer [OF i] muxc_stream_dials
  by (auto simp: muxc_handleSession_def split: dialer.splits mux_dial_event.splits bool.splits)

lemma channelHandlers_control: "tcpc_channelHandler = client_control True" "udpc_channelHandler = client_control True"
  "muxc_channelHandler = client_control False"
  by (intro ext; simp add: tcpc_channelHandler_def udpc_channelHandler_def muxc_channelHandler_def)+

interpretation tcp_pool: pooled_client tcpc_channelHandler tcpc_tunnelDialer is_signal
  unfolding channelHandlers_control by (rule client_control_pooled [OF tcpc_tunnelDialer_books])

interpretation udp_pool: pooled_client udpc_channelHandler udpc_handleTunnelConn is_signal
  unfolding channelHandlers_control by (rule client_control_pooled [OF udpc_handleTunnelConn_books])

interpretation mux_client_pool: pooled_client muxc_channelHandler muxc_handleSession is_signal
  unfolding channelHandlers_control by (rule client_control_pooled [OF muxc_handleSession_books])

end
