(* ===== verification/Ws_Client.thy ===== *)
theory Ws_Client
  imports Tcp_Client Websocket
begin

text \<open>
  The websocket client runtimes, \<^verbatim>\<open>ws.go\<close> and \<^verbatim>\<open>wsmux.go\<close> of \<^verbatim>\<open>internal/client/transport\<close>.  The
  control channel is a websocket connection: there is no exchange of tokens, the request that
  opens it carries the token.  The sessions of \<^verbatim>\<open>wsmux.go\<close> are those of the TCP runtime.
\<close>

section \<open>Configurations and states\<close>

record WsClientConfig = DialConfig +
  wk_Nodelay :: bool
  wk_KeepAlive :: Duration
  wk_Mode :: TransportType
  wk_EdgeIP :: string

type_synonym WsClient = "(unit WsClientConfig_ext, ws_conn, ws_conn) client"

record WsMuxClientConfig = DialConfig +
  xk_Nodelay :: bool
  xk_KeepAlive :: Duration
  xk_MuxVersion :: int
  xk_MaxFrameSize :: int
  xk_MaxReceiveBuffer :: int
  xk_MaxStreamBuffer :: int
  xk_Mode :: TransportType
  xk_EdgeIP :: string
  xk_TCPCopyBuffer :: int

type_synonym WsMuxClient = "(unit WsMuxClientConfig_ext, ws_conn, unit) mux_client"

definition NewWSClient :: "WsClientConfig \<Rightarrow> WsClient" where
  "NewWSClient config = new_client config"

definition NewWSMuxClient :: "WsMuxClientConfig \<Rightarrow> WsMuxClient" where
  "NewWSMuxClient config =
     client.extend (new_client config)
       \<lparr>cl_smuxConfig = \<lparr>sx_Version = xk_MuxVersion config, sx_KeepAliveInterval = 20 * Second,
          sx_KeepAliveTimeout = 40 * Second, sx_MaxFrameSize = xk_MaxFrameSize config,
          sx_MaxReceiveBuffer = xk_MaxReceiveBuffer config, sx_MaxStreamBuffer = xk_MaxStreamBuffer config\<rparr>\<rparr>"

definition wsc_Start :: "WsClient \<Rightarrow> client_effect list \<times> WsClient" where
  "wsc_Start s = client_Start (''Disconnected ('' @ wk_Mode (cl_config s) @ '')'') s"

definition wsmuxc_Start :: "WsMuxClient \<Rightarrow> client_effect list \<times> WsMuxClient" where
  "wsmuxc_Start s = client_Start (''Disconnected ('' @ xk_Mode (cl_config s) @ '')'') s"

definition wsc_Restart :: "WsClient \<Rightarrow> client_effect list \<times> WsClient" where
  "wsc_Restart s = client_Restart s"

definition wsmuxc_Restart :: "WsMuxClient \<Rightarrow> client_effect list \<times> WsMuxClient" where
  "wsmuxc_Restart s = client_Restart s"

section \<open>The control channel\<close>

text \<open>The loop of \<^verbatim>\<open>channelDialer\<close>, with what \<^verbatim>\<open>WebSocketDialer\<close> returns in each turn.\<close>

fun ws_channel_dialer :: "string \<Rightarrow> ws_conn option list \<Rightarrow> ('c, ws_conn, 'k, 'x) client_scheme
    \<Rightarrow> client_effect list \<times> ('c, ws_conn, 'k, 'x) client_scheme" where
  "ws_channel_dialer mode [] s = ([], s)"
| "ws_channel_dialer mode (None # ds) s =
     (case ws_channel_dialer mode ds s of (es, s) \<Rightarrow> (RetryAfter (dc_RetryInterval (cl_config s)) # es, s))"
| "ws_channel_dialer mode (Some c # ds) s =
     ([GoPoolMaintainer, GoChannelHandler],
      set_status (''Connected ('' @ mode @ '')'') (s\<lparr>cl_controlChannel := Some c\<rparr>))"

definition wsc_channelDialer :: "ws_conn option list \<Rightarrow> WsClient \<Rightarrow> client_effect list \<times> WsClient" where
  "wsc_channelDialer ds s = ws_channel_dialer (wk_Mode (cl_config s)) ds s"

definition wsmuxc_channelDialer :: "ws_conn option list \<Rightarrow> WsMuxClient \<Rightarrow> client_effect list \<times> WsMuxClient" where
  "wsmuxc_channelDialer ds s = ws_channel_dialer (xk_Mode (cl_config s)) ds s"

text \<open>The request that opens the control channel, or a tunnel connection.\<close>

definition wsc_request :: "int \<Rightarrow> string \<Rightarrow> string \<Rightarrow> WsClient \<Rightarrow> ws_dial option" where
  "wsc_request uid agent path s = attemptDialWebSocket uid agent (dc_RemoteAddr (cl_config s)) (wk_EdgeIP (cl_config s))
     path (dc_Token (cl_config s)) (wk_Mode (cl_config s))"

definition wsmuxc_request :: "int \<Rightarrow> string \<Rightarrow> string \<Rightarrow> WsMuxClient \<Rightarrow> ws_dial option" where
  "wsmuxc_request uid agent path s = attemptDialWebSocket uid agent (dc_RemoteAddr (cl_config s)) (xk_EdgeIP (cl_config s))
     path (dc_Token (cl_config s)) (xk_Mode (cl_config s))"

definition ws_control_write :: "char \<Rightarrow> ('c, ws_conn, 'k, 'x) client_scheme \<Rightarrow> bool \<times> ('c, ws_conn, 'k, 'x) client_scheme" where
  "ws_control_write sig s =
     (case cl_controlChannel s of
        None \<Rightarrow> (False, s)
      | Some c \<Rightarrow> (case WriteMessage (BinaryMessage [sig]) c of (ok, c) \<Rightarrow> (ok, s\<lparr>cl_controlChannel := Some c\<rparr>)))"

text \<open>The reading goroutine is that of the server (\<open>ws_reader\<close>): it indexes the message at 0.\<close>

definition ws_client_control :: "client_msg \<Rightarrow> ('c, ws_conn, 'k, 'x) client_scheme
    \<Rightarrow> handler_next \<times> client_effect list \<times> ('c, ws_conn, 'k, 'x) client_scheme" where
  "ws_client_control ev s =
     (case ev of
        ClientDone \<Rightarrow> (Stopped, [], snd (ws_control_write SG_Closed s))
      | ClientReadError \<Rightarrow> (Restarting, [RestartClient], s)
      | ClientMsg msg \<Rightarrow>
          if msg = SG_Chan then (Running, on_signal s)
          else if msg = SG_HB then
            (case ws_control_write SG_HB s of
               (True, s) \<Rightarrow> (Running, [], s) | (False, s) \<Rightarrow> (Restarting, [RestartClient], s))
          else if msg = SG_Closed then (Restarting, [RestartClient], s)
          else (Restarting, [RestartClient], s))"

definition wsc_channelHandler :: "client_msg \<Rightarrow> WsClient \<Rightarrow> handler_next \<times> client_effect list \<times> WsClient" where
  "wsc_channelHandler ev s = ws_client_control ev s"

definition wsmuxc_channelHandler :: "client_msg \<Rightarrow> WsMuxClient \<Rightarrow> handler_next \<times> client_effect list \<times> WsMuxClient" where
  "wsmuxc_channelHandler ev s = ws_client_control ev s"

definition wsc_poolMaintainer :: "pool_event \<Rightarrow> WsClient \<Rightarrow> client_effect list \<times> WsClient" where
  "wsc_poolMaintainer ev s = poolMaintainer ev s"

definition wsmuxc_poolMaintainer :: "pool_event \<Rightarrow> WsMuxClient \<Rightarrow> client_effect list \<times> WsMuxClient" where
  "wsmuxc_poolMaintainer ev s = poolMaintainer ev s"

section \<open>Dialers\<close>

text \<open>\<^verbatim>\<open>tunnelDialer\<close>: its dial returned, a message arrived (and whether the target could be
  dialled), reading failed, or the context ended: then it returns as it is.\<close>

datatype ws_dial_event = WsDialed "ws_conn option" | WsTunnelMsg string bool | WsReadError | WsCtxDone

definition wsc_localDialer :: "bool \<Rightarrow> string \<Rightarrow> int \<Rightarrow> client_effect list" where
  "wsc_localDialer local_ok remoteAddr port = (if \<not> local_ok then [CloseTunnelConn] else [RelayTo port remoteAddr])"

definition wsc_target :: "bool \<Rightarrow> string \<Rightarrow> client_effect list" where
  "wsc_target local_ok remoteAddr =
     (case ResolveRemoteAddr remoteAddr of
        None \<Rightarrow> [CloseTunnelConn]
      | Some (port, resolvedAddr) \<Rightarrow> wsc_localDialer local_ok resolvedAddr port)"

definition wsc_tunnelDialer :: "nat \<Rightarrow> ws_dial_event \<Rightarrow> WsClient \<Rightarrow> client_effect list \<times> WsClient" where
  "wsc_tunnelDialer i ev s =
     (case (cl_dialers s ! i, ev) of
        (Dialing, WsDialed None) \<Rightarrow> ([], dial_failed i s)
      | (Dialing, WsDialed (Some c)) \<Rightarrow> ([], pool_join i c s)
      | (Pooled _, WsReadError) \<Rightarrow> ([CloseTunnelConn], pool_leave i s)
      | (Pooled _, WsTunnelMsg msg local_ok) \<Rightarrow>
          if msg = [SG_Ping] then ([], s) else (wsc_target local_ok msg, pool_leave i s)
      | _ \<Rightarrow> ([], s))"

definition wsmuxc_handleSession :: "nat \<Rightarrow> mux_dial_event \<Rightarrow> WsMuxClient \<Rightarrow> client_effect list \<times> WsMuxClient" where
  "wsmuxc_handleSession i ev s = muxc_handleSession i ev s"

section \<open>The two runtimes keep the books of the pool\<close>

lemma ws_control_write_books: "ws_control_write g s = (ok, t) \<Longrightarrow> books 0 [] s t"
  by (auto simp: ws_control_write_def books_def permits_def miscount_def in_pool_def pool_size_def
      split: option.splits prod.splits)

lemma ws_client_control_books:
  assumes "\<not> is_signal m" and "ws_client_control m s = (n, es, t)"
  shows "dials es = 0 \<and> books 0 [] s t"
proof (cases m)
  case ClientDone
  with assms ws_control_write_books [OF surjective_pairing [of "ws_control_write SG_Closed s"]] show ?thesis
    by (auto simp: ws_client_control_def)
next
  case (ClientMsg c)
  obtain ok s' where w: "ws_control_write SG_HB s = (ok, s')" by (metis prod.exhaust)
  from ws_control_write_books [OF w] w assms ClientMsg show ?thesis
    by (cases ok) (auto simp: ws_client_control_def is_signal_def split: if_splits)
qed (use assms in \<open>auto simp: ws_client_control_def\<close>)

lemma ws_client_control_signal: "is_signal m \<Longrightarrow> ws_client_control m s = (Running, on_signal s)"
  by (simp add: is_signal_def ws_client_control_def)

lemma ws_client_control_pooled:
  assumes "\<And>i d s es t. i < length (cl_dialers s) \<Longrightarrow> dialer i d s = (es, t) \<Longrightarrow> dials es = 0 \<and> books 0 [] s t"
  shows "pooled_client ws_client_control dialer is_signal"
proof
  show "is_signal m \<Longrightarrow> ws_client_control m s = (Running, on_signal s)" for m s
    by (rule ws_client_control_signal)
  show "\<not> is_signal m \<Longrightarrow> ws_client_control m s = (n, es, t) \<Longrightarrow> dials es = 0 \<and> books 0 [] s t" for m s n es t
    by (rule ws_client_control_books)
qed (rule assms)

lemma wsc_tunnelDialer_books:
  assumes i: "i < length (cl_dialers s)" and r: "wsc_tunnelDialer i d s = (es, t)"
  shows "dials es = 0 \<and> books 0 [] s t"
proof -
  have "dials (wsc_target ok m) = 0" for ok m
    by (auto simp: wsc_target_def wsc_localDialer_def split: option.splits)
  with r books_dialer [OF i] show ?thesis
    by (auto simp: wsc_tunnelDialer_def split: dialer.splits ws_dial_event.splits option.splits if_splits)
qed

lemma ws_handlers_control: "wsc_channelHandler = ws_client_control" "wsmuxc_channelHandler = ws_client_control"
  "wsmuxc_handleSession = muxc_handleSession"
  by (intro ext; simp add: wsc_channelHandler_def wsmuxc_channelHandler_def wsmuxc_handleSession_def)+

interpretation ws_client_pool: pooled_client wsc_channelHandler wsc_tunnelDialer is_signal
  unfolding ws_handlers_control by (rule ws_client_control_pooled [OF wsc_tunnelDialer_books])

interpretation wsmux_client_pool: pooled_client wsmuxc_channelHandler wsmuxc_handleSession is_signal
  unfolding ws_handlers_control by (rule ws_client_control_pooled [OF muxc_handleSession_books])

section \<open>What a server sees of the requests\<close>

lemma header_value_id:
  assumes "v \<noteq> []" and "\<not> ascii_space (hd v)" and "\<not> ascii_space (last v)"
    and "byte 10 \<notin> set v" and "byte 13 \<notin> set v"
  shows "header_value v = v"
proof -
  have "map (\<lambda>c. if c = byte 10 \<or> c = byte 13 then CHR '' '' else c) v = v"
    by (rule map_idI) (use assms(4,5) in auto)
  moreover have "dropWhile ascii_space v = v" using assms(1,2) by (cases v) simp_all
  moreover have "dropWhile ascii_space (rev v) = rev v"
    using assms(1,3) by (cases v rule: rev_cases) simp_all
  ultimately show ?thesis by (simp add: header_value_def)
qed

lemma header_value_last: "header_value v \<noteq> [] \<Longrightarrow> \<not> ascii_space (last (header_value v))"
  unfolding header_value_def Let_def
  by (metis last_rev hd_dropWhile rev_is_Nil_conv)

lemma url_path_scheme:
  assumes "CHR ''/'' \<notin> set addr" and "scheme = ''ws'' \<or> scheme = ''wss''"
  shows "url_path (scheme @ ''://'' @ addr @ CHR ''/'' # rest) = CHR ''/'' # rest"
proof -
  have "dropWhile (\<lambda>c. c \<noteq> CHR ''/'') (addr @ CHR ''/'' # rest) = CHR ''/'' # rest"
    using assms(1) by (induction addr) auto
  with assms(2) show ?thesis by (auto simp: url_path_def numeral_3_eq_3)
qed

end
