(* ===== verification/Client_Spec.thy ===== *)
theory Client_Spec
  imports Ws_Client Tcp_Spec
begin

text \<open>
  What the clients promise, and that they and their servers understand each other: the handshake,
  the signals, the targets of tunnel connections, the requests of the websocket runtimes, and the
  size of the pool of tunnel connections.
\<close>

section \<open>The handshake\<close>

text \<open>The answer the client gets decides: it goes on exactly if it is its own token.\<close>

lemma dialer_handshake_answer:
  assumes "receives w (frame (m, t) @ q)" and "w_fail w = None" and "length m < 65536"
  shows "\<exists>w'. dialer_handshake True token w = (if m = token then Inr w' else Inl True)
    \<and> w_out w' = w_out w @ frame (token, SG_Chan) \<and> receives w' q \<and> w_fail w' = None"
proof -
  have u: "usable w" using assms(1,2) by (simp add: usable_def receives_def)
  let ?w = "w\<lparr>w_out := w_out w @ frame (token, SG_Chan)\<rparr>"
  have s: "SendBinaryTransportString w token SG_Chan = (None, ?w)"
    by (simp add: SendBinaryTransportString_def send_usable [OF u] frame_def)
  have "receives ?w (frame (m, t) @ q)" using assms(1) by (simp add: receives_def)
  from ReceiveTransport_frame [OF this] assms(3) obtain w' where
    r: "ReceiveBinaryTransportString ?w = ((m, t, None), w')" "receives w' q" by auto
  with ReceiveTransport_out [of ?w] assms(2) s show ?thesis
    by (intro exI [of _ w']) (simp add: dialer_handshake_def)
qed

lemma dialer_handshake_accepts:
  assumes "receives w (frame (token, t) @ q)" and "w_fail w = None" and "length token < 65536"
  shows "\<exists>w'. dialer_handshake True token w = Inr w' \<and> w_out w' = w_out w @ frame (token, SG_Chan)
    \<and> receives w' q \<and> w_fail w' = None"
  using dialer_handshake_answer [OF assms, of token] by simp

lemma dialer_handshake_refuses:
  assumes "receives w []" and "w_fail w = None"
  shows "dialer_handshake True token w = Inl True"
proof -
  have u: "usable w" using assms by (simp add: usable_def receives_def)
  let ?w = "w\<lparr>w_out := w_out w @ frame (token, SG_Chan)\<rparr>"
  have s: "SendBinaryTransportString w token SG_Chan = (None, ?w)"
    by (simp add: SendBinaryTransportString_def send_usable [OF u] frame_def)
  obtain m t e w' where r: "ReceiveBinaryTransportString ?w = ((m, t, e), w')" by (metis prod.exhaust)
  have "e \<noteq> None"
  proof
    assume "e = None"
    with r have "ReceiveBinaryTransportString ?w = ((m, t, None), w')" by simp
    from ReceiveTransport_exact [OF this] assms(1) show False by (simp add: receives_def)
  qed
  with r s show ?thesis by (simp add: dialer_handshake_def)
qed

lemma handshake_conn_refuses:
  assumes "receives (tn_wire conn) (frame (ct, SG_Chan))" and "length ct < 65536" and "st \<noteq> ct"
  shows "handshake_conn True st conn = None"
proof -
  from ReceiveTransport_frame [of "tn_wire conn" ct SG_Chan "[]"] assms(1,2) obtain w where
    r: "ReceiveBinaryTransportString (tn_wire conn) = ((ct, SG_Chan, None), w)" by auto
  with assms(3) show ?thesis by (simp add: handshake_conn_def)
qed

section \<open>Signals\<close>





section \<open>Targets\<close>

lemma tcpc_target_frame:
  assumes "receives w (frame (target, SG_TCP) @ q)" and "length target < 65536"
  shows "\<exists>w'. tcpc_target ok w =
      ((case ResolveRemoteAddr target of
          None \<Rightarrow> [CloseTunnelConn]
        | Some (port, addr) \<Rightarrow> if ok then [RelayTo port addr] else [CloseTunnelConn]), w')
    \<and> receives w' q"
proof -
  from ReceiveTransport_frame [OF assms(1)] assms(2) obtain w' where
    "ReceiveBinaryTransportString w = ((target, SG_TCP, None), w')" "receives w' q" by auto
  then show ?thesis by (auto simp: tcpc_target_def tcpc_localDialer_def split: option.splits)
qed

section \<open>The pool\<close>

lemma avg10_nonneg: "0 \<le> sint w \<Longrightarrow> 0 \<le> avg10 w"
  by (simp add: avg10_def signed_divide_int_def)

lemma avg10_nonpos: "sint w \<le> 0 \<Longrightarrow> avg10 w \<le> 0"
proof -
  assume w: "sint w \<le> 0"
  show ?thesis
  proof (cases "0 \<le> sint w + 9")
    case True
    with w show ?thesis by (simp add: avg10_def signed_divide_int_def)
  next
    case False
    then have "0 \<le> \<bar>sint w + 9\<bar> div 10" by simp
    with False show ?thesis by (simp add: avg10_def signed_divide_int_def sgn_if)
  qed
qed

lemma load_tick_grows:
  assumes "sint (cl_poolConnectionsSum s) \<le> 0" and "0 \<le> sint (cl_loadConnections s)" and "\<not> cl_blocked s"
  shows "dials (fst (load_tick s)) = 1"
proof -
  have "avg10 (cl_poolConnectionsSum s) \<le> 0" "0 \<le> avg10 (cl_loadConnections s)"
    using avg10_nonpos avg10_nonneg assms(1,2) by blast+
  then have "grows_pool s"
    by (auto simp: grows_pool_def pool_factors_def)
  moreover obtain es t where l: "load_tick s = (es, t)" by (metis prod.exhaust)
  ultimately show ?thesis using assms(3) by (cases rule: load_tick_cases [OF l]) (simp_all add: l)
qed

text \<open>The client reads the target the server wrote.\<close>

lemma tcp_arrives:
  assumes "pair_loop nows l ch = (cl, Paired c, ch')" and "length (lc_remoteAddr l) < 65536"
    and "\<And>q. q \<in> set (ch_buf ch) \<Longrightarrow> w_out (tn_wire q) = [] \<and> w_fail (tn_wire q) = None"
    and "receives w (w_out (tn_wire c) @ q)"
  shows "\<exists>w'. tcpc_target ok w =
      ((case ResolveRemoteAddr (lc_remoteAddr l) of
          None \<Rightarrow> [CloseTunnelConn]
        | Some (port, addr) \<Rightarrow> if ok then [RelayTo port addr] else [CloseTunnelConn]), w')
    \<and> receives w' q"
proof -
  from pair_loop_outcome [OF assms(1)] obtain bad c0 where
    c0: "ch_buf ch = bad @ c0 # ch_buf ch'" "SendBinaryTransportString (tn_wire c0) (lc_remoteAddr l) SG_TCP = (None, tn_wire c)"
    by auto
  have "c0 \<in> set (ch_buf ch)" using c0(1) by simp
  from assms(3) [OF this] SendTransport_None [OF c0(2)]
  have "w_out (tn_wire c) = frame (lc_remoteAddr l, SG_TCP)" by simp
  with assms(4) have "receives w (frame (lc_remoteAddr l, SG_TCP) @ q)" by simp
  from tcpc_target_frame [OF this assms(2)] show ?thesis .
qed

section \<open>Properties\<close>

definition demo_dial_config :: TcpClientConfig where
  "demo_dial_config = \<lparr>dc_RemoteAddr = ''s:1'', dc_Token = ''musix'', dc_SnifferLog = [], dc_TunnelStatus = [],
     dc_RetryInterval = 3 * Second, dc_DialTimeOut = 10 * Second, dc_ConnPoolSize = 2, dc_WebPort = 0,
     dc_Sniffer = False, dc_AggressivePool = False, tk_KeepAlive = 75 * Second, tk_Nodelay = True,
     tk_TCPCopyBuffer = 16384\<rparr>"

text \<open>C21: the two ends of the handshake agree.  Over a healthy connection that carries what the
  client sends, a server lets the client in exactly if they have the same token (below 64 KB);
  then the client, once the answer arrives, takes the connection as its control channel, and what
  follows the answer is still to be read; otherwise the client, seeing the connection closed,
  closes it too and tries again.  It does the same if it is answered with a token not its own.\<close>

theorem control_handshake_agrees:
  assumes "receives (tn_wire conn) (frame (ct, SG_Chan))" and "w_fail (tn_wire conn) = None"
    and "w_out (tn_wire conn) = []" and "length ct < 65536" and "w_fail w = None"
  shows "(handshake_conn True st conn \<noteq> None \<longleftrightarrow> st = ct)
    \<and> (\<forall>c q. handshake_conn True st conn = Some c \<longrightarrow> receives w (w_out (tn_wire c) @ q) \<longrightarrow>
         (\<exists>w'. dialer_handshake True ct w = Inr w' \<and> receives w' q))
    \<and> (handshake_conn True st conn = None \<longrightarrow> receives w [] \<longrightarrow> dialer_handshake True ct w = Inl True)
    \<and> (\<forall>m t q. receives w (frame (m, t) @ q) \<longrightarrow> length m < 65536 \<longrightarrow> m \<noteq> ct \<longrightarrow>
         dialer_handshake True ct w = Inl True)"
proof -
  have "\<exists>w'. dialer_handshake True ct w = Inr w' \<and> receives w' q"
    if c: "handshake_conn True st conn = Some c" "receives w (w_out (tn_wire c) @ q)" for c q
  proof -
    have "st = ct" using handshake_conn_refuses [OF assms(1,4), of st] c(1) by (cases "st = ct") simp_all
    with handshake_conn_Some [OF c(1)] assms(2,3) c(2) have "receives w (frame (ct, SG_Chan) @ q)" by simp
    from dialer_handshake_accepts [OF this assms(5,4)] show ?thesis by blast
  qed
  moreover have "handshake_conn True st conn \<noteq> None \<longleftrightarrow> st = ct"
  proof
    assume "handshake_conn True st conn \<noteq> None"
    then show "st = ct" using handshake_conn_refuses [OF assms(1,4), of st] by (cases "st = ct") simp_all
  next
    assume "st = ct"
    moreover have "\<exists>c. handshake_conn True ct conn = Some c"
      by (rule handshake_conn_accepts [OF _ assms(2,4), of "[]"]) (simp add: assms(1))
    ultimately show "handshake_conn True st conn \<noteq> None" by blast
  qed
  moreover have "dialer_handshake True ct w = Inl True"
    if "receives w (frame (m, t) @ q)" "length m < 65536" "m \<noteq> ct" for m t q
    using dialer_handshake_answer [OF that(1) assms(5) that(2), of ct] that(3) by simp
  ultimately show ?thesis using dialer_handshake_refuses assms(5) by blast
qed

theorem control_handshake_agrees_witness:
  "handshake_conn True ''musix'' demo_peer \<noteq> None \<and> handshake_conn True ''other'' demo_peer = None"
proof -
  have d: "receives (tn_wire demo_peer) (frame (''musix'', SG_Chan))" "w_out (tn_wire demo_peer) = []"
    by (simp_all add: demo_peer_def receives_def fresh_wire_def)
  note C = control_handshake_agrees [OF d(1) demo_peer_usable(2) d(2), where w = "fresh_wire []"]
  from C [where st = "''musix''"] C [where st = "''other''"] show ?thesis by (simp add: fresh_wire_def)
qed



text \<open>The target of a local connection arrives.  When a turn of the server's handle loop pairs a
  local connection with a tunnel connection, the client at its other end relays to the address
  the target denotes, if it denotes one and can be dialled, and closes the tunnel connection
  otherwise; the bytes after the target are left to the relay.\<close>

theorem tcp_target_arrives:
  assumes "pair_loop nows l ch = (cl, Paired c, ch')" and "length (lc_remoteAddr l) < 65536"
    and "\<And>q. q \<in> set (ch_buf ch) \<Longrightarrow> w_out (tn_wire q) = [] \<and> w_fail (tn_wire q) = None"
    and "receives w (w_out (tn_wire c) @ q)"
  shows "\<exists>w'. tcpc_target ok w =
      ((case ResolveRemoteAddr (lc_remoteAddr l) of
          None \<Rightarrow> [CloseTunnelConn]
        | Some (port, addr) \<Rightarrow> if ok then [RelayTo port addr] else [CloseTunnelConn]), w')
    \<and> receives w' q"
  using assms by (rule tcp_arrives)

theorem tcp_target_arrives_witness:
  "\<exists>w'. tcpc_target True (fresh_wire [(frame (''443'', SG_TCP) @ ''hi'', None)]) = ([RelayTo 443 ''127.0.0.1:443''], w')
     \<and> receives w' ''hi''"
proof -
  let ?l = "\<lparr>lc_conn = demo_socket, lc_remoteAddr = ''443'', lc_timeCreated = 0, lc_reportPort = 0\<rparr>"
  let ?c = "\<lparr>tn_id = 1, tn_ip = None, tn_wire = fresh_wire []\<rparr>"
  obtain c where c: "pair_loop [0] ?l \<lparr>ch_buf = [?c], ch_cap = 2\<rparr> = ([], Paired c, \<lparr>ch_buf = [], ch_cap = 2\<rparr>)"
    "w_out (tn_wire c) = frame (''443'', SG_TCP)"
    by (simp add: try_recv_def SendBinaryTransportString_def send_usable usable_def fresh_wire_def frame_def)
  have a: "ResolveRemoteAddr ''443'' = Some (443, ''127.0.0.1:443'')" by code_simp
  have "receives (fresh_wire [(frame (''443'', SG_TCP) @ ''hi'', None)]) (frame (''443'', SG_TCP) @ ''hi'')"
    by (simp add: receives_def fresh_wire_def)
  with tcp_target_arrives [OF c(1), of "fresh_wire [(frame (''443'', SG_TCP) @ ''hi'', None)]" "''hi''" True] c(2) a
  show ?thesis by (simp add: fresh_wire_def)
qed



text \<open>A restart breaks the count.  \<^verbatim>\<open>Restart\<close> sets the counter to zero while dialers of before still
  hold idle connections, and each of them subtracts one when it ends: in every later run the
  counter is short by the number of those connections, for good; and while the sum of the counts
  it took is not positive, \<^verbatim>\<open>poolMaintainer\<close> dials one more connection every ten seconds.\<close>

theorem client_Restart_miscounts:
  assumes "tcpc_Restart s = (es, t)" and "client_run tcpc_channelHandler tcpc_tunnelDialer evs t = (fs, u)"
  shows "cl_poolConnections u = of_nat (in_pool u) - of_nat (in_pool s)
    \<and> (sint (cl_poolConnectionsSum u) \<le> 0 \<and> 0 \<le> sint (cl_loadConnections u) \<and> \<not> cl_blocked u \<longrightarrow>
         dials (fst (tcpc_poolMaintainer PoolTenSeconds u)) = 1)"
proof -
  have "miscount t = - of_nat (in_pool s)"
    using assms(1) by (auto simp: tcpc_Restart_def client_Restart_def set_status_def miscount_def in_pool_def)
  moreover have "miscount u = miscount t" using tcp_pool.run_books [OF assms(2)] by (simp add: books_def)
  ultimately have "cl_poolConnections u - of_nat (in_pool u) = - of_nat (in_pool s)" by (simp only: miscount_def)
  then have "cl_poolConnections u = of_nat (in_pool u) - of_nat (in_pool s)" by (simp add: diff_eq_eq)
  with load_tick_grows [of u] show ?thesis by (simp add: tcpc_poolMaintainer_def poolMaintainer_def)
qed

theorem client_Restart_miscounts_witness:
  "cl_poolConnections (snd (client_run tcpc_channelHandler tcpc_tunnelDialer [Dialer 0 (TcpTarget True)]
      (snd (tcpc_Restart ((NewTCPClient demo_dial_config)\<lparr>cl_poolConnections := 1, cl_dialers := [Pooled (fresh_wire [])]\<rparr>))))) = - 1"
proof -
  let ?s = "(NewTCPClient demo_dial_config)\<lparr>cl_poolConnections := 1, cl_dialers := [Pooled (fresh_wire [])]\<rparr>"
  obtain es t where t: "tcpc_Restart ?s = (es, t)" by (metis prod.exhaust)
  obtain fs u where u: "client_run tcpc_channelHandler tcpc_tunnelDialer [Dialer 0 (TcpTarget True)] t = (fs, u)"
    by (metis prod.exhaust)
  have "cl_dialers t = [Pooled (fresh_wire [])]"
    using t by (auto simp: tcpc_Restart_def client_Restart_def set_status_def)
  with u have "in_pool u = 0"
    by (auto simp: client_turn_def tcpc_tunnelDialer_def pool_leave_def in_pool_def)
  moreover have "in_pool ?s = 1" by (simp add: in_pool_def)
  ultimately show ?thesis using client_Restart_miscounts [OF t u] t u by simp
qed

text \<open>Which targets a client can serve.  A port, or a host and a port, is served as it is written.
  An IPv6 address in brackets is not: what stands between its first two colons is read as the
  port, so unless that is a decimal number the connection is closed, although the validation
  accepts any target of a route.\<close>

theorem ResolveRemoteAddr_spec:
  assumes "CHR '':'' \<notin> set p" and "CHR '':'' \<notin> set h" and "CHR '':'' \<notin> set g"
  shows "ResolveRemoteAddr p = map_option (\<lambda>n. (n, ''127.0.0.1:'' @ Itoa n)) (Atoi p)
    \<and> ResolveRemoteAddr (h @ '':'' @ p) = map_option (\<lambda>n. (n, h @ '':'' @ p)) (Atoi p)
    \<and> ResolveRemoteAddr (''['' @ h @ '':'' @ g @ '':'' @ rest @ '']:'' @ p)
        = map_option (\<lambda>n. (n, ''['' @ h @ '':'' @ g @ '':'' @ rest @ '']:'' @ p)) (Atoi g)"
  using ResolveRemoteAddr_port [OF assms(1)] ResolveRemoteAddr_host_port [OF assms(2,1)]
    ResolveRemoteAddr_colons [of "''['' @ h" g "rest @ '']:'' @ p"] assms(2,3) by simp

theorem ResolveRemoteAddr_spec_witness:
  "ResolveRemoteAddr (''['' @ '''' @ '':'' @ '''' @ '':'' @ ''1'' @ '']:'' @ ''443'') = None
    \<and> ResolveRemoteAddr (''h'' @ '':'' @ ''443'') = Some (443, ''h:443'')"
proof -
  have a: "Atoi ''443'' = Some 443" "Atoi '''' = None" by code_simp+
  show ?thesis
    using ResolveRemoteAddr_spec [of "''443''" "''''" "''''" "''1''"] ResolveRemoteAddr_spec [of "''443''" "''h''" "''''" "''1''"] a
    by simp
qed

text \<open>Long targets of the UDP runtime are cut.  The client reads the target into a buffer of 47
  bytes: a longer one loses its end, and with a host of 44 bytes and a port of four digits the
  client relays to another port, the one its first two digits denote.\<close>

theorem udp_target_cut:
  assumes "i < length (cl_dialers s)" and "cl_dialers s ! i = Pooled c"
    and "length h = 44" and "CHR '':'' \<notin> set h"
    and "Atoi [d1, d2] = Some n" and "CHR '':'' \<notin> {d1, d2}"
  shows "fst (udpc_handleTunnelConn i (UdpDatagram (h @ '':'' @ [d1, d2, d3, d4]) True) s)
    = [RelayUDPTo n (h @ '':'' @ [d1, d2])]"
proof -
  have "take 47 (h @ '':'' @ [d1, d2, d3, d4]) = h @ CHR '':'' # [d1, d2]" using assms(3) by simp
  moreover have "ResolveRemoteAddr (h @ CHR '':'' # [d1, d2]) = Some (n, h @ CHR '':'' # [d1, d2])"
    using ResolveRemoteAddr_host_port [OF assms(4), of "[d1, d2]"] assms(5,6) by simp
  ultimately show ?thesis
    using assms(2,3) by (simp add: udpc_handleTunnelConn_def udpc_localDialer_def Let_def)
qed

theorem udp_target_cut_witness:
  "fst (udpc_handleTunnelConn 0 (UdpDatagram (replicate 44 (CHR ''h'') @ '':8080'') True)
       ((NewUDPClient (DialConfig.truncate demo_dial_config))\<lparr>cl_dialers := [Pooled ()]\<rparr>))
    = [RelayUDPTo 80 (replicate 44 (CHR ''h'') @ '':80'')]"
proof -
  have "Atoi ''80'' = Some 80" by code_simp
  then show ?thesis
    using udp_target_cut [of 0 "(NewUDPClient (DialConfig.truncate demo_dial_config))\<lparr>cl_dialers := [Pooled ()]\<rparr>" "()"
        "replicate 44 (CHR ''h'')" "CHR ''8''" "CHR ''0''" 80 "CHR ''8''" "CHR ''0''"]
    by simp
qed






text \<open>Dialling with retries ends.  \<^verbatim>\<open>TcpDialer\<close> returns the connection of the first attempt that
  succeeds, if one of the first \<open>n\<close> does, after sleeping 1, 2, 4, \<open>\<dots>\<close> seconds between attempts;
  otherwise it makes exactly \<open>n\<close> attempts and returns the error of the last.\<close>

theorem TcpDialer_retries:
  "(k < n \<longrightarrow> attempt k = Inr c \<longrightarrow> (\<forall>j < k. \<exists>e. attempt j = Inl e) \<longrightarrow>
      TcpDialer n attempt = (map (\<lambda>j. 2 ^ j) [0..<k], Inr c))
    \<and> (0 < n \<longrightarrow> attempt (n - 1) = Inl err \<longrightarrow> (\<forall>j < n. \<exists>e. attempt j = Inl e) \<longrightarrow>
      TcpDialer n attempt = (map (\<lambda>j. 2 ^ j) [0..<n - 1], Inl (Some err)))"
  using retry_loop_first [of attempt 0 k c n 1 None] retry_loop_fails [of "n - 1" attempt 0 n err 1 None]
  by (auto simp: TcpDialer_def)

theorem TcpDialer_retries_witness:
  "TcpDialer 3 (\<lambda>i. if i = 2 then Inr ''conn'' else Inl i) = ([1, 2], Inr ''conn'')"
  using TcpDialer_retries [of 2 3 "\<lambda>i. if i = 2 then Inr ''conn'' else Inl i" "''conn''" 0]
  by (simp add: numeral_2_eq_2)

end
