(* ===== verification/Quic_Client.thy ===== *)
theory Quic_Client
  imports Client_Common Tcp_Server "HOL-Library.Signed_Division"
begin

text \<open>
  The QUIC client runtime, \<^verbatim>\<open>internal/client/transport/quic.go\<close>.  The QUIC library is a parameter:
  what a dial, an accept or an open of a stream returns is an argument.  The control channel is
  kept as what \<^verbatim>\<open>SendBinaryByte\<close> makes of it, an end of a type it does not support.  Every
  goroutine \<^verbatim>\<open>tunnelDialer\<close> is an entry of \<open>qk_dialers\<close>.
\<close>

section \<open>State\<close>

record QuicClientConfig =
  qk_RemoteAddr :: string
  qk_Token :: string
  qk_SnifferLog :: string
  qk_TunnelStatus :: string
  qk_Nodelay :: bool
  qk_Sniffer :: bool
  qk_KeepAlive :: Duration
  qk_RetryInterval :: Duration
  qk_DialTimeOut :: Duration
  qk_MuxVersion :: int
  qk_MaxFrameSize :: int
  qk_MaxReceiveBuffer :: int
  qk_MaxStreamBuffer :: int
  qk_ConnectionPool :: int
  qk_WebPort :: int
  qk_AggressivePool :: bool

text \<open>A dialer has not run yet, is dialling, serves its session, or is done.\<close>

datatype quic_dialer = QStarted | QDialing | QServingSession | QDone

record QuicClient =
  qk_config :: QuicClientConfig
  qk_controlChannel :: "wire option"
  qk_activeConnections :: int
  qk_dialers :: "quic_dialer list"

datatype quic_client_effect =
  QGoDial | QGoRestart | QGoChannelDialer bool | QGoChannelListener | QGoPoolChecker | QGoMonitor
| QCloseConn | QCloseStream | QRetryAfter Duration | QRelayTo int string

definition NewQuicClient :: "QuicClientConfig \<Rightarrow> QuicClient" where
  "NewQuicClient config =
     \<lparr>qk_config = config, qk_controlChannel = None, qk_activeConnections = 0, qk_dialers = []\<rparr>"

definition qk_set_status :: "string \<Rightarrow> QuicClient \<Rightarrow> QuicClient" where
  "qk_set_status st s = s\<lparr>qk_config := (qk_config s)\<lparr>qk_TunnelStatus := st\<rparr>\<rparr>"

text \<open>The farewell and the close.\<close>

definition closeControlChannel :: "QuicClient \<Rightarrow> quic_client_effect list \<times> QuicClient" where
  "closeControlChannel s =
     (case qk_controlChannel s of
        None \<Rightarrow> ([], s)
      | Some c \<Rightarrow> ([QCloseConn], s\<lparr>qk_controlChannel := Some (snd (SendBinaryByte c SG_Closed))\<rparr>))"

definition quicc_Restart :: "QuicClient \<Rightarrow> quic_client_effect list \<times> QuicClient" where
  "quicc_Restart s =
     (case closeControlChannel s of (es, s) \<Rightarrow>
       (es @ [QGoChannelDialer True],
        (qk_set_status '''' s)\<lparr>qk_controlChannel := None, qk_activeConnections := 0\<rparr>))"

section \<open>The control channel\<close>

text \<open>One turn of \<^verbatim>\<open>ChannelDialer\<close> after its dial: the stream (or the error of opening it), and the
  result of \<^verbatim>\<open>SetReadDeadline\<close>.  \<open>Inl\<close> closes the connection and tells whether the loop waits.\<close>

definition quicc_handshake :: "wire option \<Rightarrow> bool \<Rightarrow> string \<Rightarrow> bool + unit" where
  "quicc_handshake stream deadline_ok token =
     (case stream of
        None \<Rightarrow> Inl False
      | Some w \<Rightarrow>
          (case SendBinaryString w token of
             (Some _, _) \<Rightarrow> Inl False
           | (None, w) \<Rightarrow>
               if \<not> deadline_ok then Inl False else
               (case ReceiveBinaryString w of
                  (Inl _, _) \<Rightarrow> Inl True
                | (Inr message, _) \<Rightarrow> if message = token then Inr () else Inl False)))"

text \<open>The turns of the loop: the connection of the dial (as the control channel), its stream, the
  deadline.\<close>

fun quicc_dial_loop :: "bool \<Rightarrow> (wire option \<times> wire option \<times> bool) list \<Rightarrow> QuicClient
    \<Rightarrow> quic_client_effect list \<times> QuicClient" where
  "quicc_dial_loop coldStart [] s = ([], s)"
| "quicc_dial_loop coldStart ((None, _, _) # ds) s =
     (case quicc_dial_loop coldStart ds s of (es, t) \<Rightarrow> (QRetryAfter (qk_RetryInterval (qk_config s)) # es, t))"
| "quicc_dial_loop coldStart ((Some conn, stream, deadline_ok) # ds) s =
     (case quicc_handshake stream deadline_ok (qk_Token (qk_config s)) of
        Inr _ \<Rightarrow>
          (QCloseStream # [QGoChannelListener] @ (if coldStart then [QGoPoolChecker] else []),
           qk_set_status ''Connected (Quic)'' (s\<lparr>qk_controlChannel := Some conn\<rparr>))
      | Inl wait \<Rightarrow>
          (case quicc_dial_loop coldStart ds s of (es, t) \<Rightarrow>
             ((if stream \<noteq> None then [QCloseStream] else []) @ QCloseConn
                # (if wait then [QRetryAfter (qk_RetryInterval (qk_config s))] else []) @ es, t)))"

definition quicc_ChannelDialer :: "bool \<Rightarrow> (wire option \<times> wire option \<times> bool) list \<Rightarrow> QuicClient
    \<Rightarrow> quic_client_effect list \<times> QuicClient" where
  "quicc_ChannelDialer coldStart ds s =
     (case quicc_dial_loop coldStart ds (qk_set_status ''Disconnected (Quic)'' s) of (es, t) \<Rightarrow>
        ((if coldStart \<and> qk_WebPort (qk_config s) > 0 then [QGoMonitor] else []) @ es, t))"

text \<open>\<^verbatim>\<open>channelListener\<close>: the open of its stream, then what its select got; a tick of the ping comes
  with the stream that was opened for it.\<close>

datatype listener_event =
  ListenerStart bool | ListenerDone | ListenerPing "wire option" | ListenerTimeout | ListenerMsg char | ListenerError

definition quicc_channelListener :: "listener_event \<Rightarrow> QuicClient \<Rightarrow> handler_next \<times> quic_client_effect list \<times> QuicClient" where
  "quicc_channelListener ev s =
     (case ev of
        ListenerStart ok \<Rightarrow> if ok then (Running, [], s) else (Stopped, [QGoChannelDialer False], s)
      | ListenerDone \<Rightarrow> (Stopped, [], s)
      | ListenerPing None \<Rightarrow> (Stopped, [QGoChannelDialer False], s)
      | ListenerPing (Some streamtest) \<Rightarrow>
          (case SendBinaryByte streamtest SG_HB of
             (Some _, _) \<Rightarrow> (Stopped, [QGoChannelDialer False], s) | (None, _) \<Rightarrow> (Running, [], s))
      | ListenerTimeout \<Rightarrow> (Stopped, [QGoChannelDialer False], s)
      | ListenerMsg msg \<Rightarrow>
          if msg = SG_Chan then (Running, [QGoDial], s\<lparr>qk_dialers := qk_dialers s @ [QStarted]\<rparr>)
          else if msg = SG_HB then (Running, [], s)
          else (Stopped, [QGoChannelDialer False], s)
      | ListenerError \<Rightarrow> (Stopped, [QGoChannelDialer False], s))"

section \<open>Tunnel connections\<close>

definition quicc_localDialer :: "bool \<Rightarrow> string \<Rightarrow> quic_client_effect list" where
  "quicc_localDialer local_ok remoteAddr =
     (let parts = Split CHR '':'' remoteAddr in
      case (if length parts < 2 then map_option (\<lambda>port. (port, ''127.0.0.1:'' @ Itoa port)) (Atoi (parts ! 0))
            else map_option (\<lambda>port. (port, remoteAddr)) (Atoi (parts ! 1))) of
        None \<Rightarrow> [QCloseStream]
      | Some (port, addr) \<Rightarrow> if \<not> local_ok then [QCloseStream] else [QRelayTo port addr])"

text \<open>\<^verbatim>\<open>tunnelDialer\<close> and \<^verbatim>\<open>handleTunnelConn\<close>: the goroutine begins, its dial returns, a stream arrives
  (and whether the target can be dialled), or the session or the context ends.\<close>

datatype quic_dial_event = QBegin | QDialed bool | QStream wire bool | QSessionEnd

definition count_active :: "int \<Rightarrow> QuicClient \<Rightarrow> QuicClient" where
  "count_active d s = s\<lparr>qk_activeConnections := qk_activeConnections s + d\<rparr>"

definition set_dialer :: "nat \<Rightarrow> quic_dialer \<Rightarrow> QuicClient \<Rightarrow> QuicClient" where
  "set_dialer i d s = s\<lparr>qk_dialers := (qk_dialers s)[i := d]\<rparr>"

definition quicc_tunnelDialer :: "nat \<Rightarrow> quic_dial_event \<Rightarrow> QuicClient \<Rightarrow> quic_client_effect list \<times> QuicClient" where
  "quicc_tunnelDialer i ev s =
     (case (qk_dialers s ! i, ev) of
        (QStarted, QBegin) \<Rightarrow>
          if qk_controlChannel s = None then ([QGoRestart], set_dialer i QDone (count_active 1 s))
          else ([], set_dialer i QDialing (count_active 1 s))
      | (QDialing, QDialed False) \<Rightarrow> ([], set_dialer i QDone (count_active (- 1) s))
      | (QDialing, QDialed True) \<Rightarrow> ([], set_dialer i QServingSession s)
      | (QServingSession, QStream stream local_ok) \<Rightarrow>
          (case ReceiveBinaryString stream of
             (Inl _, _) \<Rightarrow> ([QCloseConn], set_dialer i QDone (count_active (- 1) s))
           | (Inr remoteAddr, _) \<Rightarrow> (quicc_localDialer local_ok remoteAddr, s))
      | (QServingSession, QSessionEnd) \<Rightarrow> ([], set_dialer i QDone (count_active (- 1) s))
      | _ \<Rightarrow> ([], s))"

definition quicc_poolChecker :: "QuicClient \<Rightarrow> quic_client_effect list \<times> QuicClient" where
  "quicc_poolChecker s =
     (if qk_activeConnections s < qk_ConnectionPool (qk_config s) sdiv 2 then
        let neededConn = qk_ConnectionPool (qk_config s) - qk_activeConnections s in
        (replicate (nat neededConn) QGoDial,
         s\<lparr>qk_dialers := qk_dialers s @ replicate (nat neededConn) QStarted\<rparr>)
      else ([], s))"

section \<open>Runs\<close>

datatype quic_client_event =
  QRestart | QChannelDial bool "(wire option \<times> wire option \<times> bool) list" | QListen listener_event
| QDialer nat quic_dial_event | QPool

definition quicc_turn :: "quic_client_event \<Rightarrow> QuicClient \<Rightarrow> quic_client_effect list \<times> QuicClient" where
  "quicc_turn ev s = (case ev of
     QRestart \<Rightarrow> quicc_Restart s
   | QChannelDial cold ds \<Rightarrow> quicc_ChannelDialer cold ds s
   | QListen lev \<Rightarrow> snd (quicc_channelListener lev s)
   | QDialer i dev \<Rightarrow> if i < length (qk_dialers s) then quicc_tunnelDialer i dev s else ([], s)
   | QPool \<Rightarrow> quicc_poolChecker s)"

fun quicc_run :: "quic_client_event list \<Rightarrow> QuicClient \<Rightarrow> quic_client_effect list \<times> QuicClient" where
  "quicc_run [] s = ([], s)"
| "quicc_run (ev # evs) s =
     (case quicc_turn ev s of (es, s) \<Rightarrow> case quicc_run evs s of (fs, s) \<Rightarrow> (es @ fs, s))"

section \<open>What the client promises\<close>

lemma quicc_localDialer_resolves:
  "quicc_localDialer local_ok remoteAddr = (case ResolveRemoteAddr remoteAddr of
     None \<Rightarrow> [QCloseStream]
   | Some (port, addr) \<Rightarrow> if local_ok then [QRelayTo port addr] else [QCloseStream])"
  by (auto simp: quicc_localDialer_def ResolveRemoteAddr_def Let_def split: option.splits)

text \<open>The closing signal is refused by the type switch of \<^verbatim>\<open>SendBinaryByte\<close>.\<close>

lemma closeControlChannel_silent:
  assumes "qk_controlChannel s = Some c" and "w_type c = OtherType"
  shows "qk_controlChannel (snd (closeControlChannel s)) = Some c"
  using assms by (simp add: closeControlChannel_def SendBinaryByte_def send_buf_def)

text \<open>The pool.\<close>

lemma replicate_dials [simp]: "count_list (replicate n QGoDial) QGoDial = n"
  by (induction n) simp_all

text \<open>New dialers that begin one after the other.\<close>

lemma begin_all:
  assumes "qk_controlChannel s \<noteq> None" and "qk_dialers s = ds @ replicate k QStarted"
  shows "\<exists>t. quicc_run (map (\<lambda>j. QDialer (length ds + j) QBegin) [0..<k]) s = ([], t)
    \<and> qk_activeConnections t = qk_activeConnections s + int k"
  using assms
proof (induction k arbitrary: s ds)
  case (Suc k)
  let ?s = "set_dialer (length ds) QDialing (count_active 1 s)"
  have d: "qk_dialers s = ds @ QStarted # replicate k QStarted" using Suc.prems(2) by simp
  then have "quicc_turn (QDialer (length ds) QBegin) s = ([], ?s)"
    using Suc.prems(1) by (simp add: quicc_turn_def quicc_tunnelDialer_def)
  moreover have "qk_controlChannel ?s \<noteq> None" using Suc.prems(1) by (simp add: set_dialer_def count_active_def)
  moreover have "qk_dialers ?s = (ds @ [QDialing]) @ replicate k QStarted"
    using d by (simp add: set_dialer_def count_active_def list_update_append)
  moreover have "[0..<Suc k] = 0 # map Suc [0..<k]" by (simp add: upt_conv_Cons map_Suc_upt del: upt_Suc)
  moreover have "qk_activeConnections ?s = qk_activeConnections s + 1" by (simp add: set_dialer_def count_active_def)
  ultimately show ?case using Suc.IH [of ?s "ds @ [QDialing]"] by (auto simp: o_def)
qed simp

definition demo_quic_client_config :: QuicClientConfig where
  "demo_quic_client_config = \<lparr>qk_RemoteAddr = ''s:1'', qk_Token = ''t'', qk_SnifferLog = [], qk_TunnelStatus = [],
     qk_Nodelay = True, qk_Sniffer = False, qk_KeepAlive = 0, qk_RetryInterval = 3, qk_DialTimeOut = 10,
     qk_MuxVersion = 1, qk_MaxFrameSize = 1, qk_MaxReceiveBuffer = 1, qk_MaxStreamBuffer = 1,
     qk_ConnectionPool = 8, qk_WebPort = 0, qk_AggressivePool = False\<rparr>"

text \<open>The QUIC client fills its pool: when \<^verbatim>\<open>poolChecker\<close> counts less than half of the configured
  tunnel connections and the control channel is there, it starts as many dialers as are missing,
  and once they have begun the count is the configured one.\<close>

theorem quicc_poolChecker_fills:
  assumes "qk_controlChannel s \<noteq> None" and "qk_activeConnections s < qk_ConnectionPool (qk_config s) sdiv 2"
    and "qk_activeConnections s \<le> qk_ConnectionPool (qk_config s)"
    and "quicc_poolChecker s = (es, t)" and "n = count_list es QGoDial"
  shows "int n = qk_ConnectionPool (qk_config s) - qk_activeConnections s
    \<and> (\<exists>u. quicc_run (map (\<lambda>j. QDialer (length (qk_dialers s) + j) QBegin) [0..<n]) t = ([], u)
         \<and> qk_activeConnections u = qk_ConnectionPool (qk_config s))"
proof -
  let ?n = "nat (qk_ConnectionPool (qk_config s) - qk_activeConnections s)"
  have t: "es = replicate ?n QGoDial" "t = s\<lparr>qk_dialers := qk_dialers s @ replicate ?n QStarted\<rparr>"
    using assms(2,4) by (simp_all add: quicc_poolChecker_def Let_def)
  then have n: "n = ?n" using assms(5) by simp
  have "qk_controlChannel t \<noteq> None" "qk_dialers t = qk_dialers s @ replicate n QStarted" using t n assms(1) by simp_all
  from begin_all [OF this] n t assms(3) show ?thesis by auto
qed

theorem quicc_poolChecker_fills_witness:
  "count_list (fst (quicc_poolChecker ((NewQuicClient demo_quic_client_config)\<lparr>qk_controlChannel := Some (fresh_wire [])\<rparr>))) QGoDial = 8"
proof -
  let ?s = "(NewQuicClient demo_quic_client_config)\<lparr>qk_controlChannel := Some (fresh_wire [])\<rparr>"
  have s: "qk_controlChannel ?s \<noteq> None" "qk_activeConnections ?s = 0" "qk_ConnectionPool (qk_config ?s) = 8"
    by (simp_all add: NewQuicClient_def demo_quic_client_config_def)
  have p: "qk_activeConnections ?s < qk_ConnectionPool (qk_config ?s) sdiv 2" "qk_activeConnections ?s \<le> qk_ConnectionPool (qk_config ?s)"
    using s by (simp_all add: signed_divide_int_def)
  show ?thesis using quicc_poolChecker_fills [OF s(1) p surjective_pairing refl] s(2,3) by simp
qed

lemma quicc_quiet_turn:
  assumes "qk_ConnectionPool (qk_config s) = 1" and "qk_dialers s = []" and "qk_activeConnections s = 0"
    and "ev \<noteq> QListen (ListenerMsg SG_Chan)" and "quicc_turn ev s = (es, t)"
  shows "QGoDial \<notin> set es \<and> qk_ConnectionPool (qk_config t) = 1 \<and> qk_dialers t = [] \<and> qk_activeConnections t = 0"
proof (cases ev)
  case (QChannelDial cold ds)
  have "quicc_dial_loop cold ds s = (fs, u) \<Longrightarrow> QGoDial \<notin> set fs \<and> qk_dialers u = qk_dialers s
      \<and> qk_activeConnections u = qk_activeConnections s \<and> qk_ConnectionPool (qk_config u) = qk_ConnectionPool (qk_config s)"
    for fs u s
    by (induction cold ds s arbitrary: fs rule: quicc_dial_loop.induct)
      (auto simp: qk_set_status_def split: prod.splits sum.splits)
  with assms QChannelDial show ?thesis
    by (fastforce simp: quicc_turn_def quicc_ChannelDialer_def qk_set_status_def split: prod.splits)
next
  case (QListen lev)
  with assms show ?thesis
    by (auto simp: quicc_turn_def quicc_channelListener_def split: listener_event.splits option.splits prod.splits if_splits)
next
  case QPool
  with assms show ?thesis by (simp add: quicc_turn_def quicc_poolChecker_def signed_divide_int_def)
qed (use assms in \<open>auto simp: quicc_turn_def quicc_Restart_def closeControlChannel_def qk_set_status_def split: option.splits\<close>)

text \<open>A pool of one is never filled: half of one is zero, so with \<^verbatim>\<open>connection_pool = 1\<close> a QUIC
  client opens no tunnel connection of its own accord, whatever happens and however often it
  reconnects or restarts; only a signal of the server could make it dial.\<close>

theorem quicc_pool_of_one:
  assumes "qk_ConnectionPool config = 1" and "QListen (ListenerMsg SG_Chan) \<notin> set evs"
    and "quicc_run evs (NewQuicClient config) = (es, t)"
  shows "QGoDial \<notin> set es \<and> qk_activeConnections t = 0"
proof -
  have "quicc_run evs s = (es, t) \<Longrightarrow> QListen (ListenerMsg SG_Chan) \<notin> set evs \<Longrightarrow>
      qk_ConnectionPool (qk_config s) = 1 \<and> qk_dialers s = [] \<and> qk_activeConnections s = 0 \<Longrightarrow>
      QGoDial \<notin> set es \<and> qk_activeConnections t = 0" for s
  proof (induction evs arbitrary: s es)
    case (Cons ev evs)
    obtain es1 s1 where 1: "quicc_turn ev s = (es1, s1)" by (metis prod.exhaust)
    obtain es2 where 2: "quicc_run evs s1 = (es2, t)" "es = es1 @ es2"
      using Cons.prems(1) 1 by (auto split: prod.splits)
    have "ev \<noteq> QListen (ListenerMsg SG_Chan)" using Cons.prems(2) by auto
    with quicc_quiet_turn [OF _ _ _ this 1] Cons.prems(3) have
      q: "QGoDial \<notin> set es1" "qk_ConnectionPool (qk_config s1) = 1 \<and> qk_dialers s1 = [] \<and> qk_activeConnections s1 = 0"
      by auto
    from Cons.IH [OF 2(1) _ q(2)] Cons.prems(2) q(1) 2(2) show ?case by auto
  qed simp
  from this [OF assms(3,2)] assms(1) show ?thesis by (simp add: NewQuicClient_def)
qed

theorem quicc_pool_of_one_witness:
  "QGoDial \<notin> set (fst (quicc_run [QPool, QRestart, QPool]
     (NewQuicClient (demo_quic_client_config\<lparr>qk_ConnectionPool := 1\<rparr>))))"
  using quicc_pool_of_one [OF _ _ surjective_pairing, of "demo_quic_client_config\<lparr>qk_ConnectionPool := 1\<rparr>" "[QPool, QRestart, QPool]"]
  by simp

end
