(* ===== verification/Accept_Udp.thy ===== *)
theory Accept_Udp
  imports Payload Tcp_Server
begin

text \<open>
  UDP over the TCP tunnel: \<^verbatim>\<open>accept_udp.go\<close> of the server (\<^verbatim>\<open>internal/server/transport\<close>) and of the
  client (\<^verbatim>\<open>internal/client/transport\<close>).  First the framing of datagrams on both sides, then the
  listener of a port, its handler, and the two copy loops of every connection, whose turns
  \<open>au_step\<close> interleaves; a turn of a loop is one step.
\<close>

section \<open>Framing\<close>

definition BufferSize :: nat where
  "BufferSize = 16 * 1024"

definition PutUint32 :: "int \<Rightarrow> string" where
  "PutUint32 n = (let m = nat (n mod 4294967296) in
     [byte (m div 16777216), byte (m div 65536), byte (m div 256), byte m])"

definition GetUint32 :: "string \<Rightarrow> int" where
  "GetUint32 b = int (((of_char (b ! 0) * 256 + of_char (b ! 1)) * 256 + of_char (b ! 2)) * 256 + of_char (b ! 3))"

text \<open>The packets: of the server the size and the data, of the client the time (the millisecond within
  ten minutes), the size and the data.  Sizes are converted to 16 bits.\<close>

definition server_packet :: "string \<Rightarrow> string" where
  "server_packet data = PutUint16 (uint16 (length data)) @ data"

definition client_packet :: "int \<Rightarrow> string \<Rightarrow> string" where
  "client_packet timestamp data =
     PutUint32 (timestamp mod (10 * 60 * 1000)) @ PutUint16 (uint16 (length data)) @ data"

text \<open>One turn of the client's \<^verbatim>\<open>tcpToUDP\<close>: \<open>None\<close> where it returns.\<close>

definition client_read_packet :: "conn \<Rightarrow> string option \<times> conn" where
  "client_read_packet c =
     (case ReadFull 2 c of
        (Inl _, c) \<Rightarrow> (None, c)
      | (Inr lenBuf, c) \<Rightarrow>
          let packetSize = unat (GetUint16 lenBuf) in
          if packetSize > BufferSize then (None, c)
          else (case ReadFull packetSize c of (Inl _, c) \<Rightarrow> (None, c) | (Inr b, c) \<Rightarrow> (Some b, c)))"

lemma client_read_packet_less:
  "client_read_packet c = (Some b, c') \<Longrightarrow> length (pending c') < length (pending c)"
proof -
  assume a: "client_read_packet c = (Some b, c')"
  then obtain l c1 where "ReadFull 2 c = (Inr l, c1)" "ReadFull (unat (GetUint16 l)) c1 = (Inr b, c')"
    by (auto simp: client_read_packet_def Let_def split: sum.splits prod.splits if_splits)
  from ReadFull_Inr [OF this(1)] ReadFull_Inr [OF this(2)] show ?thesis by simp
qed

text \<open>The loop: the datagrams written, of which the empty ones are none; \<open>ok i\<close> is the result of
  writing the \<open>i\<close>-th.\<close>

function client_tcpToUDP :: "(nat \<Rightarrow> bool) \<Rightarrow> nat \<Rightarrow> conn \<Rightarrow> string list" where
  "client_tcpToUDP ok i c =
     (case client_read_packet c of
        (None, _) \<Rightarrow> []
      | (Some b, c) \<Rightarrow>
          if length b \<noteq> 0 \<and> \<not> ok i then []
          else (if length b = 0 then [] else [b]) @ client_tcpToUDP ok (i + 1) c)"
  by pat_completeness auto

termination
  by (relation "measure (\<lambda>(_, _, c). length (pending c))") (auto dest!: sym [of "(Some _, _)"] client_read_packet_less)

declare client_tcpToUDP.simps [simp del]

text \<open>One turn of the server's \<^verbatim>\<open>tcpToUDP\<close>: the datagram, whether the age of the packet flags the
  connection as congested (also where it returns), and the connection.\<close>

definition server_read_packet :: "int \<Rightarrow> int \<Rightarrow> conn \<Rightarrow> string option \<times> bool \<times> conn" where
  "server_read_packet rtt timestamp c =
     (case ReadFull 4 c of
        (Inl _, c) \<Rightarrow> (None, False, c)
      | (Inr timestampBuf, c) \<Rightarrow>
          let packetTimestamp = GetUint32 timestampBuf; lastMillis = timestamp mod (10 * 60 * 1000);
              congested = (lastMillis - packetTimestamp > 3 * rtt) in
          (case ReadFull 2 c of
             (Inl _, c) \<Rightarrow> (None, congested, c)
           | (Inr lenBuf, c) \<Rightarrow>
               let packetSize = unat (GetUint16 lenBuf) in
               if packetSize > BufferSize then (None, congested, c)
               else (case ReadFull packetSize c of
                       (Inl _, c) \<Rightarrow> (None, congested, c) | (Inr b, c) \<Rightarrow> (Some b, congested, c))))"

lemma server_read_packet_less:
  "server_read_packet rtt now c = (Some b, cg, c') \<Longrightarrow> length (pending c') < length (pending c)"
proof -
  assume a: "server_read_packet rtt now c = (Some b, cg, c')"
  then obtain t c0 l c1 where "ReadFull 4 c = (Inr t, c0)" "ReadFull 2 c0 = (Inr l, c1)"
    "ReadFull (unat (GetUint16 l)) c1 = (Inr b, c')"
    by (auto simp: server_read_packet_def Let_def split: sum.splits prod.splits if_splits)
  from ReadFull_Inr [OF this(1)] ReadFull_Inr [OF this(2)] ReadFull_Inr [OF this(3)] show ?thesis by simp
qed

text \<open>The loop on a connection: the datagrams and whether one flagged congestion; \<open>now i\<close> is the
  clock at the \<open>i\<close>-th packet.\<close>

function server_tcpToUDP :: "int \<Rightarrow> (nat \<Rightarrow> int) \<Rightarrow> nat \<Rightarrow> conn \<Rightarrow> string list \<times> bool" where
  "server_tcpToUDP rtt now i c =
     (case server_read_packet rtt (now i) c of
        (None, congested, _) \<Rightarrow> ([], congested)
      | (Some b, congested, c) \<Rightarrow>
          (case server_tcpToUDP rtt now (i + 1) c of (ds, cg) \<Rightarrow> ((if length b = 0 then [] else [b]) @ ds, congested \<or> cg)))"
  by pat_completeness auto

termination
  by (relation "measure (\<lambda>(_, _, _, c). length (pending c))") (auto dest!: sym [of "(Some _, _)"] server_read_packet_less)

declare server_tcpToUDP.simps [simp del]

text \<open>The client's \<^verbatim>\<open>udpToTCP\<close>, with what its reads return, the clock at each, and the results of the
  writes: the bytes written.\<close>

fun client_udpToTCP :: "(string option \<times> int \<times> bool) list \<Rightarrow> string" where
  "client_udpToTCP [] = []"
| "client_udpToTCP ((None, _, _) # rs) = []"
| "client_udpToTCP ((Some d, timestamp, write_ok) # rs) =
     (let buf = take (BufferSize - 6) d in
      if length buf > 65535 then client_udpToTCP rs
      else if \<not> write_ok then []
      else client_packet timestamp buf @ client_udpToTCP rs)"

section \<open>State\<close>

record LocalAcceptUDPConn =
  la_timeCreated :: int
  la_payload :: payload
  la_remoteAddr :: string
  la_clientAddr :: string
  la_IsCongested :: bool

text \<open>A port has a map of its active connections, a queue to its handler, and what the handler has in
  hand while it waits for a tunnel connection.  A connection that is being copied: its index, its tunnel connection, its round trip time and
  which of the directions (UDP to TCP, TCP to UDP) still runs.\<close>

record udp_handler =
  uh_local :: nat
  uh_tcp :: tunnel_conn
  uh_rtt :: int
  uh_out :: bool
  uh_in :: bool

record accept_port =
  ap_remoteAddr :: string
  ap_conns :: "LocalAcceptUDPConn list"
  ap_active :: "string \<rightharpoonup> nat"
  ap_udpChan :: "nat chan"
  ap_hand :: "nat option"
  ap_handlers :: "udp_handler list"

datatype accept_effect = AuBuffered nat string | AuToTCP nat string | AuToUDP nat string | AuCloseTCP nat | AuPanic

section \<open>The listener and its handler\<close>

definition udpListener_start :: "TcpTransport \<Rightarrow> string \<Rightarrow> accept_port" where
  "udpListener_start s remoteAddr =
     \<lparr>ap_remoteAddr = remoteAddr, ap_conns = [], ap_active = Map.empty,
      ap_udpChan = make_chan (nat (tcp_ChannelSize (tt_config s))), ap_hand = None, ap_handlers = []\<rparr>"

text \<open>A datagram from \<open>key\<close>; the read cuts it to the buffer.\<close>

definition udpListener_read :: "int \<Rightarrow> string \<Rightarrow> string \<Rightarrow> accept_port \<Rightarrow> unit chan
    \<Rightarrow> accept_effect list \<times> accept_port \<times> unit chan" where
  "udpListener_read now key datagram p req =
     (let packet = take (BufferSize - 2) datagram;
          k = length (ap_conns p);
          newUDPConn = \<lparr>la_timeCreated = now, la_payload = new_payload, la_remoteAddr = ap_remoteAddr p,
                        la_clientAddr = key, la_IsCongested = False\<rparr>;
          stored = p\<lparr>ap_active := (ap_active p)(key \<mapsto> k), ap_conns := ap_conns p @ [newUDPConn]\<rparr>;
          new = (case try_send k (ap_udpChan p) of
                   (True, ch) \<Rightarrow>
                     ([AuBuffered k packet],
                      stored\<lparr>ap_udpChan := ch,
                        ap_conns := ap_conns p @ [newUDPConn\<lparr>la_payload := the (payload_send packet new_payload)\<rparr>]\<rparr>,
                      snd (try_send () req))
                 | (False, _) \<Rightarrow> ([], stored, req)) in
      case ap_active p key of
        Some j \<Rightarrow>
          let existingConn = ap_conns p ! j in
          if la_IsCongested existingConn then new
          else (case payload_send packet (la_payload existingConn) of
                  None \<Rightarrow> ([AuPanic], p, req)
                | Some q \<Rightarrow> ([AuBuffered j packet], p\<lparr>ap_conns := (ap_conns p)[j := existingConn\<lparr>la_payload := q\<rparr>]\<rparr>, req))
      | None \<Rightarrow> new)"

text \<open>The inner loop of \<^verbatim>\<open>handleUDPLoop\<close>: tunnel connections are taken until one takes the target.\<close>

function udp_pair_loop :: "string \<Rightarrow> tunnel_conn chan \<Rightarrow> nat list \<times> tunnel_conn option \<times> tunnel_conn chan" where
  "udp_pair_loop remoteAddr ch =
     (case try_recv ch of
        None \<Rightarrow> ([], None, ch)
      | Some (tunnelConn, ch) \<Rightarrow>
          (case SendBinaryTransportString (tn_wire tunnelConn) remoteAddr SG_UDP of
             (Some _, _) \<Rightarrow> (case udp_pair_loop remoteAddr ch of (cl, c, ch) \<Rightarrow> (tn_id tunnelConn # cl, c, ch))
           | (None, w) \<Rightarrow> ([], Some (tunnelConn\<lparr>tn_wire := w\<rparr>), ch)))"
  by pat_completeness auto

termination
  by (relation "measure (\<lambda>(_, ch). length (ch_buf ch))") (auto simp: try_recv_def split: list.splits)

declare udp_pair_loop.simps [simp del]

definition UDPConnectionHandler :: "nat \<Rightarrow> tunnel_conn \<Rightarrow> int \<Rightarrow> udp_handler" where
  "UDPConnectionHandler k tcp rtt =
     \<lparr>uh_local = k, uh_tcp = tcp, uh_rtt = (if rtt = 0 then 100 else rtt), uh_out = True, uh_in = True\<rparr>"

text \<open>\<^verbatim>\<open>handleUDPLoop\<close> takes a connection, and then tunnel connections until one takes its target; where
  none is left it waits with the connection in hand.\<close>

definition handleUDPLoop_take :: "accept_port \<Rightarrow> accept_port" where
  "handleUDPLoop_take p =
     (if ap_hand p \<noteq> None then p else
      case try_recv (ap_udpChan p) of
        None \<Rightarrow> p
      | Some (k, ch) \<Rightarrow> p\<lparr>ap_udpChan := ch, ap_hand := Some k\<rparr>)"

definition handleUDPLoop :: "accept_port \<Rightarrow> TcpTransport \<Rightarrow> accept_effect list \<times> accept_port \<times> TcpTransport" where
  "handleUDPLoop p s =
     (case ap_hand p of
        None \<Rightarrow> ([], p, s)
      | Some k \<Rightarrow>
          (case udp_pair_loop (la_remoteAddr (ap_conns p ! k)) (tt_tunnelChannel s) of
             (cl, None, tch) \<Rightarrow> (map AuCloseTCP cl, p, s\<lparr>tt_tunnelChannel := tch\<rparr>)
           | (cl, Some tunnelConn, tch) \<Rightarrow>
               (map AuCloseTCP cl,
                p\<lparr>ap_hand := None,
                  ap_handlers := ap_handlers p @ [UDPConnectionHandler k tunnelConn (tt_rtt s)]\<rparr>,
                s\<lparr>tt_tunnelChannel := tch\<rparr>)))"

section \<open>The copy loops\<close>

text \<open>A turn of the server's \<^verbatim>\<open>udpToTCP\<close>: the idle timer, or a datagram.\<close>

definition udpToTCP :: "nat \<Rightarrow> bool \<Rightarrow> accept_port \<Rightarrow> accept_effect list \<times> accept_port" where
  "udpToTCP j idle p =
     (let h = ap_handlers p ! j; c = ap_conns p ! uh_local h;
          finish = p\<lparr>ap_handlers := (ap_handlers p)[j := h\<lparr>uh_out := False\<rparr>]\<rparr> in
      if \<not> uh_out h then ([], p)
      else if idle then ([AuCloseTCP (tn_id (uh_tcp h))], finish)
      else (case payload_recv (la_payload c) of
              (PayloadClosed, _) \<Rightarrow> ([AuCloseTCP (tn_id (uh_tcp h))], finish)
            | (PayloadEmpty, _) \<Rightarrow> ([], p)
            | (Datagram data, q) \<Rightarrow>
                let p = p\<lparr>ap_conns := (ap_conns p)[uh_local h := c\<lparr>la_payload := q\<rparr>]\<rparr> in
                if length data > 65535 then ([], p)
                else (case Write (server_packet data) (tn_wire (uh_tcp h)) of
                        (None, w) \<Rightarrow>
                          ([AuToTCP (uh_local h) (server_packet data)],
                           p\<lparr>ap_handlers := (ap_handlers p)[j := h\<lparr>uh_tcp := (uh_tcp h)\<lparr>tn_wire := w\<rparr>\<rparr>]\<rparr>)
                      | (Some _, w) \<Rightarrow>
                          ([AuCloseTCP (tn_id (uh_tcp h))],
                           p\<lparr>ap_handlers := (ap_handlers p)[j := h\<lparr>uh_out := False\<rparr>]\<rparr>))))"

text \<open>A turn of the server's \<^verbatim>\<open>tcpToUDP\<close>, with the clock and the result of the write.\<close>

definition tcpToUDP :: "nat \<Rightarrow> int \<Rightarrow> bool \<Rightarrow> accept_port \<Rightarrow> accept_effect list \<times> accept_port" where
  "tcpToUDP j now write_ok p =
     (let h = ap_handlers p ! j; c = ap_conns p ! uh_local h in
      if \<not> uh_in h then ([], p) else
      case server_read_packet (uh_rtt h) now (w_in (tn_wire (uh_tcp h))) of
        (r, congested, i) \<Rightarrow>
          let h = h\<lparr>uh_tcp := (uh_tcp h)\<lparr>tn_wire := (tn_wire (uh_tcp h))\<lparr>w_in := i\<rparr>\<rparr>\<rparr>;
              p = p\<lparr>ap_conns := (ap_conns p)[uh_local h := c\<lparr>la_IsCongested := la_IsCongested c \<or> congested\<rparr>]\<rparr> in
          (case r of
             None \<Rightarrow> ([AuCloseTCP (tn_id (uh_tcp h))], p\<lparr>ap_handlers := (ap_handlers p)[j := h\<lparr>uh_in := False\<rparr>]\<rparr>)
           | Some b \<Rightarrow>
               if length b = 0 then ([], p\<lparr>ap_handlers := (ap_handlers p)[j := h]\<rparr>)
               else if write_ok then ([AuToUDP (uh_local h) b], p\<lparr>ap_handlers := (ap_handlers p)[j := h]\<rparr>)
               else ([AuCloseTCP (tn_id (uh_tcp h))], p\<lparr>ap_handlers := (ap_handlers p)[j := h\<lparr>uh_in := False\<rparr>]\<rparr>)))"

text \<open>The end of \<^verbatim>\<open>UDPConnectionHandler\<close>, when both loops returned.\<close>

definition UDPConnectionHandler_end :: "nat \<Rightarrow> accept_port \<Rightarrow> accept_effect list \<times> accept_port" where
  "UDPConnectionHandler_end j p =
     (let h = ap_handlers p ! j; c = ap_conns p ! uh_local h in
      if uh_out h \<or> uh_in h then ([], p) else
      case payload_close (la_payload c) of
        None \<Rightarrow> ([AuPanic], p)
      | Some q \<Rightarrow>
          ([], p\<lparr>ap_conns := (ap_conns p)[uh_local h := c\<lparr>la_payload := q\<rparr>],
                 ap_active := (if la_IsCongested c then ap_active p else (ap_active p)(la_clientAddr c := None)),
                 ap_handlers := take j (ap_handlers p) @ drop (Suc j) (ap_handlers p)\<rparr>))"

section \<open>The interleaving of the goroutines\<close>

text \<open>The other goroutines of the server may change its channels in any way.\<close>

inductive au_step :: "accept_port \<times> TcpTransport \<Rightarrow> accept_effect list \<times> accept_port \<times> TcpTransport \<Rightarrow> bool" where
  "udpListener_read now key d p (tt_reqNewConnChan s) = (es, q, req) \<Longrightarrow>
     au_step (p, s) (es, q, s\<lparr>tt_reqNewConnChan := req\<rparr>)"
| "au_step (p, s) ([], handleUDPLoop_take p, s)"
| "handleUDPLoop p s = (es, q, t) \<Longrightarrow> au_step (p, s) (es, q, t)"
| "j < length (ap_handlers p) \<Longrightarrow> udpToTCP j idle p = (es, q) \<Longrightarrow> au_step (p, s) (es, q, s)"
| "j < length (ap_handlers p) \<Longrightarrow> tcpToUDP j now ok p = (es, q) \<Longrightarrow> au_step (p, s) (es, q, s)"
| "j < length (ap_handlers p) \<Longrightarrow> UDPConnectionHandler_end j p = (es, q) \<Longrightarrow> au_step (p, s) (es, q, s)"
| "au_step (p, s) ([], p, t)"

inductive au_run :: "accept_port \<times> TcpTransport \<Rightarrow> accept_effect list \<Rightarrow> accept_port \<times> TcpTransport \<Rightarrow> bool" for s where
  au_idle: "au_run s [] s"
| au_more: "au_run s es t \<Longrightarrow> au_step t (fs, u) \<Longrightarrow> au_run s (es @ fs) u"

inductive_cases au_stepE [consumes 1, case_names reads takes pairs outward inward ends other]: "au_step (p, s) (es, q, t)"

end
