(* ===== verification/Accept_Udp_Spec.thy ===== *)
theory Accept_Udp_Spec
  imports Accept_Udp Tcp_Spec
begin

text \<open>
  What UDP over TCP promises: datagrams cross the tunnel unchanged and in order, in both
  directions; no goroutine of a port panics; and what becomes of a user that met a full queue.
\<close>

section \<open>Round trips\<close>


lemma PutUint32_length [simp]: "length (PutUint32 n) = 4"
  by (simp add: PutUint32_def Let_def)









section \<open>The invariant of a port\<close>

definition la_open :: "accept_port \<Rightarrow> nat \<Rightarrow> bool" where
  "la_open p k \<longleftrightarrow> k < length (ap_conns p) \<and> \<not> pl_closed (la_payload (ap_conns p ! k))"

definition au_all :: "accept_port \<Rightarrow> nat list" where
  "au_all p = (case ap_hand p of None \<Rightarrow> [] | Some k \<Rightarrow> [k]) @ ch_buf (ap_udpChan p) @ map uh_local (ap_handlers p)"

definition au_inv :: "accept_port \<Rightarrow> bool" where
  "au_inv p \<longleftrightarrow>
     (\<forall>key k. ap_active p key = Some k \<longrightarrow> k < length (ap_conns p) \<and> la_clientAddr (ap_conns p ! k) = key
        \<and> (la_open p k \<or> la_IsCongested (ap_conns p ! k)))
     \<and> distinct (au_all p)
     \<and> (\<forall>k \<in> set (au_all p). la_open p k
          \<and> (la_IsCongested (ap_conns p ! k) \<or> ap_active p (la_clientAddr (ap_conns p ! k)) = Some k))"

text \<open>A connection that is registered, but neither queued nor copied.\<close>

definition au_stranded :: "nat \<Rightarrow> string \<Rightarrow> accept_port \<Rightarrow> bool" where
  "au_stranded k key p \<longleftrightarrow> ap_active p key = Some k \<and> k < length (ap_conns p) \<and> la_clientAddr (ap_conns p ! k) = key
     \<and> \<not> la_IsCongested (ap_conns p ! k) \<and> k \<notin> set (au_all p)"

text \<open>A step that changes one connection, but not its address.\<close>

definition same_conn :: "LocalAcceptUDPConn \<Rightarrow> LocalAcceptUDPConn \<Rightarrow> bool" where
  "same_conn c d \<longleftrightarrow> la_clientAddr d = la_clientAddr c \<and> pl_closed (la_payload d) = pl_closed (la_payload c)
     \<and> (la_IsCongested c \<longrightarrow> la_IsCongested d)"

lemma au_inv_update:
  assumes inv: "au_inv p" and a: "ap_active q = ap_active p" "set (au_all q) = set (au_all p)" "distinct (au_all q)"
    and c: "ap_conns q = (ap_conns p)[k := c]" and s: "same_conn (ap_conns p ! k) c"
  shows "au_inv q"
proof -
  have l: "length (ap_conns q) = length (ap_conns p)" using c by simp
  have e: "same_conn (ap_conns p ! j) (ap_conns q ! j)" if "j < length (ap_conns p)" for j
    using c s that by (cases "j = k") (simp_all add: same_conn_def)
  have o: "la_open q j = la_open p j" for j
    using e [of j] l by (auto simp: la_open_def same_conn_def)
  have "k < length (ap_conns q) \<and> la_clientAddr (ap_conns q ! k) = key \<and> (la_open q k \<or> la_IsCongested (ap_conns q ! k))"
    if "ap_active q key = Some k" for key k
    using inv that a(1) e [of k] l o by (auto simp: au_inv_def same_conn_def)
  moreover have "la_open q k \<and> (la_IsCongested (ap_conns q ! k) \<or> ap_active q (la_clientAddr (ap_conns q ! k)) = Some k)"
    if "k \<in> set (au_all q)" for k
  proof -
    have "la_open p k \<and> (la_IsCongested (ap_conns p ! k) \<or> ap_active p (la_clientAddr (ap_conns p ! k)) = Some k)"
      using inv that a(2) by (simp add: au_inv_def)
    moreover from this have "k < length (ap_conns p)" by (simp add: la_open_def)
    ultimately show ?thesis using o e a(1) by (auto simp: same_conn_def)
  qed
  ultimately show ?thesis using a(3) unfolding au_inv_def by blast
qed

lemma au_stranded_update:
  assumes st: "au_stranded k key p" and a: "ap_active q = ap_active p" "set (au_all q) \<subseteq> set (au_all p)"
    and c: "ap_conns q = (ap_conns p)[j := c]" and s: "same_conn (ap_conns p ! j) c"
    and n: "j = k \<Longrightarrow> la_IsCongested c = la_IsCongested (ap_conns p ! k)"
  shows "au_stranded k key q"
  using assms by (cases "j = k") (auto simp: au_stranded_def same_conn_def)

text \<open>The outcomes of a datagram.\<close>

lemma udpListener_read_cases:
  assumes "udpListener_read now key d p req = (es, q, req')" and "au_inv p"
  obtains (known) j r where "ap_active p key = Some j" "\<not> la_IsCongested (ap_conns p ! j)"
      "payload_send (take (BufferSize - 2) d) (la_payload (ap_conns p ! j)) = Some r"
      "es = [AuBuffered j (take (BufferSize - 2) d)]"
      "q = p\<lparr>ap_conns := (ap_conns p)[j := (ap_conns p ! j)\<lparr>la_payload := r\<rparr>]\<rparr>"
  | (queued) ch c where "try_send (length (ap_conns p)) (ap_udpChan p) = (True, ch)"
      "\<forall>j. ap_active p key = Some j \<longrightarrow> la_IsCongested (ap_conns p ! j)"
      "la_clientAddr c = key" "\<not> la_IsCongested c" "\<not> pl_closed (la_payload c)"
      "q = p\<lparr>ap_active := (ap_active p)(key \<mapsto> length (ap_conns p)), ap_conns := ap_conns p @ [c], ap_udpChan := ch\<rparr>"
      "es = [AuBuffered (length (ap_conns p)) (take (BufferSize - 2) d)]"
  | (full) ch c where "try_send (length (ap_conns p)) (ap_udpChan p) = (False, ch)"
      "\<forall>j. ap_active p key = Some j \<longrightarrow> la_IsCongested (ap_conns p ! j)"
      "la_clientAddr c = key" "\<not> la_IsCongested c" "\<not> pl_closed (la_payload c)"
      "q = p\<lparr>ap_active := (ap_active p)(key \<mapsto> length (ap_conns p)), ap_conns := ap_conns p @ [c]\<rparr>" "es = []"
proof -
  obtain pl where pl: "payload_send (take (BufferSize - 2) d) new_payload = Some pl" "\<not> pl_closed pl"
    by (simp add: payload_send_def new_payload_def)
  obtain ok ch where ch: "try_send (length (ap_conns p)) (ap_udpChan p) = (ok, ch)" by (metis prod.exhaust)
  let ?c = "\<lparr>la_timeCreated = now, la_payload = new_payload, la_remoteAddr = ap_remoteAddr p,
    la_clientAddr = key, la_IsCongested = False\<rparr>"
  show thesis
  proof (cases "\<exists>j. ap_active p key = Some j \<and> \<not> la_IsCongested (ap_conns p ! j)")
    case True
    then obtain j where j: "ap_active p key = Some j" "\<not> la_IsCongested (ap_conns p ! j)" by blast
    with assms(2) have "\<not> pl_closed (la_payload (ap_conns p ! j))" by (auto simp: au_inv_def la_open_def)
    then obtain r where "payload_send (take (BufferSize - 2) d) (la_payload (ap_conns p ! j)) = Some r"
      by (simp add: payload_send_def)
    with j assms(1) show thesis by (intro that(1) [of j r]) (simp_all add: udpListener_read_def Let_def)
  next
    case False
    show thesis
    proof (cases ok)
      case True
      with False ch pl assms(1) show thesis
        by (intro that(2) [of ch "?c\<lparr>la_payload := pl\<rparr>"])
          (auto simp: udpListener_read_def Let_def split: option.splits)
    next
      case nk: False
      with False ch assms(1) show thesis
        by (intro that(3) [of ch ?c]) (auto simp: udpListener_read_def Let_def new_payload_def split: option.splits)
    qed
  qed
qed

lemma au_inv_new:
  assumes inv: "au_inv p" and m: "\<forall>j. ap_active p key = Some j \<longrightarrow> la_IsCongested (ap_conns p ! j)"
    and c: "la_clientAddr c = key" "\<not> pl_closed (la_payload c)"
    and q: "ap_active q = (ap_active p)(key \<mapsto> length (ap_conns p))" "ap_conns q = ap_conns p @ [c]"
    and al: "set (au_all q) \<subseteq> insert (length (ap_conns p)) (set (au_all p))" "distinct (au_all q)"
  shows "au_inv q"
proof -
  let ?n = "length (ap_conns p)"
  have old: "ap_conns q ! k = ap_conns p ! k" "la_open q k = la_open p k" if "k < ?n" for k
    using q(2) that by (simp_all add: nth_append la_open_def)
  have new: "ap_conns q ! ?n = c" "la_open q ?n" using q(2) c by (simp_all add: la_open_def)
  have "k < length (ap_conns q) \<and> la_clientAddr (ap_conns q ! k) = a \<and> (la_open q k \<or> la_IsCongested (ap_conns q ! k))"
    if "ap_active q a = Some k" for a k
  proof (cases "a = key")
    case True
    with that q new c show ?thesis by simp
  next
    case False
    with that q(1) have "ap_active p a = Some k" by simp
    with inv have "k < ?n" "la_clientAddr (ap_conns p ! k) = a" "la_open p k \<or> la_IsCongested (ap_conns p ! k)"
      by (auto simp: au_inv_def)
    with old q(2) show ?thesis by auto
  qed
  moreover have "la_open q k \<and> (la_IsCongested (ap_conns q ! k) \<or> ap_active q (la_clientAddr (ap_conns q ! k)) = Some k)"
    if k: "k \<in> set (au_all q)" for k
  proof (cases "k = ?n")
    case True
    with new c q(1) show ?thesis by simp
  next
    case False
    with k al(1) have p: "k \<in> set (au_all p)" by auto
    with inv have o: "la_open p k" "la_IsCongested (ap_conns p ! k) \<or> ap_active p (la_clientAddr (ap_conns p ! k)) = Some k"
      by (auto simp: au_inv_def)
    then have l: "k < ?n" by (simp add: la_open_def)
    show ?thesis using o old [OF l] q(1) m by (cases "la_clientAddr (ap_conns p ! k) = key") auto
  qed
  ultimately show ?thesis using al(2) unfolding au_inv_def by blast
qed

lemma au_all_bound: "au_inv p \<Longrightarrow> length (ap_conns p) \<notin> set (au_all p)"
  by (auto simp: au_inv_def la_open_def)

lemma udpListener_read_inv:
  assumes "udpListener_read now key d p req = (es, q, req')" and "au_inv p"
  shows "au_inv q \<and> AuPanic \<notin> set es"
  using assms
proof (cases rule: udpListener_read_cases)
  case (known j r)
  have "same_conn (ap_conns p ! j) ((ap_conns p ! j)\<lparr>la_payload := r\<rparr>)"
    using payload_send_cases [OF known(3)] by (simp add: same_conn_def)
  moreover have "au_all q = au_all p" "ap_active q = ap_active p" using known(5) by (simp_all add: au_all_def)
  moreover have "distinct (au_all p)" using assms(2) by (simp add: au_inv_def)
  ultimately have "au_inv q" using known(5) by (intro au_inv_update [OF assms(2), of q j]) simp_all
  with known(4) show ?thesis by simp
next
  case (queued ch c)
  have b: "ch_buf ch = ch_buf (ap_udpChan p) @ [length (ap_conns p)]" using go_chan.send_ok [OF queued(1)] by simp
  have "distinct (au_all q)" "set (au_all q) \<subseteq> insert (length (ap_conns p)) (set (au_all p))"
    using assms(2) au_all_bound [OF assms(2)] b queued(6)
    by (auto simp: au_inv_def au_all_def split: option.splits)
  with queued show ?thesis by (auto intro!: au_inv_new [OF assms(2), of key c])
next
  case (full ch c)
  have "au_all q = au_all p" using full by (simp add: au_all_def)
  moreover have "distinct (au_all p)" using assms(2) by (simp add: au_inv_def)
  ultimately have "au_inv q" using full by (intro au_inv_new [OF assms(2) full(2,3,5)]) auto
  with full(7) show ?thesis by simp
qed

lemma handleUDPLoop_take_all: "au_all (handleUDPLoop_take p) = au_all p"
proof (cases "ap_hand p = None \<and> try_recv (ap_udpChan p) \<noteq> None")
  case True
  then obtain k ch where r: "try_recv (ap_udpChan p) = Some (k, ch)" by auto
  with True go_chan.recv_some [OF r] show ?thesis by (simp add: handleUDPLoop_take_def au_all_def)
qed (auto simp: handleUDPLoop_take_def au_all_def split: option.splits)

lemma handleUDPLoop_take_fields: "ap_conns (handleUDPLoop_take p) = ap_conns p" "ap_active (handleUDPLoop_take p) = ap_active p"
  by (simp_all add: handleUDPLoop_take_def split: option.split)

lemma la_open_cong: "ap_conns q = ap_conns p \<Longrightarrow> la_open q = la_open p"
  by (intro ext) (simp add: la_open_def)

lemma au_inv_same:
  assumes "au_inv p" and "ap_conns q = ap_conns p" and "ap_active q = ap_active p"
    and "set (au_all q) = set (au_all p)" and "distinct (au_all q)"
  shows "au_inv q"
  using assms la_open_cong [OF assms(2)] by (simp add: au_inv_def)

lemma handleUDPLoop_cases:
  assumes "handleUDPLoop p s = (es, q, t)"
  obtains (same) "q = p" "set es \<subseteq> range AuCloseTCP"
  | (paired) k h where "ap_hand p = Some k" "q = p\<lparr>ap_hand := None, ap_handlers := ap_handlers p @ [h]\<rparr>"
      "uh_local h = k" "set es \<subseteq> range AuCloseTCP"
proof (cases "ap_hand p")
  case None
  with assms show thesis by (intro that(1)) (simp_all add: handleUDPLoop_def)
next
  case (Some k)
  obtain cl c ch where r: "udp_pair_loop (la_remoteAddr (ap_conns p ! k)) (tt_tunnelChannel s) = (cl, c, ch)"
    by (metis prod.exhaust)
  show thesis
  proof (cases c)
    case None
    with Some r assms show thesis by (intro that(1)) (auto simp: handleUDPLoop_def)
  next
    case (Some tc)
    with \<open>ap_hand p = Some k\<close> r assms show thesis
      by (intro that(2) [of k "UDPConnectionHandler k tc (tt_rtt s)"])
        (auto simp: handleUDPLoop_def UDPConnectionHandler_def)
  qed
qed

text \<open>The turns of the copy loops.\<close>

definition copies :: "nat \<Rightarrow> accept_port \<Rightarrow> accept_effect list \<Rightarrow> accept_port \<Rightarrow> bool" where
  "copies k p es q \<longleftrightarrow>
     (\<exists>c. ap_conns q = (ap_conns p)[k := c] \<and> same_conn (ap_conns p ! k) c)
     \<and> map uh_local (ap_handlers q) = map uh_local (ap_handlers p) \<and> ap_active q = ap_active p
     \<and> ap_hand q = ap_hand p \<and> ap_udpChan q = ap_udpChan p
     \<and> set es \<subseteq> range (AuToTCP k) \<union> range (AuToUDP k) \<union> range AuCloseTCP"

lemma same_conn_refl [simp]: "same_conn c c"
  by (simp add: same_conn_def)

lemma copies_off: "copies k p [] p"
  unfolding copies_def by (auto intro!: exI [of _ "ap_conns p ! k"])

lemma map_same_uh: "uh_local h = uh_local (ap_handlers p ! j) \<Longrightarrow>
    map uh_local ((ap_handlers p)[j := h]) = map uh_local (ap_handlers p)"
  by (cases "j < length (ap_handlers p)") (simp_all add: map_update list_update_same_conv list_update_beyond)

lemma copies_handler:
  assumes "ap_conns q = (ap_conns p)[k := c]" and "same_conn (ap_conns p ! k) c"
    and "map uh_local (ap_handlers q) = map uh_local (ap_handlers p)"
    and "ap_active q = ap_active p" and "ap_hand q = ap_hand p" and "ap_udpChan q = ap_udpChan p"
    and "set es \<subseteq> range (AuToTCP k) \<union> range (AuToUDP k) \<union> range AuCloseTCP"
  shows "copies k p es q"
  using assms by (auto simp: copies_def)

lemma udpToTCP_copies:
  assumes "udpToTCP j idle p = (es, q)"
  shows "copies (uh_local (ap_handlers p ! j)) p es q"
proof -
  let ?h = "ap_handlers p ! j"
  let ?c = "ap_conns p ! uh_local ?h"
  have stop: "copies (uh_local ?h) p [AuCloseTCP n] (p\<lparr>ap_handlers := (ap_handlers p)[j := ?h\<lparr>uh_out := False\<rparr>]\<rparr>)" for n
    by (rule copies_handler [where c = ?c]) (auto simp: map_same_uh)
  obtain r pl where r: "payload_recv (la_payload ?c) = (r, pl)" by (metis prod.exhaust)
  have c: "same_conn ?c (?c\<lparr>la_payload := pl\<rparr>)"
    using payload_recv_closed [OF r] by (simp add: same_conn_def)
  show ?thesis
  proof (cases "uh_out ?h \<and> \<not> idle")
    case False
    with assms stop copies_off show ?thesis by (auto simp: udpToTCP_def Let_def split: if_splits)
  next
    case True
    show ?thesis
    proof (cases r)
      case (Datagram data)
      obtain e w where w: "Write (server_packet data) (tn_wire (uh_tcp ?h)) = (e, w)" by (metis prod.exhaust)
      show ?thesis
      proof (cases "length data > 65535")
        case True
        with assms r Datagram \<open>uh_out ?h \<and> \<not> idle\<close> c show ?thesis by (auto simp: udpToTCP_def Let_def copies_def)
      next
        case False
        show ?thesis
        proof (cases e)
          case None
          with assms r w Datagram True False c show ?thesis
            by (intro copies_handler [where c = "?c\<lparr>la_payload := pl\<rparr>"]) (auto simp: udpToTCP_def Let_def map_same_uh)
        next
          case (Some x)
          with assms r w Datagram True False c show ?thesis
            by (intro copies_handler [where c = "?c\<lparr>la_payload := pl\<rparr>"]) (auto simp: udpToTCP_def Let_def map_same_uh)
        qed
      qed
    qed (use assms r True stop copies_off in \<open>auto simp: udpToTCP_def Let_def\<close>)
  qed
qed

lemma tcpToUDP_copies:
  assumes "tcpToUDP j now ok p = (es, q)"
  shows "copies (uh_local (ap_handlers p ! j)) p es q"
proof -
  let ?h = "ap_handlers p ! j"
  let ?c = "ap_conns p ! uh_local ?h"
  obtain r cg i where r: "server_read_packet (uh_rtt ?h) now (w_in (tn_wire (uh_tcp ?h))) = (r, cg, i)"
    by (metis prod.exhaust)
  let ?d = "?c\<lparr>la_IsCongested := la_IsCongested ?c \<or> cg\<rparr>"
  have d: "same_conn ?c ?d" by (simp add: same_conn_def)
  show ?thesis
  proof (cases "uh_in ?h")
    case False
    with assms copies_off show ?thesis by (simp add: tcpToUDP_def Let_def)
  next
    case True
    show ?thesis
    proof (cases r)
      case None
      with assms r d True show ?thesis
        by (intro copies_handler [where c = ?d]) (auto simp: tcpToUDP_def Let_def map_same_uh)
    next
      case (Some b)
      with assms r d True show ?thesis
        by (cases "b = []"; cases ok; intro copies_handler [where c = ?d]) (auto simp: tcpToUDP_def Let_def map_same_uh)
    qed
  qed
qed

lemma copies_all: "copies k p es q \<Longrightarrow> au_all q = au_all p"
  by (simp add: copies_def au_all_def)

lemma copies_inv:
  assumes "copies k p es q" and "au_inv p"
  shows "au_inv q \<and> AuPanic \<notin> set es"
proof -
  from assms(1) obtain c where "ap_conns q = (ap_conns p)[k := c]" "same_conn (ap_conns p ! k) c" "ap_active q = ap_active p"
    by (auto simp: copies_def)
  with copies_all [OF assms(1)] assms(2) have "au_inv q"
    by (intro au_inv_update [OF assms(2), of q k c]) (simp_all add: au_inv_def)
  with assms(1) show ?thesis by (auto simp: copies_def)
qed

lemma copies_stranded:
  assumes "copies j p es q" and "au_stranded k key p" and "j \<in> set (au_all p)"
  shows "au_stranded k key q \<and> (\<forall>x. AuToTCP k x \<notin> set es \<and> AuToUDP k x \<notin> set es)"
proof -
  have n: "j \<noteq> k" using assms(2,3) by (auto simp: au_stranded_def)
  from assms(1) obtain c where "ap_conns q = (ap_conns p)[j := c]" "same_conn (ap_conns p ! j) c" "ap_active q = ap_active p"
    by (auto simp: copies_def)
  with copies_all [OF assms(1)] n have "au_stranded k key q" by (intro au_stranded_update [OF assms(2), of q j c]) simp_all
  with assms(1) n show ?thesis by (auto simp: copies_def)
qed

text \<open>The end of a connection.\<close>

lemma handler_in_all: "j < length (ap_handlers p) \<Longrightarrow> uh_local (ap_handlers p ! j) \<in> set (au_all p)"
  by (simp add: au_all_def)

lemma UDPConnectionHandler_end_cases:
  assumes "UDPConnectionHandler_end j p = (es, q)" and "au_inv p" and "j < length (ap_handlers p)"
  obtains (running) "q = p" "es = []"
  | (ends) k r where "k = uh_local (ap_handlers p ! j)" "es = []" "ap_conns q = (ap_conns p)[k := (ap_conns p ! k)\<lparr>la_payload := r\<rparr>]"
      "ap_active q = (if la_IsCongested (ap_conns p ! k) then ap_active p
        else (ap_active p)(la_clientAddr (ap_conns p ! k) := None))"
      "set (au_all q) = set (au_all p) - {k}" "distinct (au_all q)" "ap_hand q = ap_hand p"
proof -
  let ?k = "uh_local (ap_handlers p ! j)"
  have k: "?k \<in> set (au_all p)" by (rule handler_in_all [OF assms(3)])
  with assms(2) have o: "la_open p ?k" by (simp add: au_inv_def)
  then obtain r where r: "payload_close (la_payload (ap_conns p ! ?k)) = Some r"
    by (simp add: payload_close_def la_open_def)
  show thesis
  proof (cases "uh_out (ap_handlers p ! j) \<or> uh_in (ap_handlers p ! j)")
    case True
    with assms(1) show thesis by (intro that(1)) (auto simp: UDPConnectionHandler_end_def Let_def)
  next
    case False
    let ?A = "(case ap_hand p of None \<Rightarrow> [] | Some k \<Rightarrow> [k]) @ ch_buf (ap_udpChan p) @ map uh_local (take j (ap_handlers p))"
    let ?B = "map uh_local (drop (Suc j) (ap_handlers p))"
    have q: "q = p\<lparr>ap_conns := (ap_conns p)[?k := (ap_conns p ! ?k)\<lparr>la_payload := r\<rparr>],
        ap_active := (if la_IsCongested (ap_conns p ! ?k) then ap_active p
          else (ap_active p)(la_clientAddr (ap_conns p ! ?k) := None)),
        ap_handlers := take j (ap_handlers p) @ drop (Suc j) (ap_handlers p)\<rparr>" "es = []"
      using assms(1) False r by (auto simp: UDPConnectionHandler_end_def Let_def)
    have "map uh_local (ap_handlers p) = map uh_local (take j (ap_handlers p)) @ ?k # ?B"
      by (subst id_take_nth_drop [OF assms(3)]) simp
    then have a: "au_all p = ?A @ ?k # ?B" "au_all q = ?A @ ?B" using q by (simp_all add: au_all_def)
    have "distinct (au_all p)" using assms(2) by (simp add: au_inv_def)
    with a have s: "set (au_all q) = set (au_all p) - {?k}" "distinct (au_all q)" by auto
    show thesis by (rule that(2) [OF refl _ _ _ s]) (use q in simp_all)
  qed
qed

lemma UDPConnectionHandler_end_inv:
  assumes "UDPConnectionHandler_end j p = (es, q)" and "au_inv p" and "j < length (ap_handlers p)"
  shows "au_inv q \<and> AuPanic \<notin> set es"
  using assms
proof (cases rule: UDPConnectionHandler_end_cases)
  case running
  with assms(2) show ?thesis by simp
next
  case (ends k r)
  have kin: "k \<in> set (au_all p)" using handler_in_all [OF assms(3)] ends(1) by simp
  have kk: "la_open p k" "la_IsCongested (ap_conns p ! k) \<or> ap_active p (la_clientAddr (ap_conns p ! k)) = Some k"
    using assms(2) kin by (auto simp: au_inv_def)
  have kl: "k < length (ap_conns p)" using kk(1) by (simp add: la_open_def)
  have e: "la_clientAddr (ap_conns q ! i) = la_clientAddr (ap_conns p ! i)"
    "la_IsCongested (ap_conns q ! i) = la_IsCongested (ap_conns p ! i)" for i
    unfolding ends(3) using kl by (simp_all add: nth_list_update)
  have o: "la_open q i = la_open p i" if "i \<noteq> k" for i using ends(3) that by (simp add: la_open_def)
  have len: "length (ap_conns q) = length (ap_conns p)" using ends(3) by simp
  have act: "ap_active q a = Some i \<Longrightarrow> ap_active p a = Some i" for a i
    using ends(4) by (auto split: if_splits)
  have "i < length (ap_conns q) \<and> la_clientAddr (ap_conns q ! i) = a \<and> (la_open q i \<or> la_IsCongested (ap_conns q ! i))"
    if a: "ap_active q a = Some i" for a i
  proof -
    from act [OF a] assms(2) have p: "i < length (ap_conns p)" "la_clientAddr (ap_conns p ! i) = a"
      "la_open p i \<or> la_IsCongested (ap_conns p ! i)" by (auto simp: au_inv_def)
    have "la_open p i \<longrightarrow> la_open q i \<or> la_IsCongested (ap_conns p ! i)"
    proof (cases "i = k")
      case True
      with a ends(4) p(2) have "la_IsCongested (ap_conns p ! i)" by (auto split: if_splits)
      then show ?thesis by simp
    qed (use o in simp)
    with p e len show ?thesis by auto
  qed
  moreover have "la_open q i \<and> (la_IsCongested (ap_conns q ! i) \<or> ap_active q (la_clientAddr (ap_conns q ! i)) = Some i)"
    if i: "i \<in> set (au_all q)" for i
  proof -
    from i ends(5) have ip: "i \<in> set (au_all p)" "i \<noteq> k" by auto
    with assms(2) have "la_open p i" "la_IsCongested (ap_conns p ! i) \<or> ap_active p (la_clientAddr (ap_conns p ! i)) = Some i"
      by (auto simp: au_inv_def)
    moreover from this(1) ip(2) o have "la_open q i" by simp
    moreover have "ap_active q (la_clientAddr (ap_conns p ! i)) = Some i"
      if "ap_active p (la_clientAddr (ap_conns p ! i)) = Some i"
    proof (cases "la_IsCongested (ap_conns p ! k)")
      case False
      with kk(2) that ip(2) have "la_clientAddr (ap_conns p ! i) \<noteq> la_clientAddr (ap_conns p ! k)" by auto
      with that False ends(4) show ?thesis by simp
    qed (use that ends(4) in simp)
    ultimately show ?thesis unfolding e by blast
  qed
  ultimately have "au_inv q" using ends(6) unfolding au_inv_def by blast
  with ends(2) show ?thesis by simp
qed

section \<open>Steps and runs\<close>

lemma au_step_inv:
  assumes "au_step (p, s) (es, q, t)" and "au_inv p"
  shows "au_inv q \<and> AuPanic \<notin> set es"
  using assms(1)
proof (cases rule: au_stepE)
  case (reads now a d req)
  from udpListener_read_inv [OF reads(2) assms(2)] show ?thesis .
next
  case takes
  have "distinct (au_all p)" using assms(2) by (simp add: au_inv_def)
  with au_inv_same [OF assms(2) handleUDPLoop_take_fields] takes show ?thesis by (simp add: handleUDPLoop_take_all)
next
  case pairs
  then show ?thesis
  proof (cases rule: handleUDPLoop_cases)
    case same
    with assms(2) show ?thesis by auto
  next
    case (paired k h)
    then have a: "set (au_all q) = set (au_all p)" "distinct (au_all p) \<Longrightarrow> distinct (au_all q)"
      by (auto simp: au_all_def)
    have "distinct (au_all p)" using assms(2) by (simp add: au_inv_def)
    with a paired(2) have "au_inv q" by (intro au_inv_same [OF assms(2)]) simp_all
    with paired(4) show ?thesis by auto
  qed
next
  case (outward j idle)
  show ?thesis by (rule copies_inv [OF udpToTCP_copies [OF outward(3)] assms(2)])
next
  case (inward j now ok)
  show ?thesis by (rule copies_inv [OF tcpToUDP_copies [OF inward(3)] assms(2)])
next
  case (ends j)
  show ?thesis by (rule UDPConnectionHandler_end_inv [OF ends(3) assms(2) ends(2)])
qed (use assms(2) in simp)

lemma au_run_inv:
  "au_run u es v \<Longrightarrow> au_inv (fst u) \<Longrightarrow> au_inv (fst v) \<and> AuPanic \<notin> set es"
proof (induction rule: au_run.induct)
  case (au_more es t fs w)
  with au_step_inv [of "fst t" "snd t" fs "fst w" "snd w"] show ?case by simp
qed simp

lemma au_inv_start: "au_inv (udpListener_start s a)"
  by (simp add: au_inv_def udpListener_start_def au_all_def make_chan_def)

text \<open>An entry that is stranded stays so.\<close>

definition silent :: "nat \<Rightarrow> accept_effect list \<Rightarrow> bool" where
  "silent k es \<longleftrightarrow> (\<forall>x. AuToTCP k x \<notin> set es \<and> AuToUDP k x \<notin> set es)"

lemma udpListener_read_stranded:
  assumes "udpListener_read now a d p req = (es, q, req')" and "au_inv p" and st: "au_stranded k key p"
  shows "au_stranded k key q \<and> silent k es"
  using assms(1,2)
proof (cases rule: udpListener_read_cases)
  case (known j r)
  have "same_conn (ap_conns p ! j) ((ap_conns p ! j)\<lparr>la_payload := r\<rparr>)"
    using payload_send_cases [OF known(3)] by (simp add: same_conn_def)
  with known(5) have "au_stranded k key q"
    using st by (intro au_stranded_update [OF st, of q j "(ap_conns p ! j)\<lparr>la_payload := r\<rparr>"]) (simp_all add: au_all_def)
  with known(4) show ?thesis by (simp add: silent_def)
next
  case (queued ch c)
  have b: "ch_buf ch = ch_buf (ap_udpChan p) @ [length (ap_conns p)]" using go_chan.send_ok [OF queued(1)] by simp
  have n: "a \<noteq> key" using queued(2) st by (auto simp: au_stranded_def)
  with st b queued(6) have "au_stranded k key q" by (auto simp: au_stranded_def au_all_def nth_append split: option.splits)
  with queued(7) show ?thesis by (simp add: silent_def)
next
  case (full ch c)
  have n: "a \<noteq> key" using full(2) st by (auto simp: au_stranded_def)
  with st full(6) have "au_stranded k key q" by (auto simp: au_stranded_def au_all_def nth_append)
  with full(7) show ?thesis by (simp add: silent_def)
qed

lemma UDPConnectionHandler_end_stranded:
  assumes "UDPConnectionHandler_end j p = (es, q)" and "au_inv p" and "j < length (ap_handlers p)"
    and st: "au_stranded k key p"
  shows "au_stranded k key q \<and> silent k es"
  using assms(1-3)
proof (cases rule: UDPConnectionHandler_end_cases)
  case running
  with st show ?thesis by (simp add: silent_def)
next
  case (ends i r)
  have iin: "i \<in> set (au_all p)" using handler_in_all [OF assms(3)] ends(1) by simp
  then have n: "i \<noteq> k" using st by (auto simp: au_stranded_def)
  have "la_IsCongested (ap_conns p ! i) \<or> ap_active p (la_clientAddr (ap_conns p ! i)) = Some i"
    using assms(2) iin by (simp add: au_inv_def)
  with n st have "ap_active q key = Some k" using ends(4) by (auto simp: au_stranded_def)
  with st n ends(3,5) show ?thesis using ends(2) by (simp add: au_stranded_def silent_def)
qed

lemma au_stranded_same:
  "au_stranded k key p \<Longrightarrow> ap_conns q = ap_conns p \<Longrightarrow> ap_active q = ap_active p \<Longrightarrow> set (au_all q) = set (au_all p)
    \<Longrightarrow> au_stranded k key q"
  by (simp add: au_stranded_def)

lemma au_step_stranded:
  assumes "au_step (p, s) (es, q, t)" and "au_inv p" and st: "au_stranded k key p"
  shows "au_stranded k key q \<and> silent k es"
  using assms(1)
proof (cases rule: au_stepE)
  case (reads now a d req)
  from udpListener_read_stranded [OF reads(2) assms(2) st] show ?thesis .
next
  case takes
  with au_stranded_same [OF st handleUDPLoop_take_fields] show ?thesis by (simp add: handleUDPLoop_take_all silent_def)
next
  case pairs
  then show ?thesis
  proof (cases rule: handleUDPLoop_cases)
    case same
    with st show ?thesis by (auto simp: silent_def)
  next
    case (paired i h)
    then have "set (au_all q) = set (au_all p)" by (auto simp: au_all_def)
    with paired(2) have "au_stranded k key q" by (intro au_stranded_same [OF st]) simp_all
    with paired(4) show ?thesis by (auto simp: silent_def)
  qed
next
  case (outward j idle)
  from copies_stranded [OF udpToTCP_copies [OF outward(3)] st handler_in_all [OF outward(2)]] show ?thesis by (simp add: silent_def)
next
  case (inward j now ok)
  from copies_stranded [OF tcpToUDP_copies [OF inward(3)] st handler_in_all [OF inward(2)]] show ?thesis by (simp add: silent_def)
next
  case (ends j)
  show ?thesis by (rule UDPConnectionHandler_end_stranded [OF ends(3) assms(2) ends(2) st])
qed (use st in \<open>simp add: silent_def\<close>)

lemma au_run_stranded:
  "au_run u es v \<Longrightarrow> au_inv (fst u) \<Longrightarrow> au_stranded k key (fst u) \<Longrightarrow> au_stranded k key (fst v) \<and> silent k es"
proof (induction rule: au_run.induct)
  case au_idle
  then show ?case by (simp add: silent_def)
next
  case (au_more es t fs w)
  have "au_inv (fst t)" using au_run_inv au_more by blast
  with au_step_stranded [of "fst t" "snd t" fs "fst w" "snd w" k key] au_more show ?case by (simp add: silent_def)
qed

section \<open>Properties\<close>



text \<open>C33: no goroutine of a UDP port over TCP panics: in every interleaving of the listener, the
  handler and the copy loops, no datagram is sent on a closed payload channel, and no payload channel
  is closed twice.\<close>

theorem accept_udp_never_panics:
  assumes "au_run (udpListener_start s remoteAddr, t) es v"
  shows "AuPanic \<notin> set es"
  using au_run_inv [OF assms] au_inv_start by simp

theorem accept_udp_never_panics_witness:
  "\<exists>es v. au_run (udpListener_start (NewTCPServer demo_tcp_config) ''53'', NewTCPServer demo_tcp_config) es v
     \<and> es = [AuBuffered 0 ''q''] \<and> AuPanic \<notin> set es"
proof -
  let ?s = "NewTCPServer demo_tcp_config"
  let ?p = "udpListener_start ?s ''53''"
  obtain q r where r: "udpListener_read 0 ''u'' ''q'' ?p (tt_reqNewConnChan ?s) = ([AuBuffered 0 ''q''], q, r)"
    by (simp add: udpListener_read_def udpListener_start_def NewTCPServer_def demo_tcp_config_def Let_def
        try_send_def make_chan_def BufferSize_def)
  from au_more [OF au_idle au_step.intros(1) [OF r]] accept_udp_never_panics [of ?s "''53''" ?s] show ?thesis
    by (metis append_Nil)
qed

text \<open>A user whose first datagram meets a full queue is not served again.  The listener has
  registered the connection before it finds the queue full, and it drops the datagram; from there on,
  in every run, the entry stays in the map of active connections, and none of its datagrams, which
  are all taken as those of a known connection, is sent to the tunnel.\<close>

theorem accept_udp_full_queue_strands:
  assumes "au_run (udpListener_start s0 remoteAddr, t0) es0 (p, s)" and "ap_active p key = None"
    and "length (ch_buf (ap_udpChan p)) = ch_cap (ap_udpChan p)"
    and "udpListener_read now key d p (tt_reqNewConnChan s) = (es, q, req)"
    and "au_run (q, s) fs (p', s')"
  shows "es = [] \<and> ap_active p' key = Some (length (ap_conns p))
    \<and> (\<forall>x. AuToTCP (length (ap_conns p)) x \<notin> set fs \<and> AuToUDP (length (ap_conns p)) x \<notin> set fs)"
proof -
  have inv: "au_inv p" using au_run_inv [OF assms(1)] au_inv_start by simp
  have f: "try_send k (ap_udpChan p) = (False, ap_udpChan p)" for k using assms(3) by (simp add: try_send_def)
  with assms(2,4) have es: "es = []" and q: "ap_active q key = Some (length (ap_conns p))"
    "length (ap_conns q) = Suc (length (ap_conns p))" "la_clientAddr (ap_conns q ! length (ap_conns p)) = key"
    "\<not> la_IsCongested (ap_conns q ! length (ap_conns p))" "au_all q = au_all p"
    by (auto simp: udpListener_read_def Let_def au_all_def)
  have "au_inv q" using udpListener_read_inv [OF assms(4) inv] by simp
  moreover have "au_stranded (length (ap_conns p)) key q"
    using q au_all_bound [OF inv] by (simp add: au_stranded_def)
  ultimately have "au_stranded (length (ap_conns p)) key p' \<and> silent (length (ap_conns p)) fs"
    using au_run_stranded [OF assms(5)] by simp
  with es show ?thesis by (simp add: au_stranded_def silent_def)
qed

definition no_queue_server :: TcpTransport where
  "no_queue_server = NewTCPServer (demo_tcp_config\<lparr>tcp_ChannelSize := 0\<rparr>)"

theorem accept_udp_full_queue_strands_witness:
  "\<exists>q req es r. udpListener_read 0 ''u'' ''q'' (udpListener_start no_queue_server ''53'') (tt_reqNewConnChan no_queue_server) = ([], q, req)
     \<and> udpListener_read 1 ''u'' ''r'' q (tt_reqNewConnChan no_queue_server) = (es, r, tt_reqNewConnChan no_queue_server)
     \<and> es = [AuBuffered 0 ''r''] \<and> ap_active r ''u'' = Some 0"
proof -
  let ?s = no_queue_server and ?p = "udpListener_start no_queue_server ''53''"
  have c: "tcp_ChannelSize (tt_config ?s) = 0" by (simp add: no_queue_server_def NewTCPServer_def)
  obtain es q req where r: "udpListener_read 0 ''u'' ''q'' ?p (tt_reqNewConnChan ?s) = (es, q, req)" by (metis prod.exhaust)
  have p: "ap_active ?p ''u'' = None" "length (ch_buf (ap_udpChan ?p)) = ch_cap (ap_udpChan ?p)" "ap_conns ?p = []"
    using c by (simp_all add: udpListener_start_def make_chan_def)
  obtain r where r2: "udpListener_read 1 ''u'' ''r'' q (tt_reqNewConnChan ?s) = ([AuBuffered 0 ''r''], r, tt_reqNewConnChan ?s)"
    using r c by (auto simp: udpListener_read_def udpListener_start_def make_chan_def try_send_def Let_def
        BufferSize_def payload_send_def new_payload_def)
  note S = accept_udp_full_queue_strands [OF au_idle p(1,2) r au_more [OF au_idle au_step.intros(1) [OF r2]]]
  from S p(3) r r2 show ?thesis by auto
qed

end
