(* ===== verification/Relay.thy ===== *)
theory Relay
  imports Wire Websocket
begin

text \<open>
  The relays, \<^verbatim>\<open>internal/utils/tcpConnHandler.go\<close>, \<^verbatim>\<open>quicConnHandler.go\<close> and \<^verbatim>\<open>wsConnHandler.go\<close>: two
  goroutines that each copy one direction, until a read or a write fails; the one that ends closes
  both connections.  One turn of a copy loop is one step; the directions interleave in any order.
\<close>

section \<open>One direction\<close>

definition copy_buffer :: "int \<Rightarrow> nat" where
  "copy_buffer copyBufferSize = (if copyBufferSize \<le> 0 then 16 * 1024 else nat copyBufferSize)"

lemma copy_buffer_pos [simp]: "0 < copy_buffer n"
  by (simp add: copy_buffer_def)

text \<open>A turn: whether the loop goes on, the bytes it counts, and both ends.  What a read delivers
  together with an error is not written.\<close>

definition transfer_turn :: "nat \<Rightarrow> wire \<Rightarrow> wire \<Rightarrow> bool \<times> nat \<times> wire \<times> wire" where
  "transfer_turn k from to =
     (case Read k (w_in from) of ((buf, err), i) \<Rightarrow>
        let from = from\<lparr>w_in := i\<rparr> in
        if err \<noteq> None then (False, 0, from, to)
        else if length buf = 0 then (True, 0, from, to)
        else (case Write buf to of
                (Some _, to) \<Rightarrow> (False, 0, from, to)
              | (None, to) \<Rightarrow> (True, length buf, from, to)))"

definition script_size :: "wire \<Rightarrow> nat" where
  "script_size w = length (w_in w) + length (pending (w_in w))"

lemma transfer_turn_less:
  assumes "transfer_turn k from to = (True, n, from', to')" and "0 < k"
  shows "script_size from' < script_size from"
proof -
  obtain b e i where r: "Read k (w_in from) = ((b, e), i)" by (metis prod.exhaust)
  with assms(1) have e: "e = None" and f: "from' = from\<lparr>w_in := i\<rparr>"
    by (auto simp: transfer_turn_def Let_def split: if_splits prod.splits option.splits)
  from Read_progress [OF r [unfolded e]] Read_None_pending [OF r] assms(2) f show ?thesis
    by (auto simp: script_size_def)
qed

text \<open>The loop as it runs while nobody closes its connections.\<close>

function transferData :: "int \<Rightarrow> wire \<Rightarrow> wire \<Rightarrow> nat \<times> wire \<times> wire" where
  "transferData copyBufferSize from to =
     (case transfer_turn (copy_buffer copyBufferSize) from to of
        (False, n, from, to) \<Rightarrow> (n, from, to)
      | (True, n, from, to) \<Rightarrow> (case transferData copyBufferSize from to of (m, from, to) \<Rightarrow> (n + m, from, to)))"
  by pat_completeness auto

termination
  by (relation "measure (\<lambda>(_, from, _). script_size from)")
    (auto dest!: sym [of "(True, _)"] transfer_turn_less)

declare transferData.simps [simp del]

section \<open>Both directions\<close>

text \<open>A relay: the two ends, whether they are closed, which loops still run (from the first to the
  second, and back), and the bytes counted for the port when the sniffer is on.\<close>

record relay =
  rl_from :: wire
  rl_to :: wire
  rl_closed :: bool
  rl_there :: bool
  rl_back :: bool
  rl_usage :: nat

definition start_relay :: "wire \<Rightarrow> wire \<Rightarrow> relay" where
  "start_relay from to =
     \<lparr>rl_from = from, rl_to = to, rl_closed = False, rl_there = True, rl_back = True, rl_usage = 0\<rparr>"

text \<open>A turn of the loop there (\<open>True\<close>) or back; on closed connections a read fails.\<close>

definition relay_turn :: "nat \<Rightarrow> bool \<Rightarrow> relay \<Rightarrow> relay" where
  "relay_turn k there s =
     (if there then
        if \<not> rl_there s then s
        else if rl_closed s then s\<lparr>rl_there := False\<rparr>
        else (case transfer_turn k (rl_from s) (rl_to s) of (r, n, from, to) \<Rightarrow>
                s\<lparr>rl_from := from, rl_to := to, rl_there := r, rl_closed := \<not> r, rl_usage := rl_usage s + n\<rparr>)
      else
        if \<not> rl_back s then s
        else if rl_closed s then s\<lparr>rl_back := False\<rparr>
        else (case transfer_turn k (rl_to s) (rl_from s) of (r, n, to, from) \<Rightarrow>
                s\<lparr>rl_from := from, rl_to := to, rl_back := r, rl_closed := \<not> r, rl_usage := rl_usage s + n\<rparr>))"

text \<open>The handlers, in the order their goroutines take turns; they return when both loops have.\<close>

definition TCPConnectionHandler :: "int \<Rightarrow> bool list \<Rightarrow> wire \<Rightarrow> wire \<Rightarrow> relay" where
  "TCPConnectionHandler copyBufferSize turns from to =
     fold (relay_turn (copy_buffer copyBufferSize)) turns (start_relay from to)"

text \<open>Closing a QUIC stream closes its sending side only: the loop back then still reads, and ends with
  the first bytes it cannot write to the closed TCP connection, or with an error.\<close>

definition q1transferData :: "bool \<Rightarrow> relay \<Rightarrow> relay" where
  "q1transferData there s =
     (if \<not> there \<and> rl_back s \<and> rl_closed s then
        (case Read (16 * 1024) (w_in (rl_to s)) of ((buf, err), i) \<Rightarrow>
           s\<lparr>rl_to := (rl_to s)\<lparr>w_in := i\<rparr>, rl_back := (err = None \<and> length buf = 0)\<rparr>)
      else relay_turn (16 * 1024) there s)"

definition QConnectionHandler :: "bool list \<Rightarrow> wire \<Rightarrow> wire \<Rightarrow> relay" where
  "QConnectionHandler turns from to = fold q1transferData turns (start_relay from to)"

definition returned :: "relay \<Rightarrow> bool" where
  "returned s \<longleftrightarrow> \<not> rl_there s \<and> \<not> rl_back s"

section \<open>Websocket and TCP\<close>

text \<open>The messages that arrive, then an error.\<close>

fun message_bytes :: "ws_message \<Rightarrow> string" where
  "message_bytes (BinaryMessage b) = b"
| "message_bytes (TextMessage b) = b"

record ws_relay =
  wr_ws :: ws_conn
  wr_in :: "ws_message list"
  wr_tcp :: wire
  wr_closed :: bool
  wr_toTCP :: bool
  wr_toWS :: bool
  wr_usage :: nat

definition transferWebSocketToTCP :: "ws_relay \<Rightarrow> ws_relay" where
  "transferWebSocketToTCP s =
     (if \<not> wr_toTCP s then s
      else if wr_closed s then s\<lparr>wr_toTCP := False\<rparr>
      else case wr_in s of
        [] \<Rightarrow> s\<lparr>wr_toTCP := False, wr_closed := True\<rparr>
      | m # ms \<Rightarrow>
          (case Write (message_bytes m) (wr_tcp s) of
             (Some _, w) \<Rightarrow> s\<lparr>wr_in := ms, wr_tcp := w, wr_toTCP := False, wr_closed := True\<rparr>
           | (None, w) \<Rightarrow> s\<lparr>wr_in := ms, wr_tcp := w, wr_usage := wr_usage s + length (message_bytes m)\<rparr>))"

definition transferTCPToWebSocket :: "ws_relay \<Rightarrow> ws_relay" where
  "transferTCPToWebSocket s =
     (if \<not> wr_toWS s then s
      else if wr_closed s then s\<lparr>wr_toWS := False\<rparr>
      else case Read (16 * 1024) (w_in (wr_tcp s)) of ((buf, err), i) \<Rightarrow>
        let s = s\<lparr>wr_tcp := (wr_tcp s)\<lparr>w_in := i\<rparr>\<rparr> in
        if err \<noteq> None then s\<lparr>wr_toWS := False, wr_closed := True\<rparr>
        else (case WriteMessage (BinaryMessage buf) (wr_ws s) of
                (False, c) \<Rightarrow> s\<lparr>wr_ws := c, wr_toWS := False, wr_closed := True\<rparr>
              | (True, c) \<Rightarrow> s\<lparr>wr_ws := c, wr_usage := wr_usage s + length buf\<rparr>))"

definition WSConnectionHandler :: "bool list \<Rightarrow> ws_relay \<Rightarrow> ws_relay" where
  "WSConnectionHandler turns s =
     fold (\<lambda>toTCP. if toTCP then transferWebSocketToTCP else transferTCPToWebSocket) turns s"

end
