(* ===== verification/Relay_Spec.thy ===== *)
theory Relay_Spec
  imports Relay "HOL-Library.Sublist"
begin

text \<open>
  What the relays promise: each end receives a prefix of what the other sent, in every
  interleaving of the two loops; the handler returns; and what is lost when one side is done
  before the other, or sends its last bytes together with the end of its stream.
\<close>

section \<open>One direction\<close>

lemma transfer_turn_cases:
  assumes "transfer_turn k from to = (r, n, from', to')"
  obtains (error) b e i where "Read k (w_in from) = ((b, Some e), i)" "\<not> r" "n = 0" "from' = from\<lparr>w_in := i\<rparr>" "to' = to"
  | (empty) i where "Read k (w_in from) = (([], None), i)" "r" "n = 0" "from' = from\<lparr>w_in := i\<rparr>" "to' = to"
  | (written) b i where "Read k (w_in from) = ((b, None), i)" "b \<noteq> []" "w_fail to = None" "r" "n = length b"
      "from' = from\<lparr>w_in := i\<rparr>" "to' = to\<lparr>w_out := w_out to @ b\<rparr>"
  | (failed) b i e m where "Read k (w_in from) = ((b, None), i)" "b \<noteq> []" "w_fail to = Some (e, m)" "\<not> r" "n = 0"
      "from' = from\<lparr>w_in := i\<rparr>" "to' = to\<lparr>w_out := w_out to @ take m b\<rparr>"
proof -
  obtain b e i where rd: "Read k (w_in from) = ((b, e), i)" by (metis prod.exhaust)
  show thesis
  proof (cases e)
    case (Some x)
    with rd assms show thesis by (intro that(1)) (auto simp: transfer_turn_def)
  next
    case None
    show thesis
    proof (cases "b = []")
      case True
      with rd None assms show thesis by (intro that(2)) (auto simp: transfer_turn_def)
    next
      case False
      show thesis
      proof (cases "w_fail to")
        case (Some x)
        with False rd None assms show thesis
          by (cases x, intro that(4)) (auto simp: transfer_turn_def Write_def)
      qed (use False rd None assms in \<open>intro that(3), auto simp: transfer_turn_def Write_def\<close>)
    qed
  qed
qed

text \<open>Of what was still to come, \<open>x\<close> was written and \<open>l\<close> is lost.\<close>

lemma transfer_turn_passes:
  assumes "transfer_turn k from to = (r, n, from', to')"
  shows "\<exists>x l. w_out to' = w_out to @ x \<and> pending (w_in from) = x @ l @ pending (w_in from') \<and> w_out from' = w_out from
    \<and> w_in to' = w_in to \<and> w_fail from' = w_fail from \<and> w_fail to' = w_fail to \<and> (r \<longrightarrow> l = []) \<and> n \<le> length x
    \<and> (w_fail to = None \<longrightarrow> n = length x)"
  using assms
proof (cases rule: transfer_turn_cases)
  case (error b e i)
  with Read_None_pending [OF error(1)] show ?thesis by (intro exI [of _ "[]"] exI [of _ b]) simp
next
  case (empty i)
  with Read_None_pending [OF empty(1)] show ?thesis by (intro exI [of _ "[]"]) simp
next
  case (written b i)
  with Read_None_pending [OF written(1)] show ?thesis by (intro exI [of _ b] exI [of _ "[]"]) simp
next
  case (failed b i e m)
  with Read_None_pending [OF failed(1)] show ?thesis by (intro exI [of _ "take m b"] exI [of _ "drop m b"]) simp
qed

lemma no_error_Read_end:
  "no_error c \<Longrightarrow> Read k c = ((b, Some e), i) \<Longrightarrow> pending c = [] \<and> b = []"
  by (cases c) (auto simp: Read_def split: if_splits)

lemma transferData_complete:
  "no_error (w_in from) \<Longrightarrow> w_fail to = None \<Longrightarrow> transferData n from to = (m, from', to')
    \<Longrightarrow> w_out to' = w_out to @ pending (w_in from) \<and> m = length (pending (w_in from))"
proof (induction n "from" to arbitrary: m from' to' rule: transferData.induct)
  case (1 n "from" to)
  obtain r k f t where u: "transfer_turn (copy_buffer n) from to = (r, k, f, t)" by (metis prod.exhaust)
  show ?case
  proof (cases r)
    case True
    from u True obtain b i where b: "Read (copy_buffer n) (w_in from) = ((b, None), i)" "f = from\<lparr>w_in := i\<rparr>"
      "w_out t = w_out to @ b" "k = length b" "w_fail t = None" using "1.prems"(2)
      by (cases rule: transfer_turn_cases) auto
    obtain m' where r': "transferData n f t = (m', from', to')" "m = k + m'"
      using "1.prems"(3) u True by (auto simp: transferData.simps [of n "from"] split: prod.splits)
    have "no_error (w_in f)" using no_error_Read [OF "1.prems"(1) b(1)] b(2) by simp
    from "1.IH" [OF u [symmetric] _ _ _ this b(5) r'(1)] True b Read_None_pending [OF b(1)] r'(2)
    show ?thesis by auto
  next
    case False
    from u False obtain b e i where "Read (copy_buffer n) (w_in from) = ((b, Some e), i)" "t = to" "k = 0"
      using "1.prems"(2) by (cases rule: transfer_turn_cases) auto
    with no_error_Read_end [OF "1.prems"(1) this(1)] False u "1.prems"(3) show ?thesis
      by (auto simp: transferData.simps [of n "from"])
  qed
qed

section \<open>Both directions\<close>

text \<open>There, \<open>x\<close> was written and \<open>l\<close> is lost; back, \<open>y\<close> and \<open>m\<close>.\<close>

definition relay_hist :: "wire \<Rightarrow> wire \<Rightarrow> relay \<Rightarrow> string \<Rightarrow> string \<Rightarrow> string \<Rightarrow> string \<Rightarrow> bool" where
  "relay_hist f t s x l y m \<longleftrightarrow>
     w_out (rl_to s) = w_out t @ x \<and> pending (w_in f) = x @ l @ pending (w_in (rl_from s))
     \<and> w_out (rl_from s) = w_out f @ y \<and> pending (w_in t) = y @ m @ pending (w_in (rl_to s))
     \<and> (\<not> rl_closed s \<longrightarrow> l = [] \<and> m = [] \<and> rl_there s \<and> rl_back s)
     \<and> rl_usage s \<le> length x + length y
     \<and> (w_fail f = None \<and> w_fail t = None \<longrightarrow> rl_usage s = length x + length y)
     \<and> w_fail (rl_from s) = w_fail f \<and> w_fail (rl_to s) = w_fail t"

definition relay_inv :: "wire \<Rightarrow> wire \<Rightarrow> relay \<Rightarrow> bool" where
  "relay_inv f t s \<longleftrightarrow> (\<exists>x l y m. relay_hist f t s x l y m)"

lemma relay_inv_start: "relay_inv f t (start_relay f t)"
  unfolding relay_inv_def by (rule exI [of _ "[]"])+ (simp add: relay_hist_def start_relay_def)

lemma relay_hist_turn_there:
  assumes "relay_hist f t s x l y m" and "rl_there s" and "\<not> rl_closed s"
  shows "\<exists>x l. relay_hist f t (relay_turn k True s) x l y m"
proof -
  obtain r n f' t' where u: "transfer_turn k (rl_from s) (rl_to s) = (r, n, f', t')" by (metis prod.exhaust)
  from transfer_turn_passes [OF u] obtain z l' where z: "w_out t' = w_out (rl_to s) @ z"
    "pending (w_in (rl_from s)) = z @ l' @ pending (w_in f')" "w_out f' = w_out (rl_from s)" "w_in t' = w_in (rl_to s)"
    "w_fail f' = w_fail (rl_from s)" "w_fail t' = w_fail (rl_to s)" "r \<longrightarrow> l' = []" "n \<le> length z"
    "w_fail (rl_to s) = None \<longrightarrow> n = length z" by (elim exE conjE) (rule that)
  have "relay_turn k True s = s\<lparr>rl_from := f', rl_to := t', rl_there := r, rl_closed := \<not> r, rl_usage := rl_usage s + n\<rparr>"
    using assms u by (simp add: relay_turn_def)
  with assms z have "relay_hist f t (relay_turn k True s) (x @ z) l' y m"
    unfolding relay_hist_def by (auto simp: add.assoc)
  then show ?thesis by blast
qed

text \<open>The two directions are mirror images.\<close>

definition mirror :: "relay \<Rightarrow> relay" where
  "mirror s = s\<lparr>rl_from := rl_to s, rl_to := rl_from s, rl_there := rl_back s, rl_back := rl_there s\<rparr>"

lemma mirror_mirror [simp]: "mirror (mirror s) = s"
  by (simp add: mirror_def)

lemma mirror_turn: "relay_turn k False s = mirror (relay_turn k True (mirror s))"
  by (simp add: relay_turn_def mirror_def split: prod.splits)

lemma mirror_hist: "relay_hist f t s x l y m \<Longrightarrow> relay_hist t f (mirror s) y m x l"
  by (simp add: relay_hist_def mirror_def add.commute)

lemma relay_hist_closed: "relay_hist f t s x l y m \<Longrightarrow> rl_closed s \<Longrightarrow> relay_hist f t (s\<lparr>rl_there := a, rl_back := b\<rparr>) x l y m"
  by (simp add: relay_hist_def)

lemma relay_inv_turn:
  assumes "relay_inv f t s"
  shows "relay_inv f t (relay_turn k d s)"
proof -
  from assms obtain x l y m where h: "relay_hist f t s x l y m" by (auto simp: relay_inv_def)
  show ?thesis
  proof (cases "rl_closed s")
    case True
    have "relay_turn k d s = s\<lparr>rl_there := rl_there s \<and> \<not> d, rl_back := rl_back s \<and> d\<rparr>"
      using True by (cases d; simp add: relay_turn_def)
    with relay_hist_closed [OF h True] have "relay_hist f t (relay_turn k d s) x l y m" by simp
    then show ?thesis unfolding relay_inv_def by blast
  next
    case False
    with h have r: "rl_there s" "rl_back s" by (simp_all add: relay_hist_def)
    show ?thesis
    proof (cases d)
      case True
      with relay_hist_turn_there [OF h r(1) False, of k] show ?thesis unfolding relay_inv_def by (simp, blast)
    next
      case bk: False
      have "rl_there (mirror s)" "\<not> rl_closed (mirror s)" using r False by (simp_all add: mirror_def)
      from relay_hist_turn_there [OF mirror_hist [OF h] this] obtain y' m' where
        "relay_hist t f (relay_turn k True (mirror s)) y' m' x l" by blast
      from mirror_hist [OF this] bk show ?thesis by (auto simp: mirror_turn relay_inv_def)
    qed
  qed
qed

lemma relay_inv_fold: "relay_inv f t s \<Longrightarrow> relay_inv f t (fold (relay_turn k) turns s)"
  by (induction turns arbitrary: s) (simp_all add: relay_inv_turn)

section \<open>The end of a relay\<close>

lemma relay_turn_closed:
  assumes "rl_closed s"
  shows "rl_closed (relay_turn k d s) \<and> w_out (rl_to (relay_turn k d s)) = w_out (rl_to s)
    \<and> w_out (rl_from (relay_turn k d s)) = w_out (rl_from s)"
  using assms by (simp add: relay_turn_def)

lemma relay_fold_closed:
  "rl_closed s \<Longrightarrow> rl_closed (fold (relay_turn k) turns s) \<and> w_out (rl_to (fold (relay_turn k) turns s)) = w_out (rl_to s)
    \<and> w_out (rl_from (fold (relay_turn k) turns s)) = w_out (rl_from s)"
proof (induction turns arbitrary: s)
  case (Cons d turns)
  with relay_turn_closed [OF Cons.prems, of k d] show ?case by simp
qed simp







text \<open>Turns of one direction alone.\<close>

lemma relay_alone:
  "no_error (w_in (rl_from s)) \<Longrightarrow> w_fail (rl_to s) = None \<Longrightarrow> rl_there s \<Longrightarrow> \<not> rl_closed s
    \<Longrightarrow> script_size (rl_from s) < j \<Longrightarrow> 0 < k
    \<Longrightarrow> w_out (rl_to (fold (relay_turn k) (replicate j True) s)) = w_out (rl_to s) @ pending (w_in (rl_from s))
      \<and> w_out (rl_from (fold (relay_turn k) (replicate j True) s)) = w_out (rl_from s)
      \<and> rl_closed (fold (relay_turn k) (replicate j True) s)"
proof (induction j arbitrary: s)
  case (Suc j)
  obtain r n f t where u: "transfer_turn k (rl_from s) (rl_to s) = (r, n, f, t)" by (metis prod.exhaust)
  let ?s = "s\<lparr>rl_from := f, rl_to := t, rl_there := r, rl_closed := \<not> r, rl_usage := rl_usage s + n\<rparr>"
  have q: "relay_turn k True s = ?s" using Suc.prems(3,4) u by (simp add: relay_turn_def)
  show ?case
  proof (cases r)
    case True
    from u True obtain b i where b: "Read k (w_in (rl_from s)) = ((b, None), i)" "f = (rl_from s)\<lparr>w_in := i\<rparr>"
      "w_out t = w_out (rl_to s) @ b" "w_fail t = None" using Suc.prems(2) by (cases rule: transfer_turn_cases) auto
    have "no_error (w_in f)" using no_error_Read [OF Suc.prems(1) b(1)] b(2) by simp
    moreover have "transfer_turn k (rl_from s) (rl_to s) = (True, n, f, t)" using u True by simp
    from transfer_turn_less [OF this Suc.prems(6)] Suc.prems(5) have "script_size f < j" by simp
    ultimately show ?thesis
      using Suc.IH [of ?s] Suc.prems(6) b Read_None_pending [OF b(1)] q True by simp
  next
    case False
    from u False obtain b e i where e: "Read k (w_in (rl_from s)) = ((b, Some e), i)" "t = rl_to s" "f = (rl_from s)\<lparr>w_in := i\<rparr>"
      using Suc.prems(2) by (cases rule: transfer_turn_cases) auto
    have "rl_closed ?s" using False by simp
    from relay_fold_closed [OF this, of k "replicate j True"] q e no_error_Read_end [OF Suc.prems(1) e(1)]
    show ?thesis by simp
  qed
qed simp

text \<open>The loop there runs until its end before the loop back does anything.\<close>

lemma relay_first:
  assumes "no_error (w_in f)" and "w_fail t = None" and "script_size f < j"
  shows "w_out (rl_to (TCPConnectionHandler n (replicate j True @ turns) f t)) = w_out t @ pending (w_in f)
    \<and> w_out (rl_from (TCPConnectionHandler n (replicate j True @ turns) f t)) = w_out f"
proof -
  let ?s = "fold (relay_turn (copy_buffer n)) (replicate j True) (start_relay f t)"
  have "w_out (rl_to ?s) = w_out t @ pending (w_in f) \<and> w_out (rl_from ?s) = w_out f \<and> rl_closed ?s"
    using relay_alone [of "start_relay f t" j "copy_buffer n"] assms by (simp add: start_relay_def)
  with relay_fold_closed [of ?s "copy_buffer n" turns] show ?thesis by (simp add: TCPConnectionHandler_def)
qed

section \<open>Properties\<close>

text \<open>C34: a relay changes nothing: in every interleaving of its two loops, whatever errors the ends
  report, what either end has received is a prefix of what the other end sent, byte by byte; and the
  bytes counted for the port are those written, exactly when no write failed.\<close>

theorem relay_transparent:
  "\<exists>x y. w_out (rl_to (TCPConnectionHandler n turns f t)) = w_out t @ x \<and> prefix x (pending (w_in f))
     \<and> w_out (rl_from (TCPConnectionHandler n turns f t)) = w_out f @ y \<and> prefix y (pending (w_in t))
     \<and> rl_usage (TCPConnectionHandler n turns f t) \<le> length x + length y
     \<and> (w_fail f = None \<and> w_fail t = None \<longrightarrow> rl_usage (TCPConnectionHandler n turns f t) = length x + length y)"
proof -
  have "relay_inv f t (TCPConnectionHandler n turns f t)"
    unfolding TCPConnectionHandler_def by (rule relay_inv_fold [OF relay_inv_start])
  then obtain x l y m where h: "relay_hist f t (TCPConnectionHandler n turns f t) x l y m" by (auto simp: relay_inv_def)
  then have "prefix x (pending (w_in f))" "prefix y (pending (w_in t))" by (simp_all add: relay_hist_def)
  with h show ?thesis unfolding relay_hist_def by (intro exI [of _ x] exI [of _ y]) simp
qed

definition relay_end :: "conn \<Rightarrow> wire" where
  "relay_end c = \<lparr>w_type = NetConn, w_in = c, w_out = [], w_fail = None\<rparr>"

theorem relay_transparent_witness:
  "\<exists>x y. w_out (rl_to (TCPConnectionHandler 0 [True, False] (relay_end [(''ab'', None)]) (relay_end [(''c'', None)]))) = x
     \<and> prefix x ''ab'' \<and> prefix y ''c''
     \<and> rl_usage (TCPConnectionHandler 0 [True, False] (relay_end [(''ab'', None)]) (relay_end [(''c'', None)])) = length x + length y"
  using relay_transparent [of 0 "[True, False]" "relay_end [(''ab'', None)]" "relay_end [(''c'', None)]"]
  by (simp add: relay_end_def) blast



text \<open>C37: a connection that one side ends early loses the reply.  When the user has sent all and closes
  its sending side, and the loop there has seen the end before the reply arrived, the other end has
  got every byte, but both connections are closed: in no continuation does a byte of the reply
  reach the user.\<close>

theorem relay_half_close:
  assumes "no_error (w_in f)" and "w_fail t = None" and "script_size f < j"
  shows "w_out (rl_to (TCPConnectionHandler n (replicate j True @ turns) f t)) = w_out t @ pending (w_in f)
    \<and> w_out (rl_from (TCPConnectionHandler n (replicate j True @ turns) f t)) = w_out f"
  using assms by (rule relay_first)

theorem relay_half_close_witness:
  "w_out (rl_from (TCPConnectionHandler 0 ([True, True, True, True, True] @ [False, False]) (relay_end [(''GET'', None)])
      (relay_end [(''reply'', None)]))) = []"
proof -
  have e: "[True, True, True, True, True] = replicate (Suc (Suc (Suc (Suc (Suc 0))))) True" by simp
  show ?thesis
    using relay_half_close [of "relay_end [(''GET'', None)]" "relay_end [(''reply'', None)]" "Suc (Suc (Suc (Suc (Suc 0))))" 0 "[False, False]"]
    unfolding e by (simp add: relay_end_def script_size_def del: replicate.simps)
qed

text \<open>Bytes that arrive together with an error are lost.  \<^verbatim>\<open>Read\<close> may return bytes and an error at
  once, and a QUIC stream does so with its last bytes and the end of the stream: the loop looks at the
  error only, so these bytes are never written, in any interleaving.\<close>

theorem quic_relay_loses_tail:
  assumes "w_in t = [(b, Some e)]" and "length b \<le> 16 * 1024"
  shows "w_out (rl_from (QConnectionHandler turns f t)) = w_out f"
proof -
  let ?ok = "\<lambda>s. w_out (rl_from s) = w_out f \<and> (w_in (rl_to s) = [(b, Some e)] \<or> rl_closed s)"
  have "?ok (q1transferData d s)" if "?ok s" for d s
  proof (cases "rl_closed s")
    case True
    with relay_turn_closed [OF True, of "16 * 1024" d] that show ?thesis
      by (auto simp: q1transferData_def split: prod.splits)
  next
    case False
    with that have i: "w_in (rl_to s) = [(b, Some e)]" by simp
    show ?thesis
    proof (cases d)
      case True
      obtain r n f' t' where u: "transfer_turn (16 * 1024) (rl_from s) (rl_to s) = (r, n, f', t')" by (metis prod.exhaust)
      from transfer_turn_passes [OF u] have "w_out f' = w_out (rl_from s)" "w_in t' = w_in (rl_to s)" by blast+
      with u True False i that show ?thesis by (simp add: relay_turn_def q1transferData_def)
    next
      case bk: False
      have "Read (16 * 1024) (w_in (rl_to s)) = ((b, Some e), [])" using i assms(2) by (simp add: Read_def)
      with bk False that i show ?thesis by (simp add: relay_turn_def transfer_turn_def q1transferData_def)
    qed
  qed
  then have "?ok s \<Longrightarrow> ?ok (fold q1transferData turns s)" for s by (induction turns arbitrary: s) auto
  from this [of "start_relay f t"] assms(1) show ?thesis by (simp add: QConnectionHandler_def start_relay_def)
qed

theorem quic_relay_loses_tail_witness:
  "w_out (rl_from (QConnectionHandler [False, True, False] (relay_end []) (relay_end [(''last'', Some EOF)]))) = []"
  using quic_relay_loses_tail [of "relay_end [(''last'', Some EOF)]" "''last''" EOF "[False, True, False]" "relay_end []"]
  by (simp add: relay_end_def)

section \<open>The websocket relay\<close>

text \<open>\<open>ms\<close> were the messages to come, \<open>p\<close> the bytes of the TCP side; \<open>x\<close> and \<open>ys\<close> were written.\<close>

definition ws_hist :: "ws_message list \<Rightarrow> string \<Rightarrow> string \<Rightarrow> ws_message list \<Rightarrow> ws_relay \<Rightarrow> string \<Rightarrow> string list \<Rightarrow> bool" where
  "ws_hist ms p w0 k0 s x ys \<longleftrightarrow>
     w_out (wr_tcp s) = w0 @ x \<and> wk_out (wr_ws s) = k0 @ map BinaryMessage ys
     \<and> (if wr_closed s then prefix x (concat (map message_bytes ms)) \<and> prefix (concat ys) p
        else concat (map message_bytes ms) = x @ concat (map message_bytes (wr_in s))
          \<and> p = concat ys @ pending (w_in (wr_tcp s)) \<and> wr_toTCP s \<and> wr_toWS s)"

lemma transferWebSocketToTCP_hist:
  assumes "ws_hist ms p w0 k0 s x ys"
  shows "\<exists>x. ws_hist ms p w0 k0 (transferWebSocketToTCP s) x ys"
proof (cases "wr_closed s")
  case True
  have "w_out (wr_tcp (transferWebSocketToTCP s)) = w_out (wr_tcp s)" "wr_ws (transferWebSocketToTCP s) = wr_ws s"
    "wr_closed (transferWebSocketToTCP s)" using True by (simp_all add: transferWebSocketToTCP_def)
  with assms True show ?thesis by (auto simp: ws_hist_def)
next
  case open_: False
  with assms have r: "wr_toTCP s" "wr_toWS s" by (simp_all add: ws_hist_def)
  show ?thesis
  proof (cases "wr_in s")
    case Nil
    with assms open_ r have "ws_hist ms p w0 k0 (transferWebSocketToTCP s) x ys"
      by (simp add: ws_hist_def transferWebSocketToTCP_def)
    then show ?thesis by blast
  next
    case (Cons m ms')
    show ?thesis
    proof (cases "w_fail (wr_tcp s)")
      case None
      with Cons assms open_ r have "ws_hist ms p w0 k0 (transferWebSocketToTCP s) (x @ message_bytes m) ys"
        by (simp add: ws_hist_def transferWebSocketToTCP_def Write_def)
      then show ?thesis by blast
    next
      case (Some e)
      have "prefix (take (snd e) (message_bytes m)) (message_bytes m)" by (rule take_is_prefix)
      with Some Cons assms open_ r have "ws_hist ms p w0 k0 (transferWebSocketToTCP s) (x @ take (snd e) (message_bytes m)) ys"
        by (cases e) (simp add: ws_hist_def transferWebSocketToTCP_def Write_def)
      then show ?thesis by blast
    qed
  qed
qed

lemma transferTCPToWebSocket_hist:
  assumes "ws_hist ms p w0 k0 s x ys"
  shows "\<exists>ys. ws_hist ms p w0 k0 (transferTCPToWebSocket s) x ys"
proof (cases "wr_closed s")
  case True
  have "w_out (wr_tcp (transferTCPToWebSocket s)) = w_out (wr_tcp s)" "wr_ws (transferTCPToWebSocket s) = wr_ws s"
    "wr_closed (transferTCPToWebSocket s)" using True by (simp_all add: transferTCPToWebSocket_def)
  with assms True show ?thesis by (auto simp: ws_hist_def)
next
  case open_: False
  with assms have r: "wr_toTCP s" "wr_toWS s" by (simp_all add: ws_hist_def)
  obtain b e i where rd: "Read (16 * 1024) (w_in (wr_tcp s)) = ((b, e), i)" by (metis prod.exhaust)
  note pd = Read_None_pending [OF rd]
  show ?thesis
  proof (cases "e = None \<and> \<not> wk_fail (wr_ws s)")
    case True
    with rd pd assms open_ r have "ws_hist ms p w0 k0 (transferTCPToWebSocket s) x (ys @ [b])"
      by (simp add: ws_hist_def transferTCPToWebSocket_def WriteMessage_def)
    then show ?thesis by blast
  next
    case False
    with rd pd assms open_ r have "ws_hist ms p w0 k0 (transferTCPToWebSocket s) x ys"
      by (cases e) (simp_all add: ws_hist_def transferTCPToWebSocket_def WriteMessage_def)
    then show ?thesis by blast
  qed
qed

text \<open>C35: the relay between a websocket and a TCP connection changes nothing either: in every
  interleaving, the TCP side has received a prefix of the contents of the messages that arrived, text
  and binary alike, and what was sent on the websocket are binary messages whose contents together
  are a prefix of the bytes of the TCP side.\<close>

theorem ws_relay_transparent:
  assumes "\<not> wr_closed s" and "wr_toTCP s" and "wr_toWS s"
  shows "\<exists>x ys. w_out (wr_tcp (WSConnectionHandler turns s)) = w_out (wr_tcp s) @ x
     \<and> prefix x (concat (map message_bytes (wr_in s)))
     \<and> wk_out (wr_ws (WSConnectionHandler turns s)) = wk_out (wr_ws s) @ map BinaryMessage ys
     \<and> prefix (concat ys) (pending (w_in (wr_tcp s)))"
proof -
  let ?H = "ws_hist (wr_in s) (pending (w_in (wr_tcp s))) (w_out (wr_tcp s)) (wk_out (wr_ws s))"
  have "\<exists>x ys. ?H (fold (\<lambda>toTCP. if toTCP then transferWebSocketToTCP else transferTCPToWebSocket) turns t) x ys"
    if "\<exists>x ys. ?H t x ys" for t
    using that
  proof (induction turns arbitrary: t)
    case (Cons d turns)
    then obtain x ys where "?H t x ys" by blast
    from transferWebSocketToTCP_hist [OF this] transferTCPToWebSocket_hist [OF this]
    have "\<exists>x ys. ?H ((if d then transferWebSocketToTCP else transferTCPToWebSocket) t) x ys" by (cases d) auto
    from Cons.IH [OF this] show ?case by simp
  qed simp
  moreover have "?H s [] []" using assms by (simp add: ws_hist_def)
  ultimately obtain x ys where "?H (WSConnectionHandler turns s) x ys" unfolding WSConnectionHandler_def by blast
  then show ?thesis unfolding ws_hist_def by (intro exI [of _ x] exI [of _ ys]) (auto split: if_splits)
qed

theorem ws_relay_transparent_witness:
  "\<exists>x ys. w_out (wr_tcp (WSConnectionHandler [True, False] \<lparr>wr_ws = \<lparr>wk_id = 0, wk_out = [], wk_fail = False\<rparr>,
       wr_in = [TextMessage ''ab''], wr_tcp = relay_end [(''c'', None)], wr_closed = False, wr_toTCP = True, wr_toWS = True,
       wr_usage = 0\<rparr>)) = x \<and> prefix x ''ab'' \<and> prefix (concat ys) ''c''"
  using ws_relay_transparent [of "\<lparr>wr_ws = \<lparr>wk_id = 0, wk_out = [], wk_fail = False\<rparr>,
       wr_in = [TextMessage ''ab''], wr_tcp = relay_end [(''c'', None)], wr_closed = False, wr_toTCP = True, wr_toWS = True,
       wr_usage = 0\<rparr>" "[True, False]"] by (simp add: relay_end_def) blast

end
