(* ===== verification/Usage.thy ===== *)
theory Usage
  imports Go_Lib "HOL-Library.Word" "HOL-Library.AList" "HOL-Library.Log_Nat" "HOL-Library.Multiset"
begin

text \<open>
  The usage monitor, \<^verbatim>\<open>internal/web/sniffer.go\<close>: the bytes counted per port, saved every 15 seconds
  into a JSON jf to which they are added, and shown by a web page.  The \<^verbatim>\<open>sync.Map\<close> and the map of a
  save are association lists; the order of iterating one is an argument \<open>iter\<close>.
\<close>

section \<open>State\<close>

record PortUsage =
  pu_Port :: int
  pu_Usage :: "64 word"

type_synonym usage_map = "(int \<times> PortUsage) list"

record Usage =
  us_dataStore :: usage_map
  us_listenAddr :: string
  us_sniffer :: bool
  us_snifferLog :: string
  us_totalTraffic :: "64 word"

definition NewDataStore :: "string \<Rightarrow> string \<Rightarrow> bool \<Rightarrow> Usage" where
  "NewDataStore listenAddr snifferLog sniffer =
     \<lparr>us_dataStore = [], us_listenAddr = listenAddr, us_sniffer = sniffer, us_snifferLog = snifferLog,
      us_totalTraffic = 0\<rparr>"

text \<open>The file: it is missing, cannot be opened, does not decode, or holds a list (\<^verbatim>\<open>null\<close> is the empty
  one).\<close>

datatype json_file = Missing | Unreadable | Malformed | Holds "PortUsage list"

section \<open>Counting and saving\<close>

definition AddOrUpdatePort :: "int \<Rightarrow> 64 word \<Rightarrow> Usage \<Rightarrow> Usage" where
  "AddOrUpdatePort port usage m =
     (case map_of (us_dataStore m) port of
        Some portUsage \<Rightarrow>
          m\<lparr>us_dataStore := AList.update port (portUsage\<lparr>pu_Usage := pu_Usage portUsage + usage\<rparr>) (us_dataStore m)\<rparr>
      | None \<Rightarrow> m\<lparr>us_dataStore := AList.update port \<lparr>pu_Port = port, pu_Usage = usage\<rparr> (us_dataStore m)\<rparr>)"

definition collectUsageDataFromSyncMap :: "(usage_map \<Rightarrow> usage_map) \<Rightarrow> Usage \<Rightarrow> PortUsage list \<times> Usage" where
  "collectUsageDataFromSyncMap iter m = (map snd (iter (us_dataStore m)), m\<lparr>us_dataStore := []\<rparr>)"

definition put_usage :: "PortUsage \<Rightarrow> usage_map \<Rightarrow> usage_map" where
  "put_usage usage usageMap = AList.update (pu_Port usage) usage usageMap"

definition merge_usage :: "PortUsage \<Rightarrow> usage_map \<Rightarrow> usage_map" where
  "merge_usage usage usageMap =
     (case map_of usageMap (pu_Port usage) of
        Some existing \<Rightarrow> AList.update (pu_Port usage) (existing\<lparr>pu_Usage := pu_Usage existing + pu_Usage usage\<rparr>) usageMap
      | None \<Rightarrow> AList.update (pu_Port usage) usage usageMap)"

text \<open>A save, with what a failing write leaves in the file.\<close>

definition saveUsageData :: "(usage_map \<Rightarrow> usage_map) \<Rightarrow> json_file option \<Rightarrow> json_file \<Rightarrow> Usage \<Rightarrow> json_file \<times> Usage" where
  "saveUsageData iter failed jf m =
     (case (case jf of Holds us \<Rightarrow> Some us | Missing \<Rightarrow> Some [] | _ \<Rightarrow> None) of
        None \<Rightarrow> (jf, m)
      | Some existingUsageData \<Rightarrow>
          (case collectUsageDataFromSyncMap iter m of (currentUsageData, m) \<Rightarrow>
             let usageMap = fold merge_usage currentUsageData (fold put_usage existingUsageData []);
                 mergedUsageData = map snd (iter usageMap);
                 m = m\<lparr>us_totalTraffic := sum_list (map pu_Usage mergedUsageData)\<rparr> in
             (case failed of None \<Rightarrow> Holds mergedUsageData | Some f \<Rightarrow> f, m)))"

section \<open>Showing\<close>


text \<open>The nearest integer of a quotient, ties to even; the \<^verbatim>\<open>float64\<close> nearest to a 64-bit number; and
  \<^verbatim>\<open>%.2f\<close> of its quotient by a power of two, which is exact.\<close>

definition round_div :: "nat \<Rightarrow> nat \<Rightarrow> nat" where
  "round_div n d =
     (let q = n div d; r = n mod d in if 2 * r < d \<or> (2 * r = d \<and> even q) then q else q + 1)"

definition float64 :: "nat \<Rightarrow> nat" where
  "float64 n = (if n < 2 ^ 53 then n else let e = floorlog 2 n - 53 in round_div n (2 ^ e) * 2 ^ e)"

definition fixed2 :: "nat \<Rightarrow> string" where
  "fixed2 c = itoa_nat (c div 100) @ CHR ''.'' # [digit_char (c mod 100 div 10), digit_char (c mod 10)]"

definition byte_unit :: "nat \<Rightarrow> nat \<Rightarrow> string" where
  "byte_unit bytes unit = fixed2 (round_div (100 * float64 bytes) unit)"

definition convertBytesToReadable :: "64 word \<Rightarrow> string" where
  "convertBytesToReadable bytes =
     (let n = unat bytes in
      if n \<ge> 2 ^ 40 then byte_unit n (2 ^ 40) @ '' TB''
      else if n \<ge> 2 ^ 30 then byte_unit n (2 ^ 30) @ '' GB''
      else if n \<ge> 2 ^ 20 then byte_unit n (2 ^ 20) @ '' MB''
      else if n \<ge> 2 ^ 10 then byte_unit n (2 ^ 10) @ '' KB''
      else itoa_nat n @ '' B'')"



section \<open>Runs\<close>



section \<open>Books\<close>

text \<open>The bytes of a port in a map, and in the file, where the last entry of a port counts.\<close>

definition of_port :: "int \<Rightarrow> usage_map \<Rightarrow> 64 word" where
  "of_port p us = (case map_of us p of None \<Rightarrow> 0 | Some u \<Rightarrow> pu_Usage u)"





















section \<open>Properties\<close>



text \<open>A save whose write fails loses what it took.  The counters are emptied before the file is
  written, and not restored when that fails: the bytes counted since the last save are then neither in
  memory nor in the file.\<close>

theorem usage_failed_write_loses:
  assumes "saveUsageData iter (Some torn) (Holds us) m = (jf', m')"
  shows "jf' = torn \<and> of_port p (us_dataStore m') = 0"
  using assms by (auto simp: saveUsageData_def collectUsageDataFromSyncMap_def Let_def of_port_def)

theorem usage_failed_write_loses_witness:
  "\<exists>jf' m'. saveUsageData id (Some (Holds [])) (Holds []) (AddOrUpdatePort 443 5 (NewDataStore '':0'' ''l'' True)) = (jf', m')
     \<and> jf' = Holds [] \<and> of_port 443 (us_dataStore m') = 0"
proof -
  obtain f m where r: "saveUsageData id (Some (Holds [])) (Holds []) (AddOrUpdatePort 443 5 (NewDataStore '':0'' ''l'' True)) = (f, m)"
    by (metis prod.exhaust)
  from usage_failed_write_loses [OF r, of 443] r show ?thesis by simp
qed

text \<open>Rounding is off by at most half a unit.\<close>

lemma round_div_near: "0 < d \<Longrightarrow> \<bar>2 * (int d * int (round_div n d) - int n)\<bar> \<le> int d"
proof -
  assume d: "0 < d"
  have n: "int n = int d * int (n div d) + int (n mod d)" by (metis mult_div_mod_eq of_nat_add of_nat_mult)
  have m: "n mod d < d" using d by simp
  show ?thesis
  proof (cases "2 * (n mod d) < d \<or> (2 * (n mod d) = d \<and> even (n div d))")
    case True
    then have "round_div n d = n div d" "2 * (n mod d) \<le> d" by (auto simp: round_div_def Let_def)
    with n show ?thesis by simp
  next
    case False
    then have "round_div n d = n div d + 1" "d \<le> 2 * (n mod d)" by (auto simp: round_div_def Let_def)
    with n m show ?thesis by (simp add: algebra_simps)
  qed
qed

text \<open>C39: the web page shows traffic to the nearest hundredth of its unit: below 1024 bytes the exact
  number, from there on (up to 8 PiB, where the conversion to \<^verbatim>\<open>float64\<close> is exact) a number with two
  decimals that differs from the traffic by at most half a hundredth of the unit shown.\<close>

theorem convertBytesToReadable_near:
  assumes "1024 \<le> unat b" and "unat b < 2 ^ 53"
  shows "\<exists>c u unit. (u, unit) \<in> {(2 ^ 40, '' TB''), (2 ^ 30, '' GB''), (2 ^ 20, '' MB''), (2 ^ 10, '' KB'')}
     \<and> convertBytesToReadable b = fixed2 c @ unit \<and> u \<le> unat b \<and> \<bar>2 * (int u * int c - 100 * int (unat b))\<bar> \<le> int u"
proof -
  have near: "\<bar>2 * (int u * int (round_div (100 * float64 (unat b)) u) - 100 * int (unat b))\<bar> \<le> int u" if "0 < u" for u
    using round_div_near [OF that, of "100 * unat b"] assms(2) by (simp add: float64_def)
  consider "2 ^ 40 \<le> unat b" | "\<not> 2 ^ 40 \<le> unat b" "2 ^ 30 \<le> unat b" | "\<not> 2 ^ 40 \<le> unat b" "\<not> 2 ^ 30 \<le> unat b" "2 ^ 20 \<le> unat b"
    | "\<not> 2 ^ 40 \<le> unat b" "\<not> 2 ^ 30 \<le> unat b" "\<not> 2 ^ 20 \<le> unat b" by blast
  then show ?thesis
  proof cases
    case 1
    with near [of "2 ^ 40"] show ?thesis
      by (intro exI [of _ "round_div (100 * float64 (unat b)) (2 ^ 40)"] exI [of _ "2 ^ 40"] exI [of _ "'' TB''"])
        (simp add: convertBytesToReadable_def Let_def byte_unit_def)
  next
    case 2
    with near [of "2 ^ 30"] show ?thesis
      by (intro exI [of _ "round_div (100 * float64 (unat b)) (2 ^ 30)"] exI [of _ "2 ^ 30"] exI [of _ "'' GB''"])
        (simp add: convertBytesToReadable_def Let_def byte_unit_def)
  next
    case 3
    with near [of "2 ^ 20"] show ?thesis
      by (intro exI [of _ "round_div (100 * float64 (unat b)) (2 ^ 20)"] exI [of _ "2 ^ 20"] exI [of _ "'' MB''"])
        (simp add: convertBytesToReadable_def Let_def byte_unit_def)
  next
    case 4
    with near [of "2 ^ 10"] assms(1) show ?thesis
      by (intro exI [of _ "round_div (100 * float64 (unat b)) (2 ^ 10)"] exI [of _ "2 ^ 10"] exI [of _ "'' KB''"])
        (simp add: convertBytesToReadable_def Let_def byte_unit_def)
  qed
qed

theorem convertBytesToReadable_near_witness:
  "\<exists>c u unit. convertBytesToReadable 1536 = fixed2 c @ unit \<and> u \<le> 1536 \<and> \<bar>2 * (int u * int c - 153600)\<bar> \<le> int u"
  using convertBytesToReadable_near [of 1536] by auto

end
