(* ===== verification/Startup.thy ===== *)
theory Startup
  imports Go_Lib
begin

text \<open>
  What the process does around its tunnels: the kernel settings of \<^verbatim>\<open>cmd/optimization.go\<close> and the log
  lines of \<^verbatim>\<open>internal/utils/logger.go\<close>.  The outcome of running \<^verbatim>\<open>sysctl\<close>, of the resource limit calls and
  of \<^verbatim>\<open>logrus.ParseLevel\<close> are arguments.
\<close>

section \<open>Kernel settings\<close>

record sysctlSetting =
  sy_key :: string
  sy_value :: string

definition argument :: "sysctlSetting \<Rightarrow> string" where
  "argument s = sy_key s @ ''='' @ sy_value s"

definition tcpTuningSettings :: "sysctlSetting list" where
  "tcpTuningSettings = map (\<lambda>(k, v). \<lparr>sy_key = k, sy_value = v\<rparr>)
     [(''net.ipv4.ip_local_port_range'', ''1024 65535''),
      (''net.ipv4.tcp_tw_reuse'', ''1''),
      (''net.ipv4.tcp_fin_timeout'', ''15''),
      (''net.core.somaxconn'', ''4096''),
      (''net.ipv4.tcp_max_syn_backlog'', ''8192''),
      (''net.ipv4.tcp_window_scaling'', ''1''),
      (''net.ipv4.tcp_fastopen'', ''3''),
      (''net.ipv4.tcp_rmem'', ''16384 262144 1048576''),
      (''net.ipv4.tcp_wmem'', ''16384 262144 1048576''),
      (''net.ipv4.tcp_notsent_lowat'', ''4096''),
      (''net.core.rmem_default'', ''262144''),
      (''net.core.wmem_default'', ''262144''),
      (''net.core.wmem_max'', ''67108864''),
      (''net.core.rmem_max'', ''67108864'')]"

text \<open>What is done for a setting, and logged: it is skipped without root, or \<^verbatim>\<open>sysctl -w\<close> is run, which
  returns its output and an error.\<close>

datatype tuning = NoRoot string | SetFailed string string "string option" | Applied string

definition applySysctlSetting :: "nat \<Rightarrow> (string \<Rightarrow> string \<times> string option) \<Rightarrow> sysctlSetting \<Rightarrow> tuning" where
  "applySysctlSetting euid sysctl setting =
     (let arg = argument setting in
      if euid \<noteq> 0 then NoRoot arg
      else case sysctl arg of (output, err) \<Rightarrow>
        let trimmedOutput = TrimSpace output in
        (case err of
           Some e \<Rightarrow> SetFailed arg e (if trimmedOutput \<noteq> [] then Some trimmedOutput else None)
         | None \<Rightarrow> Applied arg))"

text \<open>The limit of open files: the current and the maximal one, if they can be read; \<open>setrlimit\<close> says
  whether new ones can be set.\<close>

datatype limit = LimitUnknown | LimitRefused | LimitSet nat nat

definition ApplyTCPTuning :: "bool \<Rightarrow> nat \<Rightarrow> (string \<Rightarrow> string \<times> string option) \<Rightarrow> (nat \<times> nat) option
    \<Rightarrow> (nat \<times> nat \<Rightarrow> bool) \<Rightarrow> (tuning list \<times> limit) option" where
  "ApplyTCPTuning linux euid sysctl getrlimit setrlimit =
     (if linux then
        Some (map (applySysctlSetting euid sysctl) tcpTuningSettings,
          case getrlimit of
            None \<Rightarrow> LimitUnknown
          | Some _ \<Rightarrow> if setrlimit (1048576, 1048576) then LimitSet 1048576 1048576 else LimitRefused)
      else None)"

text \<open>No setting depends on the success of another; without root none is tried.\<close>

lemma ApplyTCPTuning_unprivileged:
  assumes "euid \<noteq> 0"
  shows "map_option fst (ApplyTCPTuning True euid sysctl g s) = Some (map (NoRoot \<circ> argument) tcpTuningSettings)"
  using assms by (simp add: ApplyTCPTuning_def applySysctlSetting_def)

text \<open>The limit is set, not raised: one that was higher is lowered, for a privileged process for good.\<close>

lemma ApplyTCPTuning_lowers_limit:
  "1048576 < m \<Longrightarrow> map_option snd (ApplyTCPTuning True euid sysctl (Some (c, m)) (\<lambda>_. True)) = Some (LimitSet 1048576 1048576)"
  by (simp add: ApplyTCPTuning_def)

section \<open>Log lines\<close>

datatype log_level = PanicLevel | FatalLevel | ErrorLevel | WarnLevel | InfoLevel | DebugLevel | TraceLevel

definition ComponentLogPrefix :: "string \<Rightarrow> string \<Rightarrow> string" where
  "ComponentLogPrefix kind nm = (let nm = TrimSpace nm in if nm = [] then kind else kind @ '' '' @ nm)"

definition NewPrefixHook :: "string \<Rightarrow> string" where
  "NewPrefixHook nm = (let prefix = TrimSuffix (TrimSpace nm) '':'' in if prefix \<noteq> [] then prefix @ '': '' else prefix)"

definition Fire :: "string \<Rightarrow> string \<Rightarrow> string" where
  "Fire prefix message = (if prefix \<noteq> [] then prefix @ message else message)"

definition upper_char :: "char \<Rightarrow> char" where
  "upper_char c = (if 97 \<le> (of_char c :: nat) \<and> (of_char c :: nat) \<le> 122 then char_of ((of_char c :: nat) - 32) else c)"

definition colorize :: "log_level \<Rightarrow> string \<Rightarrow> string" where
  "colorize level text =
     (let esc = byte 27 in
      (case level of
         PanicLevel \<Rightarrow> esc # ''[1;31m'' | FatalLevel \<Rightarrow> esc # ''[1;31m'' | ErrorLevel \<Rightarrow> esc # ''[31m''
       | WarnLevel \<Rightarrow> esc # ''[33m'' | InfoLevel \<Rightarrow> esc # ''[32m'' | DebugLevel \<Rightarrow> esc # ''[34m''
       | TraceLevel \<Rightarrow> esc # ''[36m'')
      @ text @ esc # ''[0m'')"

definition Format :: "string \<Rightarrow> (log_level \<Rightarrow> string) \<Rightarrow> log_level \<Rightarrow> string \<Rightarrow> string" where
  "Format timestamp level_name level message =
     timestamp @ '' ['' @ colorize level (map upper_char (level_name level)) @ ''] '' @ message @ [byte 10]"

text \<open>A logger: its level, and its prefix if it has a hook.  An unknown level is the zero level of the
  library, which logs panics only.\<close>

record Logger =
  lg_level :: log_level
  lg_hook :: "string option"

definition NewLogger :: "(string \<Rightarrow> log_level option) \<Rightarrow> string \<Rightarrow> string list \<Rightarrow> Logger" where
  "NewLogger parse logLevel prefix =
     \<lparr>lg_level = (case parse logLevel of None \<Rightarrow> PanicLevel | Some l \<Rightarrow> l),
      lg_hook = (if length prefix > 0 \<and> TrimSpace (prefix ! 0) \<noteq> [] then Some (NewPrefixHook (prefix ! 0)) else None)\<rparr>"

text \<open>A component that has a name logs under its kind and name.\<close>

lemma component_prefix:
  assumes "TrimSpace nm \<noteq> []" and "last (TrimSpace nm) \<noteq> CHR '':''"
    and "kind \<noteq> []" and "\<not> is_space (hd kind)"
  shows "lg_hook (NewLogger parse level [ComponentLogPrefix kind nm]) = Some (kind @ '' '' @ TrimSpace nm @ '': '')"
proof -
  let ?p = "kind @ '' '' @ TrimSpace nm"
  have l: "\<not> is_space (last (TrimSpace nm))" using TrimSpace_ends [of nm] assms(1) by blast
  then have t: "TrimSpace ?p = ?p"
    using assms(1,3,4) by (intro TrimSpace_id) simp
  have "\<not> HasSuffix ?p '':''"
    using assms(1,2) by (metis HasSuffix_iff append_is_Nil_conv last_append last_snoc not_Cons_self2)
  with t assms(1,3) show ?thesis
    by (simp add: NewLogger_def ComponentLogPrefix_def NewPrefixHook_def TrimSuffix_def Let_def)
qed

end
