(* ===== verification/Maintenance.thy ===== *)
theory Maintenance
  imports Config "HOL-Library.Word"
begin

text \<open>
  \<^verbatim>\<open>internal/maintenance\<close>: what is started for the runtime options, the reading of the resident size
  from \<^verbatim>\<open>/proc/self/status\<close>, and the texts of the memory report.  Memory sizes are \<^verbatim>\<open>uint64\<close>.
\<close>

section \<open>Tasks\<close>

datatype maintenance_task = MemoryRelease Duration | AutoRestart Duration

definition StartRuntimeMaintenance :: "RuntimeConfig \<Rightarrow> maintenance_task list" where
  "StartRuntimeMaintenance cfg =
     (if rt_MemoryReleaseIntervalDuration cfg \<le> 0 \<and> rt_AutoRestartIntervalDuration cfg \<le> 0 then []
      else (if rt_MemoryReleaseIntervalDuration cfg > 0 then [MemoryRelease (rt_MemoryReleaseIntervalDuration cfg)] else [])
        @ (if rt_AutoRestartIntervalDuration cfg > 0 then [AutoRestart (rt_AutoRestartIntervalDuration cfg)] else []))"

text \<open>The end of \<^verbatim>\<open>runAutoRestart\<close>: a re-execution that works does not return.\<close>

datatype restart_result = Reexecuted | ExitOne

definition runAutoRestart :: "bool \<Rightarrow> restart_result" where
  "runAutoRestart reexec_ok = (if reexec_ok then Reexecuted else ExitOne)"

section \<open>The resident size\<close>

text \<open>\<^verbatim>\<open>strings.Fields\<close> and \<^verbatim>\<open>strconv.ParseUint\<close> to the base 10 with 64 bits.\<close>

function Fields :: "string \<Rightarrow> string list" where
  "Fields s =
     (let s = dropWhile is_space s in
      if s = [] then [] else takeWhile (\<lambda>c. \<not> is_space c) s # Fields (dropWhile (\<lambda>c. \<not> is_space c) s))"
  by pat_completeness auto

termination
proof (relation "measure length")
  fix s x :: string
  assume x: "x = dropWhile is_space s" "x \<noteq> []"
  then have "\<not> is_space (hd x)" by (metis hd_dropWhile)
  with x(2) have "dropWhile (\<lambda>c. \<not> is_space c) x = dropWhile (\<lambda>c. \<not> is_space c) (tl x)" by (cases x) auto
  moreover have "length (dropWhile (\<lambda>c. \<not> is_space c) (tl x)) \<le> length (tl x)" by (rule length_dropWhile_le)
  moreover have "length (tl x) < length x" using x(2) by simp
  moreover have "length x \<le> length s" unfolding x(1) by (rule length_dropWhile_le)
  ultimately show "(dropWhile (\<lambda>c. \<not> is_space c) x, s) \<in> measure length" by simp
qed simp

declare Fields.simps [simp del]

definition ParseUint :: "string \<Rightarrow> 64 word option" where
  "ParseUint s =
     (if s = [] \<or> \<not> list_all is_digit s then None
      else if digits_val s \<ge> 2 ^ 64 then None else Some (of_nat (digits_val s)))"

text \<open>The lines are looked at in order; \<open>None\<close> is the pair of zero and false.\<close>

fun rss_of_lines :: "string list \<Rightarrow> 64 word option" where
  "rss_of_lines [] = None"
| "rss_of_lines (line # ls) =
     (if \<not> HasPrefix line ''VmRSS:'' then rss_of_lines ls
      else let fields = Fields line in
        if length fields < 2 then None
        else (case ParseUint (fields ! 1) of None \<Rightarrow> None | Some kb \<Rightarrow> Some (kb * 1024)))"

definition readRSS :: "string option \<Rightarrow> 64 word option" where
  "readRSS status = (case status of None \<Rightarrow> None | Some text \<Rightarrow> rss_of_lines (Split (byte 10) text))"

section \<open>The memory report\<close>

record memorySnapshot =
  ms_HeapAlloc :: "64 word"
  ms_HeapIdle :: "64 word"
  ms_HeapReleased :: "64 word"
  ms_HeapSys :: "64 word"
  ms_Sys :: "64 word"
  ms_RSS :: "64 word"
  ms_HasRSS :: bool

definition mib :: "64 word" where "mib = 1024 * 1024"

definition formatMiB :: "64 word \<Rightarrow> string" where
  "formatMiB bytes = itoa_nat (unat (bytes div mib)) @ '' MiB''"

text \<open>The conversions to \<^verbatim>\<open>int64\<close> and their difference.\<close>

definition formatSignedMiBDelta :: "64 word \<Rightarrow> 64 word \<Rightarrow> string" where
  "formatSignedMiBDelta before after =
     (let beforeMiB = sint (before div mib); afterMiB = sint (after div mib); delta = wrap64 (afterMiB - beforeMiB) in
      if delta > 0 then ''+'' @ Itoa delta @ '' MiB'' else Itoa delta @ '' MiB'')"

definition formatMetricChange :: "string \<Rightarrow> 64 word \<Rightarrow> 64 word \<Rightarrow> string" where
  "formatMetricChange metric before after =
     metric @ '' '' @ itoa_nat (unat (before div mib)) @ '' -> '' @ formatMiB after
       @ '' ('' @ formatSignedMiBDelta before after @ '')''"

definition Join :: "string list \<Rightarrow> string \<Rightarrow> string" where
  "Join ss sep = (case ss of [] \<Rightarrow> [] | s # ss \<Rightarrow> s @ concat (map (\<lambda>t. sep @ t) ss))"

definition formatMemoryReleaseSummary :: "memorySnapshot \<Rightarrow> memorySnapshot \<Rightarrow> string" where
  "formatMemoryReleaseSummary before after =
     Join ((if ms_HasRSS before \<and> ms_HasRSS after then [formatMetricChange ''RAM'' (ms_RSS before) (ms_RSS after)] else [])
       @ [formatMetricChange ''active Go memory'' (ms_HeapAlloc before) (ms_HeapAlloc after),
          formatMetricChange ''returned to system'' (ms_HeapReleased before) (ms_HeapReleased after)]) '', ''"

definition formatMemoryReleaseDetails :: "memorySnapshot \<Rightarrow> memorySnapshot \<Rightarrow> string" where
  "formatMemoryReleaseDetails before after =
     Join [formatMetricChange ''reusable Go memory'' (ms_HeapIdle before) (ms_HeapIdle after),
           formatMetricChange ''reserved Go memory'' (ms_HeapSys before) (ms_HeapSys after),
           formatMetricChange ''total Go runtime memory'' (ms_Sys before) (ms_Sys after)] '', ''"

section \<open>Correctness\<close>

text \<open>The differences are exact: megabytes of 64-bit sizes are far from the bounds of \<^verbatim>\<open>int64\<close>.\<close>

lemma unat_div_mib: "unat (w div mib) = unat w div 1048576"
  by (simp add: mib_def unat_div)

lemma div_mib_less: "unat (w div mib) < 2 ^ 44"
proof -
  have "unat w < 2 ^ 64" using unsigned_less [of w] by simp
  then have "unat w < 2 ^ 44 * 1048576" by simp
  then show ?thesis unfolding unat_div_mib by (rule less_mult_imp_div_less)
qed

lemma sint_div_mib: "sint (w div mib) = int (unat w div 1048576)"
proof -
  let ?v = "w div mib"
  have u: "uint ?v = int (unat ?v)" by (rule uint_nat)
  moreover have "int (unat ?v) < int (2 ^ 44)" using div_mib_less [of w] by (simp only: of_nat_less_iff)
  ultimately have "uint ?v < 2 ^ 44" by (simp only: of_nat_power of_nat_numeral)
  moreover have "- (2 ^ 63) \<le> uint ?v" by (rule order_trans [of _ 0]) simp_all
  ultimately have "signed_take_bit 63 (uint ?v) = uint ?v" by (intro signed_take_bit_int_eq_self) auto
  then have "sint ?v = uint ?v" by (simp add: sint_uint)
  then show ?thesis unfolding u unat_div_mib .
qed

lemma formatSignedMiBDelta_exact:
  "formatSignedMiBDelta before after =
     (let d = int (unat after div 1048576) - int (unat before div 1048576) in
      (if d > 0 then ''+'' else []) @ Itoa d @ '' MiB'')"
proof -
  have b: "int (unat w div 1048576) < 2 ^ 44" for w :: "64 word"
    using div_mib_less [of w] unfolding unat_div_mib by simp
  have "wrap64 (int (unat after div 1048576) - int (unat before div 1048576))
      = int (unat after div 1048576) - int (unat before div 1048576)"
    by (rule wrap64_id) (use b [of after] b [of before] in \<open>simp_all add: MaxInt_def\<close>)
  then show ?thesis unfolding formatSignedMiBDelta_def Let_def sint_div_mib by simp
qed

text \<open>A line of the status file is read back.\<close>

lemma Fields_word:
  assumes "w \<noteq> []" and "list_all (\<lambda>c. \<not> is_space c) w" and "is_space c"
  shows "Fields (w @ c # s) = w # Fields (c # s)"
proof -
  have "dropWhile is_space (w @ c # s) = w @ c # s" using assms(1,2) by (cases w) auto
  moreover have "takeWhile (\<lambda>c. \<not> is_space c) (w @ c # s) = w" "dropWhile (\<lambda>c. \<not> is_space c) (w @ c # s) = c # s"
    using assms(2,3) by (simp_all add: list_all_iff)
  ultimately show ?thesis using assms(1) by (simp add: Fields.simps [of "w @ c # s"] Let_def)
qed

lemma Fields_space: "list_all is_space t \<Longrightarrow> Fields (t @ s) = Fields s"
  by (simp add: Fields.simps [of "t @ s"] Fields.simps [of s] list_all_iff dropWhile_append2)

text \<open>The resident size that Linux reports in kilobytes is read whatever the white space before it, if
  no earlier line has its name; sizes from 16 EiB wrap around.\<close>

lemma rss_of_lines_found:
  assumes "list_all (\<lambda>l. \<not> HasPrefix l ''VmRSS:'') ls" and "list_all is_space t" and "t \<noteq> []" and "n < 2 ^ 64"
  shows "rss_of_lines (ls @ (''VmRSS:'' @ t @ itoa_nat n @ '' kB'') # ls') = Some (of_nat n * 1024)"
proof -
  let ?l = "''VmRSS:'' @ t @ itoa_nat n @ '' kB''"
  obtain c t' where t: "t = c # t'" "is_space c" using assms(2,3) by (cases t) auto
  have d: "list_all (\<lambda>c. \<not> is_space c) (itoa_nat n)"
    using itoa_nat_digits(1) [of n] is_digit_not by (auto simp: list_all_iff)
  have sp: "is_space CHR '' ''" "\<not> is_space CHR ''V''" "\<not> is_space CHR ''m''" "\<not> is_space CHR ''R''"
    "\<not> is_space CHR ''S''" "\<not> is_space CHR '':''" by code_simp+
  have "Fields ?l = ''VmRSS:'' # Fields (t @ itoa_nat n @ '' kB'')"
    using Fields_word [of "''VmRSS:''" c "t' @ itoa_nat n @ '' kB''"] t sp by simp
  also have "Fields (t @ itoa_nat n @ '' kB'') = itoa_nat n # Fields '' kB''"
    using Fields_space [OF assms(2)] Fields_word [OF itoa_nat_digits(2) d sp(1), of "''kB''"] by simp
  finally have f: "Fields ?l = ''VmRSS:'' # itoa_nat n # Fields '' kB''" .
  have "ParseUint (itoa_nat n) = Some (of_nat n)" using assms(4) itoa_nat_props [of n] by (simp add: ParseUint_def)
  with f have "rss_of_lines (?l # ls') = Some (of_nat n * 1024)" by (simp add: HasPrefix_def)
  with assms(1) show ?thesis by (induction ls) auto
qed

end
