(* ===== verification/Program.thy ===== *)
theory Program
  imports Gateway Tcpmux_Server Ws_Server Wsmux_Server Quic_Server Udp_Server Ws_Client Quic_Client Maintenance
begin

text \<open>
  The start of the program: \<^verbatim>\<open>main.go\<close>, \<^verbatim>\<open>cmd/cmd.go\<close>, \<^verbatim>\<open>internal/server/server.go\<close> and
  \<^verbatim>\<open>internal/client/client.go\<close>.  What \<^verbatim>\<open>Run\<close> does is a list of effects, which ends where a fatal error
  ends the process; the TOML library, the listeners and the file system are arguments.
\<close>

section \<open>Servers\<close>

definition seconds :: "int \<Rightarrow> Duration" where
  "seconds n = wrap64 (n * Second)"

text \<open>An interval of the configuration is exact up to 292 years, and negative from there on.\<close>

lemma seconds_exact: "0 < n \<Longrightarrow> n \<le> 9223372036 \<Longrightarrow> seconds n = n * Second"
  unfolding seconds_def by (rule wrap64_id) (simp_all add: Second_def MaxInt_def)

lemma seconds_wraps: "seconds 9223372037 < 0"
  by code_simp

datatype runtime =
  RtTCP TcpTransport | RtTCPMUX TcpMuxTransport | RtWS WsTransport | RtWSMUX WsMuxTransport
| RtQUIC QuicTransport | RtUDP UdpTransport | RtInvalid TransportType

definition server_tcp_config :: "ServerConfig \<Rightarrow> TcpConfig" where
  "server_tcp_config c =
     \<lparr>tcp_BindAddr = srv_BindAddr c, tcp_Token = srv_Token c, tcp_SnifferLog = srv_SnifferLog c, tcp_TunnelStatus = [],
      tcp_Ports = srv_Ports c, tcp_Nodelay = srv_Nodelay c, tcp_Sniffer = srv_Sniffer c,
      tcp_KeepAlive = seconds (srv_Keepalive c), tcp_Heartbeat = seconds (srv_Heartbeat c),
      tcp_ChannelSize = srv_ChannelSize c, tcp_WebPort = srv_WebPort c, tcp_AcceptUDP = srv_AcceptUDP c,
      tcp_AllowMultiIP = srv_AllowMultiIP c, tcp_TCPCopyBuffer = srv_TCPCopyBufferBytes c\<rparr>"

definition server_tcpmux_config :: "ServerConfig \<Rightarrow> TcpMuxConfig" where
  "server_tcpmux_config c =
     \<lparr>tm_BindAddr = srv_BindAddr c, tm_TunnelStatus = [], tm_SnifferLog = srv_SnifferLog c, tm_Token = srv_Token c,
      tm_Ports = srv_Ports c, tm_Nodelay = srv_Nodelay c, tm_Sniffer = srv_Sniffer c,
      tm_ChannelSize = srv_ChannelSize c, tm_MuxCon = srv_MuxCon c, tm_MuxVersion = srv_MuxVersion c,
      tm_MaxFrameSize = srv_MaxFrameSize c, tm_MaxReceiveBuffer = srv_MaxReceiveBuffer c,
      tm_MaxStreamBuffer = srv_MaxStreamBuffer c, tm_WebPort = srv_WebPort c,
      tm_KeepAlive = seconds (srv_Keepalive c), tm_Heartbeat = seconds (srv_Heartbeat c),
      tm_AllowMultiIP = srv_AllowMultiIP c, tm_TCPCopyBuffer = srv_TCPCopyBufferBytes c\<rparr>"

definition server_ws_config :: "ServerConfig \<Rightarrow> WsConfig" where
  "server_ws_config c =
     \<lparr>ws_BindAddr = srv_BindAddr c, ws_SnifferLog = srv_SnifferLog c, ws_TLSCertFile = srv_TLSCertFile c,
      ws_TLSKeyFile = srv_TLSKeyFile c, ws_TunnelStatus = [], ws_Token = srv_Token c, ws_Ports = srv_Ports c,
      ws_Nodelay = srv_Nodelay c, ws_Sniffer = srv_Sniffer c, ws_KeepAlive = seconds (srv_Keepalive c),
      ws_Heartbeat = seconds (srv_Heartbeat c), ws_ChannelSize = srv_ChannelSize c, ws_WebPort = srv_WebPort c,
      ws_Mode = srv_Transport c\<rparr>"

definition server_wsmux_config :: "ServerConfig \<Rightarrow> WsMuxConfig" where
  "server_wsmux_config c =
     \<lparr>wm_BindAddr = srv_BindAddr c, wm_Token = srv_Token c, wm_SnifferLog = srv_SnifferLog c,
      wm_TLSCertFile = srv_TLSCertFile c, wm_TLSKeyFile = srv_TLSKeyFile c, wm_TunnelStatus = [],
      wm_Ports = srv_Ports c, wm_Nodelay = srv_Nodelay c, wm_Sniffer = srv_Sniffer c,
      wm_KeepAlive = seconds (srv_Keepalive c), wm_Heartbeat = seconds (srv_Heartbeat c),
      wm_ChannelSize = srv_ChannelSize c, wm_MuxCon = srv_MuxCon c, wm_MuxVersion = srv_MuxVersion c,
      wm_MaxFrameSize = srv_MaxFrameSize c, wm_MaxReceiveBuffer = srv_MaxReceiveBuffer c,
      wm_MaxStreamBuffer = srv_MaxStreamBuffer c, wm_WebPort = srv_WebPort c, wm_Mode = srv_Transport c,
      wm_TCPCopyBuffer = srv_TCPCopyBufferBytes c\<rparr>"

definition server_quic_config :: "ServerConfig \<Rightarrow> QuicConfig" where
  "server_quic_config c =
     \<lparr>qs_BindAddr = srv_BindAddr c, qs_TunnelStatus = [], qs_SnifferLog = srv_SnifferLog c, qs_Token = srv_Token c,
      qs_Ports = srv_Ports c, qs_Nodelay = srv_Nodelay c, qs_Sniffer = srv_Sniffer c,
      qs_ChannelSize = srv_ChannelSize c, qs_MuxCon = srv_MuxCon c, qs_WebPort = srv_WebPort c,
      qs_KeepAlive = seconds (srv_Keepalive c), qs_Heartbeat = seconds (srv_Heartbeat c),
      qs_TLSCertFile = srv_TLSCertFile c, qs_TLSKeyFile = srv_TLSKeyFile c, qs_AllowMultiIP = srv_AllowMultiIP c\<rparr>"

definition server_udp_config :: "ServerConfig \<Rightarrow> UdpConfig" where
  "server_udp_config c =
     \<lparr>us_BindAddr = srv_BindAddr c, us_Token = srv_Token c, us_SnifferLog = srv_SnifferLog c, us_TunnelStatus = [],
      us_Ports = srv_Ports c, us_Sniffer = srv_Sniffer c, us_Heartbeat = seconds (srv_Heartbeat c),
      us_ChannelSize = srv_ChannelSize c, us_WebPort = srv_WebPort c\<rparr>"

definition build :: "ServerConfig \<Rightarrow> runtime" where
  "build c =
     (let t = srv_Transport c in
      if t = TCP then RtTCP (NewTCPServer (server_tcp_config c))
      else if t = TCPMUX then RtTCPMUX (NewTcpMuxServer (server_tcpmux_config c))
      else if t = WS \<or> t = WSS then RtWS (NewWSServer (server_ws_config c))
      else if t = WSMUX \<or> t = WSSMUX then RtWSMUX (NewWSMuxServer (server_wsmux_config c))
      else if t = QUIC then RtQUIC (NewQuicServer (server_quic_config c))
      else if t = UDP then RtUDP (NewUDPServer (server_udp_config c))
      else RtInvalid t)"

record Server =
  sv_config :: ServerConfig
  sv_build :: runtime

definition NewServer :: "ServerConfig \<Rightarrow> Server" where
  "NewServer cfg = \<lparr>sv_config = cfg, sv_build = build cfg\<rparr>"

text \<open>The runtime as an inbound target, or nil.\<close>

definition Runtime :: "Server \<Rightarrow> runtime option" where
  "Runtime s = (case sv_build s of RtUDP _ \<Rightarrow> None | RtInvalid _ \<Rightarrow> None | rt \<Rightarrow> Some rt)"

section \<open>Clients\<close>

datatype client_runtime =
  CkTCP TcpClient | CkTCPMUX TcpMuxClient | CkWS WsClient | CkWSMUX WsMuxClient | CkQUIC QuicClient
| CkUDP UdpClient | CkInvalid TransportType

definition client_dial_config :: "ClientConfig \<Rightarrow> DialConfig" where
  "client_dial_config c =
     \<lparr>dc_RemoteAddr = cl_RemoteAddr c, dc_Token = cl_Token c, dc_SnifferLog = cl_SnifferLog c, dc_TunnelStatus = [],
      dc_RetryInterval = seconds (cl_RetryInterval c), dc_DialTimeOut = seconds (cl_DialTimeout c),
      dc_ConnPoolSize = cl_ConnectionPool c, dc_WebPort = cl_WebPort c, dc_Sniffer = cl_Sniffer c,
      dc_AggressivePool = cl_AggressivePool c\<rparr>"

definition client_quic_config :: "ClientConfig \<Rightarrow> QuicClientConfig" where
  "client_quic_config c =
     \<lparr>qk_RemoteAddr = cl_RemoteAddr c, qk_Token = cl_Token c, qk_SnifferLog = cl_SnifferLog c, qk_TunnelStatus = [],
      qk_Nodelay = cl_Nodelay c, qk_Sniffer = cl_Sniffer c, qk_KeepAlive = seconds (cl_Keepalive c),
      qk_RetryInterval = seconds (cl_RetryInterval c), qk_DialTimeOut = seconds (cl_DialTimeout c),
      qk_MuxVersion = 0, qk_MaxFrameSize = 0, qk_MaxReceiveBuffer = 0, qk_MaxStreamBuffer = 0,
      qk_ConnectionPool = cl_ConnectionPool c, qk_WebPort = cl_WebPort c, qk_AggressivePool = cl_AggressivePool c\<rparr>"

definition Client_Start :: "ClientConfig \<Rightarrow> client_runtime" where
  "Client_Start c =
     (let t = cl_Transport c; d = client_dial_config c in
      if t = TCP then CkTCP (NewTCPClient (DialConfig.extend d
        \<lparr>tk_KeepAlive = seconds (cl_Keepalive c), tk_Nodelay = cl_Nodelay c, tk_TCPCopyBuffer = cl_TCPCopyBufferBytes c\<rparr>))
      else if t = TCPMUX then CkTCPMUX (NewMuxClient (DialConfig.extend d
        \<lparr>mk_Nodelay = cl_Nodelay c, mk_KeepAlive = seconds (cl_Keepalive c), mk_MuxVersion = cl_MuxVersion c,
         mk_MaxFrameSize = cl_MaxFrameSize c, mk_MaxReceiveBuffer = cl_MaxReceiveBuffer c,
         mk_MaxStreamBuffer = cl_MaxStreamBuffer c, mk_TunnelTCPBuffer = cl_TunnelTCPBufferBytes c,
         mk_TCPCopyBuffer = cl_TCPCopyBufferBytes c\<rparr>))
      else if t = WS \<or> t = WSS then CkWS (NewWSClient (DialConfig.extend d
        \<lparr>wk_Nodelay = cl_Nodelay c, wk_KeepAlive = seconds (cl_Keepalive c), wk_Mode = t, wk_EdgeIP = cl_EdgeIP c\<rparr>))
      else if t = WSMUX \<or> t = WSSMUX then CkWSMUX (NewWSMuxClient (DialConfig.extend d
        \<lparr>xk_Nodelay = cl_Nodelay c, xk_KeepAlive = seconds (cl_Keepalive c), xk_MuxVersion = cl_MuxVersion c,
         xk_MaxFrameSize = cl_MaxFrameSize c, xk_MaxReceiveBuffer = cl_MaxReceiveBuffer c,
         xk_MaxStreamBuffer = cl_MaxStreamBuffer c, xk_Mode = t, xk_EdgeIP = cl_EdgeIP c,
         xk_TCPCopyBuffer = cl_TCPCopyBufferBytes c\<rparr>))
      else if t = QUIC then CkQUIC (NewQuicClient (client_quic_config c))
      else if t = UDP then CkUDP (NewUDPClient d)
      else CkInvalid t)"

section \<open>Loading the configuration\<close>

datatype load_error = DecodeFailed string | RawPortsRemoved | ServerSNIRemoved

definition legacyServerSNIFields :: "string list" where
  "legacyServerSNIFields =
     [''sni_router'', ''sni_listen_addr'', ''sni_inspect_timeout'', ''sni_default_action'', ''sni_routes'']"

fun check_undecoded :: "string list list \<Rightarrow> load_error option" where
  "check_undecoded [] = None"
| "check_undecoded (key # keys) =
     (if length key = 0 then check_undecoded keys
      else if last key = ''raw_ports'' then Some RawPortsRemoved
      else if last key \<in> set legacyServerSNIFields then Some ServerSNIRemoved
      else check_undecoded keys)"

text \<open>The decoder returns its error, or the configuration and the keys it did not decode.\<close>

definition loadConfig :: "string + Config \<times> string list list \<Rightarrow> load_error + Config" where
  "loadConfig decoded =
     (case decoded of
        Inl err \<Rightarrow> Inl (DecodeFailed err)
      | Inr (cfg, undecoded) \<Rightarrow> (case check_undecoded undecoded of Some e \<Rightarrow> Inl e | None \<Rightarrow> Inr cfg))"

section \<open>Running\<close>

datatype fatal_exit =
  LoadFailed load_error | InvalidConfig validate_error | SNIGatewayFailed | HTTPGatewayFailed | NoValidClient | NothingConfigured

datatype run_effect =
  Maintain maintenance_task | StartServer Server | StartSNIGateway Gateway | StartHTTPGateway HTTPGateway
| SkipClient string | StartClient ClientConfig | FatalExit fatal_exit

definition clientLogLabel :: "int \<Rightarrow> string \<Rightarrow> string" where
  "clientLogLabel index nm =
     (let nm = TrimSpace nm in if nm = [] then ''client['' @ Itoa index @ '']'' else ''client '' @ nm)"

definition start_server :: "ServerConfig \<Rightarrow> run_effect list \<times> runtime registry \<Rightarrow> run_effect list \<times> runtime registry" where
  "start_server c st =
     (case st of (es, registry) \<Rightarrow>
        let srv = NewServer c in
        (es @ [StartServer srv],
         case Runtime srv of Some rt \<Rightarrow> Register (srv_Name c) rt registry | None \<Rightarrow> registry))"

fun start_sni_gateways :: "(string \<Rightarrow> bool) \<Rightarrow> SNIGatewayConfig list \<Rightarrow> run_effect list \<times> bool" where
  "start_sni_gateways listens [] = ([], True)"
| "start_sni_gateways listens (g # gs) =
     (let gw = NewGateway (gatewayRuntimeConfig g) in
      if Gateway_Start listens gw \<noteq> None then ([FatalExit SNIGatewayFailed], False)
      else (case start_sni_gateways listens gs of (es, ok) \<Rightarrow> (StartSNIGateway gw # es, ok)))"

fun start_http_gateways :: "(string \<Rightarrow> bool) \<Rightarrow> HTTPGatewayConfig list \<Rightarrow> run_effect list" where
  "start_http_gateways listens [] = []"
| "start_http_gateways listens (g # gs) =
     (let gw = NewHTTPGateway (httpGatewayRuntimeConfig g) in
      if HTTPGateway_Start listens gw \<noteq> None then [FatalExit HTTPGatewayFailed]
      else StartHTTPGateway gw # start_http_gateways listens gs)"

fun start_clients :: "int \<Rightarrow> ClientConfig list \<Rightarrow> run_effect list" where
  "start_clients i [] = []"
| "start_clients i (c # cs) =
     (if cl_RemoteAddr c = [] then SkipClient (clientLogLabel i (cl_Name c)) else StartClient c) # start_clients (i + 1) cs"

definition run_servers :: "(string \<Rightarrow> bool) \<Rightarrow> Config \<Rightarrow> run_effect list \<times> runtime registry" where
  "run_servers listens cfg =
     (case fold start_server (cf_Servers cfg) ([], NewRegistry) of (es, registry) \<Rightarrow>
      case start_sni_gateways listens (cf_SNIGateways cfg) of (gs, ok) \<Rightarrow>
        (es @ gs @ (if ok then start_http_gateways listens (cf_HTTPGateways cfg) else []), registry))"

definition Run :: "(string \<Rightarrow> bool) \<Rightarrow> (string \<Rightarrow> Duration option) \<Rightarrow> pick_host \<Rightarrow> (string \<Rightarrow> bool)
    \<Rightarrow> string + Config \<times> string list list \<Rightarrow> run_effect list \<times> runtime registry" where
  "Run level_ok parse_dur pick listens decoded =
     (case loadConfig decoded of
        Inl e \<Rightarrow> ([FatalExit (LoadFailed e)], NewRegistry)
      | Inr cfg \<Rightarrow>
          (case validateConfig parse_dur pick (applyDefaults level_ok cfg) of
             Inl e \<Rightarrow> ([FatalExit (InvalidConfig e)], NewRegistry)
           | Inr cfg \<Rightarrow>
               let tasks = map Maintain (StartRuntimeMaintenance (cf_Runtime cfg)) in
               if length (cf_Servers cfg) > 0 then
                 (case run_servers listens cfg of (es, registry) \<Rightarrow> (tasks @ es, registry))
               else if length (cf_Clients cfg) > 0 then
                 (let es = start_clients 0 (cf_Clients cfg) in
                  (tasks @ es @ (if \<exists>c \<in> set (cf_Clients cfg). cl_RemoteAddr c \<noteq> [] then [] else [FatalExit NoValidClient]),
                   NewRegistry))
               else (tasks @ [FatalExit NothingConfigured], NewRegistry)))"

section \<open>Reloading\<close>

text \<open>A tick of \<^verbatim>\<open>hotReload\<close>: the modification time of the file, or an error.\<close>

datatype reload_effect = CancelRunning | RunAgain

definition hotReload_tick :: "int option \<Rightarrow> int \<Rightarrow> reload_effect list \<times> int" where
  "hotReload_tick modTime lastModTime =
     (case modTime of
        None \<Rightarrow> ([], lastModTime)
      | Some t \<Rightarrow> if t > lastModTime then ([CancelRunning, RunAgain], t) else ([], lastModTime))"

end
