(* ===== verification/Program_Run.thy ===== *)
theory Program_Run
  imports Program Gateway_Spec Tcpmux_Spec Ws_Spec Quic_Spec
begin

text \<open>
  The running server process: the runtimes behind the interface \<^verbatim>\<open>InboundTarget\<close>, whatever their
  transport, each taking its own steps, and the gateways that hand connections to them through the
  registry.  \<open>program_reachable\<close> gives every state of the registry after \<^verbatim>\<open>Run\<close>.
\<close>

section \<open>Dynamic dispatch\<close>

text \<open>The methods of the interface; a UDP runtime is no target.\<close>

fun rt_IsReady :: "runtime \<Rightarrow> bool" where
  "rt_IsReady (RtTCP s) = IsReady s"
| "rt_IsReady (RtTCPMUX s) = mux_IsReady s"
| "rt_IsReady (RtWS s) = ws_IsReady s"
| "rt_IsReady (RtWSMUX s) = mux_IsReady s"
| "rt_IsReady (RtQUIC s) = quic_IsReady s"
| "rt_IsReady _ = False"

fun rt_EnqueueInbound :: "offer \<Rightarrow> runtime \<Rightarrow> bool \<times> runtime" where
  "rt_EnqueueInbound q (RtTCP s) = apsnd RtTCP (enqueue_offer q s)"
| "rt_EnqueueInbound q (RtTCPMUX s) = apsnd RtTCPMUX (mux_enqueue_offer q s)"
| "rt_EnqueueInbound q (RtWS s) = apsnd RtWS (ws_enqueue_offer q s)"
| "rt_EnqueueInbound q (RtWSMUX s) = apsnd RtWSMUX (mux_offer wm_muxCon q s)"
| "rt_EnqueueInbound q (RtQUIC s) = apsnd RtQUIC (quic_enqueue_offer q s)"
| "rt_EnqueueInbound q rt = (False, rt)"

fun rt_queue :: "runtime \<Rightarrow> LocalTCPConn list" where
  "rt_queue (RtTCP s) = ch_buf (tt_localChannel s)"
| "rt_queue (RtTCPMUX s) = ch_buf (mx_localChannel s)"
| "rt_queue (RtWS s) = ch_buf (ws_localChannel s)"
| "rt_queue (RtWSMUX s) = ch_buf (mx_localChannel s)"
| "rt_queue (RtQUIC s) = ch_buf (qs_localChan s)"
| "rt_queue _ = []"

fun rt_bound :: "runtime \<Rightarrow> nat" where
  "rt_bound (RtTCP s) = ch_cap (tt_localChannel s)"
| "rt_bound (RtTCPMUX s) = ch_cap (mx_localChannel s)"
| "rt_bound (RtWS s) = ch_cap (ws_localChannel s)"
| "rt_bound (RtWSMUX s) = ch_cap (mx_localChannel s)"
| "rt_bound (RtQUIC s) = ch_cap (qs_localChan s)"
| "rt_bound _ = 0"

interpretation program_target: inbound_target rt_IsReady rt_EnqueueInbound rt_queue rt_bound
proof
  fix q :: offer and s t ok
  show "rt_EnqueueInbound q s = (True, t) \<Longrightarrow> rt_IsReady s \<and> rt_queue t = rt_queue s @ [local_of q]"
    by (cases s) (auto simp: apsnd_def map_prod_def split: prod.splits
        dest!: tcp_target.accepts mux_target.accepts ws_target.accepts wsmux_target.accepts quic_target.accepts)
  show "rt_EnqueueInbound q s = (False, t) \<Longrightarrow> t = s \<and> (\<not> rt_IsReady s \<or> rt_bound s \<le> length (rt_queue s))"
    by (cases s) (auto simp: apsnd_def map_prod_def split: prod.splits
        dest!: tcp_target.refuses mux_target.refuses ws_target.refuses wsmux_target.refuses quic_target.refuses)
  show "rt_EnqueueInbound q s = (ok, t) \<Longrightarrow> rt_IsReady t = rt_IsReady s \<and> rt_bound t = rt_bound s
      \<and> (length (rt_queue s) \<le> rt_bound s \<longrightarrow> length (rt_queue t) \<le> rt_bound t)"
    by (cases s) (auto simp: apsnd_def map_prod_def split: prod.splits
        dest!: tcp_target.keeps mux_target.keeps ws_target.keeps wsmux_target.keeps quic_target.keeps)
qed

section \<open>The runtimes at work\<close>

inductive rt_step :: "runtime \<Rightarrow> runtime \<Rightarrow> bool" where
  tcp: "tcp_step s (es, t) \<Longrightarrow> rt_step (RtTCP s) (RtTCP t)"
| tcpmux: "mux_step s (es, t) \<Longrightarrow> rt_step (RtTCPMUX s) (RtTCPMUX t)"
| ws: "ws_step s (es, t) \<Longrightarrow> rt_step (RtWS s) (RtWS t)"
| wsmux: "wsmux_step s t \<Longrightarrow> rt_step (RtWSMUX s) (RtWSMUX t)"
| quic: "quic_step s (es, t) \<Longrightarrow> rt_step (RtQUIC s) (RtQUIC t)"

inductive_cases rt_stepE: "rt_step r t"

text \<open>A runtime in a state that the transport of its server can reach with the configuration of its
  server.\<close>

definition rt_reachable :: "ServerConfig \<Rightarrow> runtime \<Rightarrow> bool" where
  "rt_reachable c rt = (case rt of
     RtTCP s \<Rightarrow> srv_Transport c = TCP \<and> tcp_reachable (server_tcp_config c) s
   | RtTCPMUX s \<Rightarrow> srv_Transport c = TCPMUX \<and> mux_reachable (server_tcpmux_config c) s
   | RtWS s \<Rightarrow> srv_Transport c \<in> {WS, WSS} \<and> ws_reachable (server_ws_config c) s
   | RtWSMUX s \<Rightarrow> srv_Transport c \<in> {WSMUX, WSSMUX} \<and> wsmux_reachable (server_wsmux_config c) s
   | RtQUIC s \<Rightarrow> srv_Transport c = QUIC \<and> quic_reachable (server_quic_config c) s
   | _ \<Rightarrow> False)"

lemma rt_reachable_step: "rt_step r t \<Longrightarrow> rt_reachable c r \<Longrightarrow> rt_reachable c t"
  by (erule rt_stepE) (auto simp: rt_reachable_def intro: tcp_reachable.step mux_reachable.step ws_reachable.step
      wsmux_reachable.step quic_reachable.step)

lemma rt_reachable_build: "Runtime (NewServer c) = Some rt \<Longrightarrow> rt_reachable c rt"
  by (auto simp: Runtime_def NewServer_def build_def Let_def rt_reachable_def
      intro: tcp_reachable.start mux_reachable.start ws_reachable.start wsmux_reachable.start quic_reachable.start
      split: if_splits)

text \<open>What a gateway does to a runtime is one of its steps.\<close>

lemma rt_enqueue_step:
  assumes "rt_EnqueueInbound q r = (ok, t)"
  shows "t = r \<or> rt_step r t"
proof -
  obtain now sk addr port where q: "q = (now, sk, addr, port)" by (metis prod.exhaust)
  show ?thesis
  proof (cases r)
    case (RtTCP s)
    with assms q show ?thesis
      using tcp_step.intros(6) [of s now sk addr port]
      by (auto simp: enqueue_offer_def apsnd_def map_prod_def split: prod.splits intro: rt_step.tcp)
  next
    case (RtTCPMUX s)
    with assms q show ?thesis
      using mux_step.intros(8) [of s now sk addr port]
      by (auto simp: mux_enqueue_offer_def mux_offer_def apsnd_def map_prod_def split: prod.splits intro: rt_step.tcpmux)
  next
    case (RtWS s)
    with assms q show ?thesis
      using ws_step.intros(6) [of s now sk addr port]
      by (auto simp: ws_enqueue_offer_def apsnd_def map_prod_def split: prod.splits intro: rt_step.ws)
  next
    case (RtWSMUX s)
    with assms q show ?thesis
      using wsmux_step.intros(5) [of s now sk addr port]
      by (auto simp: mux_offer_def wsmux_EnqueueInbound_def apsnd_def map_prod_def split: prod.splits intro: rt_step.wsmux)
  next
    case (RtQUIC s)
    with assms q show ?thesis
      using quic_step.intros(6) [of s now sk addr port]
      by (auto simp: quic_enqueue_offer_def apsnd_def map_prod_def split: prod.splits intro: rt_step.quic)
  qed (use assms in simp_all)
qed

section \<open>The process\<close>

text \<open>After \<^verbatim>\<open>Run\<close> had the effects \<open>es\<close>, a registered runtime steps, or a started gateway handles a
  connection.\<close>

inductive program_step :: "run_effect list \<Rightarrow> runtime registry \<Rightarrow> runtime registry \<Rightarrow> bool" for es where
  "reg n = Some r \<Longrightarrow> rt_step r t \<Longrightarrow> program_step es reg (reg(n \<mapsto> t))"
| "StartSNIGateway g \<in> set es \<Longrightarrow> program_step es reg (snd (sni_handleConn rt_IsReady rt_EnqueueInbound now g a reg))"
| "StartHTTPGateway h \<in> set es \<Longrightarrow> program_step es reg (snd (http_handleConn rt_IsReady rt_EnqueueInbound now h a reg))"

inductive_cases program_stepE [consumes 1, case_names runtime sni http]: "program_step es reg reg'"

inductive program_reachable :: "run_effect list \<times> runtime registry \<Rightarrow> runtime registry \<Rightarrow> bool" for started where
  start: "program_reachable started (snd started)"
| step: "program_reachable started reg \<Longrightarrow> program_step (fst started) reg reg' \<Longrightarrow> program_reachable started reg'"

lemma dispatch_registry:
  "snd (dispatch rdy enq now routes key fb a c reg) = reg
   \<or> (\<exists>n r q ok t. reg n = Some r \<and> enq q r = (ok, t) \<and> snd (dispatch rdy enq now routes key fb a c reg) = reg(n \<mapsto> t))"
  by (simp add: dispatch_def Lookup_def Let_def split: option.splits prod.splits) blast

lemma gateway_registry:
  "snd (sni_handleConn rdy enq now g a reg) = reg
     \<or> (\<exists>n r q ok t. reg n = Some r \<and> enq q r = (ok, t) \<and> snd (sni_handleConn rdy enq now g a reg) = reg(n \<mapsto> t))"
  "snd (http_handleConn rdy enq now h a reg) = reg
     \<or> (\<exists>n r q ok t. reg n = Some r \<and> enq q r = (ok, t) \<and> snd (http_handleConn rdy enq now h a reg) = reg(n \<mapsto> t))"
proof -
  show "snd (sni_handleConn rdy enq now g a reg) = reg
     \<or> (\<exists>n r q ok t. reg n = Some r \<and> enq q r = (ok, t) \<and> snd (sni_handleConn rdy enq now g a reg) = reg(n \<mapsto> t))"
    unfolding sni_handleConn_def
    using dispatch_registry [where rdy = rdy and enq = enq and reg = reg]
    by (cases "ReadTLSClientHelloSNI (ac_peer a) (gw_InspectTimeout (gt_config g))") (simp_all split: prod.split)
  show "snd (http_handleConn rdy enq now h a reg) = reg
     \<or> (\<exists>n r q ok t. reg n = Some r \<and> enq q r = (ok, t) \<and> snd (http_handleConn rdy enq now h a reg) = reg(n \<mapsto> t))"
    unfolding http_handleConn_def
    using dispatch_registry [where rdy = rdy and enq = enq and reg = reg]
    by (simp split: prod.split sum.split)
qed

text \<open>The registry holds, under its name, the runtime of every configured server that can be a
  target, and nothing else.\<close>

definition registry_ok :: "ServerConfig list \<Rightarrow> runtime registry \<Rightarrow> bool" where
  "registry_ok ss reg \<longleftrightarrow>
     (\<forall>n r. reg n = Some r \<longrightarrow> (\<exists>c \<in> set ss. srv_Name c = n \<and> rt_reachable c r))
     \<and> (\<forall>c \<in> set ss. Runtime (NewServer c) \<noteq> None \<longrightarrow> reg (srv_Name c) \<noteq> None)"

lemma registry_ok_update:
  assumes "registry_ok ss reg" and "reg n = Some r" and "\<And>c. rt_reachable c r \<Longrightarrow> rt_reachable c t"
  shows "registry_ok ss (reg(n \<mapsto> t))"
  using assms unfolding registry_ok_def by (metis fun_upd_apply option.distinct(1) option.inject)

lemma program_step_ok: "program_step es reg reg' \<Longrightarrow> registry_ok ss reg \<Longrightarrow> registry_ok ss reg'"
proof -
  assume ok: "registry_ok ss reg"
  have gw: "registry_ok ss reg'" if "reg' = reg
      \<or> (\<exists>n r q ok t. reg n = Some r \<and> rt_EnqueueInbound q r = (ok, t) \<and> reg' = reg(n \<mapsto> t))" for reg'
    using that ok registry_ok_update [OF ok] rt_enqueue_step rt_reachable_step by metis
  assume "program_step es reg reg'"
  then show ?thesis
  proof (cases rule: program_stepE)
    case runtime
    with registry_ok_update [OF ok] rt_reachable_step show ?thesis by blast
  next
    case sni
    show ?thesis by (rule gw) (unfold sni(1), rule gateway_registry(1))
  next
    case http
    show ?thesis by (rule gw) (unfold http(1), rule gateway_registry(2))
  qed
qed

lemma program_reachable_ok: "program_reachable p reg \<Longrightarrow> registry_ok ss (snd p) \<Longrightarrow> registry_ok ss reg"
  by (induction rule: program_reachable.induct) (auto intro: program_step_ok)

section \<open>What Run starts\<close>

lemma start_servers:
  "fold start_server ss (es, reg) = (es @ map (\<lambda>c. StartServer (NewServer c)) ss,
     fold (\<lambda>c reg. case Runtime (NewServer c) of Some rt \<Rightarrow> Register (srv_Name c) rt reg | None \<Rightarrow> reg) ss reg)"
  by (induction ss arbitrary: es reg) (simp_all add: start_server_def Let_def)

lemma registered:
  assumes "distinct (map srv_Name ss)"
  shows "fold (\<lambda>c reg. case Runtime (NewServer c) of Some rt \<Rightarrow> Register (srv_Name c) rt reg | None \<Rightarrow> reg) ss reg n
    = (case map_of (map (\<lambda>c. (srv_Name c, c)) ss) n of
         None \<Rightarrow> reg n
       | Some c \<Rightarrow> (case Runtime (NewServer c) of None \<Rightarrow> reg n | Some rt \<Rightarrow> Some rt))"
  using assms
proof (induction ss arbitrary: reg)
  case (Cons c ss)
  then have "map_of (map (\<lambda>c. (srv_Name c, c)) ss) (srv_Name c) = None"
    by (auto simp: map_of_eq_None_iff)
  with Cons show ?case by (auto simp: Register_def split: option.splits)
qed simp

lemma run_registry_ok:
  assumes "distinct (map srv_Name (cf_Servers cfg))"
  shows "registry_ok (cf_Servers cfg) (snd (run_servers listens cfg))"
proof -
  let ?m = "map_of (map (\<lambda>c. (srv_Name c, c)) (cf_Servers cfg))"
  have r: "snd (run_servers listens cfg) n = (case ?m n of None \<Rightarrow> None | Some c \<Rightarrow> Runtime (NewServer c))" for n
    by (simp add: run_servers_def start_servers registered [OF assms] NewRegistry_def split: prod.split option.split)
  have m: "?m n = Some c \<Longrightarrow> c \<in> set (cf_Servers cfg) \<and> srv_Name c = n" for n c
    by (auto dest!: map_of_SomeD)
  have n: "?m (srv_Name c) = Some c" if "c \<in> set (cf_Servers cfg)" for c
    using that assms by (auto intro!: map_of_is_SomeI simp: comp_def)
  have "\<exists>c \<in> set (cf_Servers cfg). srv_Name c = n \<and> rt_reachable c rt"
    if "snd (run_servers listens cfg) n = Some rt" for n rt
  proof -
    from that r obtain c where "?m n = Some c" "Runtime (NewServer c) = Some rt"
      by (cases "?m n") auto
    with m rt_reachable_build show ?thesis by blast
  qed
  moreover have "snd (run_servers listens cfg) (srv_Name c) \<noteq> None"
    if "c \<in> set (cf_Servers cfg)" "Runtime (NewServer c) \<noteq> None" for c
    using that(2) by (simp add: r n [OF that(1)])
  ultimately show ?thesis unfolding registry_ok_def by blast
qed

lemma run_servers_effects:
  "fst (run_servers listens cfg) = map (\<lambda>c. StartServer (NewServer c)) (cf_Servers cfg)
     @ (case start_sni_gateways listens (cf_SNIGateways cfg) of (gs, ok) \<Rightarrow>
          gs @ (if ok then start_http_gateways listens (cf_HTTPGateways cfg) else []))"
  by (simp add: run_servers_def start_servers split: prod.split)

lemma started_sni:
  "start_sni_gateways listens gs = (es, ok) \<Longrightarrow> StartSNIGateway g \<in> set es \<Longrightarrow> \<exists>s \<in> set gs. g = sni_gateway s"
  by (induction gs arbitrary: es ok) (auto simp: Let_def split: if_splits prod.splits)

lemma started_http: "StartHTTPGateway h \<in> set (start_http_gateways listens gs) \<Longrightarrow> \<exists>s \<in> set gs. h = http_gateway s"
  by (induction gs) (auto simp: Let_def split: if_splits)

lemma start_effects:
  "start_sni_gateways listens gs = (es, ok) \<Longrightarrow> e \<in> set es \<Longrightarrow> (\<exists>g. e = StartSNIGateway g) \<or> e = FatalExit SNIGatewayFailed"
  "e \<in> set (start_http_gateways listens hs) \<Longrightarrow> (\<exists>h. e = StartHTTPGateway h) \<or> e = FatalExit HTTPGatewayFailed"
  by (induction gs arbitrary: es ok; auto simp: Let_def split: if_splits prod.splits)
    (induction hs; auto simp: Let_def split: if_splits)

end
