(* ===== verification/Program_Queues.thy ===== *)
theory Program_Queues
  imports Program_Run
begin

text \<open>
  No step of a runtime changes the size of its channels in its configuration, only the status text;
  so the queue a gateway offers connections to has the configured capacity in every reachable state.
\<close>

lemma control_send_config: "tt_config (snd (control_send x s)) = tt_config s"
  by (auto simp: control_send_def split: option.split prod.split)

lemma channelHandshake_config: "tt_config (snd (channelHandshake oks s)) = tt_config s"
  by (induction oks s rule: channelHandshake.induct) (auto simp: Let_def split: option.split prod.split)

lemma channelHandler_config: "tt_config (snd (channelHandler_start s)) = tt_config s"
  "tt_config (snd (channelHandler_step rtt ev s)) = tt_config s"
proof -
  have c: "control_send x u = (e, t) \<Longrightarrow> tt_config t = tt_config u" for x u e t
    using control_send_config [of x u] by simp
  show "tt_config (snd (channelHandler_start s)) = tt_config s"
    by (auto simp: channelHandler_start_def split: prod.split option.split dest: c)
  show "tt_config (snd (channelHandler_step rtt ev s)) = tt_config s"
    by (auto simp: channelHandler_step_def control_send_config
        split: control_event.split prod.split option.split dest: c)
qed

lemma tcp_step_size: "tcp_step s (es, t) \<Longrightarrow> tcp_ChannelSize (tt_config t) = tcp_ChannelSize (tt_config s)"
proof (erule tcp_stepE)
  have e: "tt_config (snd (enqueueInbound now sk addr port s)) = tt_config s" for now sk addr port
    by (auto simp: enqueueInbound_def Let_def split: prod.split bool.split)
  have e': "enqueueInbound now sk addr port s = (b, u) \<Longrightarrow> tt_config u = tt_config s" for now sk addr port b u
    using e [of now sk addr port] by simp
  show "tcp_ChannelSize (tt_config t) = tcp_ChannelSize (tt_config s)" if "(es, t) = acceptTunnelConn c s" for c
    using that by (auto simp: acceptTunnelConn_def split: option.splits if_splits prod.splits bool.splits)
  show "tcp_ChannelSize (tt_config t) = tcp_ChannelSize (tt_config s)" if "(es, t) = channelHandshake oks s" for oks
    using channelHandshake_config [of oks s] that [symmetric] by simp
  show "tcp_ChannelSize (tt_config t) = tcp_ChannelSize (tt_config s)" if "t = snd (channelHandler_start s)"
    using channelHandler_config(1) that by simp
  show "tcp_ChannelSize (tt_config t) = tcp_ChannelSize (tt_config s)" if "t = snd (channelHandler_step rtt ev s)" for rtt ev
    using channelHandler_config(2) that by simp
  show "tcp_ChannelSize (tt_config t) = tcp_ChannelSize (tt_config s)" if "(es, t) = acceptLocalConn now sk addr s" for now sk addr
    using that by (auto simp: acceptLocalConn_def split: if_splits prod.splits bool.splits dest: e')
  show "tcp_ChannelSize (tt_config t) = tcp_ChannelSize (tt_config s)" if "t = snd (EnqueueInbound now sk addr port s)" for now sk addr port
    using that by (simp add: EnqueueInbound_def e)
  show "tcp_ChannelSize (tt_config t) = tcp_ChannelSize (tt_config s)" if "(es, t) = handleLoop_turn nows s" for nows
    using that by (auto simp: handleLoop_turn_def Let_def split: option.splits prod.splits)
qed (auto simp: Restart_def Start_begin_def Start_connected_def)

lemma more_config: "mux_core.more t = mux_core.more s \<Longrightarrow> mx_config t = mx_config (s :: TcpMuxTransport)"
  "mux_core.more u = mux_core.more v \<Longrightarrow> wm_config u = wm_config (v :: WsMuxTransport)"
  by (cases s; cases t; simp) (cases u; cases v; simp)

lemma mux_step_size: "mux_step s (es, t) \<Longrightarrow> tm_ChannelSize (mx_config t) = tm_ChannelSize (mx_config s)"
proof (erule mux_stepE)
  have d: "deliverTunnelConn client q u = (es', v) \<Longrightarrow> mx_config v = mx_config u" for client q u es' v
    by (auto simp: deliverTunnelConn_def split: option.splits handshaking.splits prod.splits bool.splits)
  have p: "mx_config (put_channels cs u) = mx_config u" for cs u
    by (auto simp: put_channels_def split: option.split)
  have e: "mux_enqueueInbound m now sk addr port s = (b, u) \<Longrightarrow> mx_config u = mx_config s" for m now sk addr port b u
    by (rule more_config(1)) (auto dest: mux_enqueue_frame)
  have rr: "sendNewConnSignalRoundRobin u = (b, es', v) \<Longrightarrow> mx_config v = mx_config u" for u b es' v
    by (auto simp: sendNewConnSignalRoundRobin_def Let_def p split: if_splits prod.splits option.splits)
  have hb: "broadcastHeartbeat u = (b, es', v) \<Longrightarrow> mx_config v = mx_config u" for u b es' v
    by (auto simp: broadcastHeartbeat_def split: if_splits prod.splits option.splits)
  let ?ok = "tm_ChannelSize (mx_config t) = tm_ChannelSize (mx_config s)"
  show ?ok if "(es, t) = mux_acceptTunnelConn ok client c s" for ok client c
    using that [symmetric] by (auto simp: mux_acceptTunnelConn_def split: option.splits if_splits prod.splits probe.splits
      dest!: tryPromote_state dest: d)
  show ?ok if "(es, t) = deliverTunnelConn client q s" for client q
    using d that by metis
  show ?ok if "(es, t) = mux_channelHandshake ok s" for ok
    using that by (auto simp: mux_channelHandshake_def split: handshaking.splits option.splits if_splits)
  show ?ok if "(es, t) = snd (mux_channelHandler_step ev s)" for ev
    using that by (auto simp: mux_channelHandler_step_def split: control_event.splits option.splits prod.splits dest: rr hb)
  show ?ok if "(es, t) = mux_acceptLocalConn (tm_MuxCon (mx_config s)) now sk addr s" for now sk addr
    using that by (auto simp: mux_acceptLocalConn_def split: if_splits prod.splits bool.splits dest: e)
  show ?ok if "t = snd (mux_EnqueueInbound (tm_MuxCon (mx_config s)) now sk addr port s)" for now sk addr port
    using that e [OF surjective_pairing] by (simp add: mux_EnqueueInbound_def)
  show ?ok if "(es, t) = session_step (tm_MuxCon (mx_config s)) i ev s" for i ev
    using that by (auto simp: session_step_def split: prod.splits dest!: handleSession_step_frame dest: more_config)
qed (auto simp: mux_Start_begin_def mux_Start_connected_def mux_handleLoop_turn_def mux_Restart_def split: option.splits)

lemma ws_step_size: "ws_step s (es, t) \<Longrightarrow> ws_ChannelSize (ws_config t) = ws_ChannelSize (ws_config s)"
proof (erule ws_stepE)
  let ?ok = "ws_ChannelSize (ws_config t) = ws_ChannelSize (ws_config s)"
  have e: "ws_config (snd (ws_enqueueInbound now sk addr port s)) = ws_config s" for now sk addr port
    by (auto simp: ws_enqueueInbound_def split: prod.split bool.split)
  have e': "ws_enqueueInbound now sk addr port s = (b, u) \<Longrightarrow> ws_config u = ws_config s" for now sk addr port b u
    using e [of now sk addr port] by simp
  have "ws_pair_loop nows l u = (es', v) \<Longrightarrow> ws_config v = ws_config u" for nows l u es' v
    by (induction nows l u arbitrary: es' v rule: ws_pair_loop.induct)
      (fastforce simp: Let_def split: option.splits prod.splits if_splits)+
  then have p: "ws_config (snd (ws_pair_loop nows l u)) = ws_config u" for nows l u
    by (metis prod.collapse)
  show ?ok if "ws_tunnelListener n r s = (es, gs, t)" for n r gs
    using that by (auto simp: ws_tunnelListener_def Let_def split: admission.splits option.splits prod.splits bool.splits)
  show ?ok if "t = snd (ws_channelHandler_step ev s)" for ev
    using that by (auto simp: ws_channelHandler_step_def split: option.splits prod.splits)
  show ?ok if "(es, t) = keepAlive k ev s" for k ev
    using that by (auto simp: keepAlive_def stop_keeper_def Let_def split: keeper_event.splits prod.splits bool.splits if_splits)
  show ?ok if "(es, t) = ws_acceptLocalConn now sk addr s" for now sk addr
    using that by (auto simp: ws_acceptLocalConn_def split: if_splits prod.splits bool.splits dest: e')
  show ?ok if "t = snd (ws_EnqueueInbound now sk addr port s)" for now sk addr port
    using that by (simp add: ws_EnqueueInbound_def e)
  show ?ok if "(es, t) = ws_handleLoop_turn nows s" for nows
  proof -
    have "t = snd (ws_handleLoop_turn nows s)" using that by (metis snd_conv)
    then show ?thesis by (simp add: ws_handleLoop_turn_def p split: option.split prod.split)
  qed
qed (auto simp: ws_Start_def ws_Restart_def)

lemma wsmux_step_size: "wsmux_step s t \<Longrightarrow> wm_ChannelSize (wm_config t) = wm_ChannelSize (wm_config s)"
proof (erule wsmux_stepE)
  let ?ok = "wm_ChannelSize (wm_config t) = wm_ChannelSize (wm_config s)"
  have e: "mux_enqueueInbound m now sk addr port s = (b, u) \<Longrightarrow> wm_config u = wm_config s" for m now sk addr port b u
    by (rule more_config(2)) (auto dest: mux_enqueue_frame)
  show ?ok if "t = snd (snd (wsmux_tunnelListener n client r s))" for n client r
    using that by (auto simp: wsmux_tunnelListener_def split: admission.splits option.splits prod.splits bool.splits)
  show ?ok if "t = snd (wsmux_channelHandler_step ev s)" for ev
    using that by (auto simp: wsmux_channelHandler_step_def split: option.splits prod.splits)
  show ?ok if "t = snd (wsmux_acceptLocalConn now sk addr s)" for now sk addr
    using that by (auto simp: wsmux_acceptLocalConn_def mux_acceptLocalConn_def split: if_splits prod.splits bool.splits dest: e)
  show ?ok if "t = snd (wsmux_EnqueueInbound now sk addr port s)" for now sk addr port
    using that e [OF surjective_pairing] by (simp add: wsmux_EnqueueInbound_def mux_EnqueueInbound_def)
  show ?ok if "t = snd (wsmux_handleSession i ev s)" for i ev
    using that by (auto simp: wsmux_handleSession_def session_step_def split: prod.splits
        dest!: handleSession_step_frame dest: more_config)
qed (auto simp: wsmux_Start_def wsmux_handleLoop_turn_def mux_handleLoop_turn_def wsmux_Restart_def split: option.splits)

lemma quic_step_size: "quic_step s (es, t) \<Longrightarrow> qs_ChannelSize (qs_config t) = qs_ChannelSize (qs_config s)"
proof (erule quic_stepE)
  let ?ok = "qs_ChannelSize (qs_config t) = qs_ChannelSize (qs_config s)"
  have e: "qs_config (snd (quic_enqueueInbound now sk addr port s)) = qs_config s" for now sk addr port
    by (auto simp: quic_enqueueInbound_def split: prod.split bool.split)
  have e': "quic_enqueueInbound now sk addr port s = (b, u) \<Longrightarrow> qs_config u = qs_config s" for now sk addr port b u
    using e [of now sk addr port] by simp
  show ?ok if "t = quic_acceptTunCon c s" for c
    using that by (auto simp: quic_acceptTunCon_def split: if_splits prod.splits bool.splits)
  show ?ok if "(es, t) = quic_channelHandshake b accepted c (s\<lparr>qs_handshakes := remove1 c (qs_handshakes s)\<rparr>)" for b accepted c
    using that by (auto simp: quic_channelHandshake_def split: option.splits)
  show ?ok if "(es, t) = quic_keepalive i kev s" for i kev
    using that [symmetric] by (cases rule: quic_keepalive_cases) (auto simp: keepalive_exit_def keepalive_fail_def)
  show ?ok if "(es, t) = quic_acceptLocalCon now sk addr s" for now sk addr
    using that by (auto simp: quic_acceptLocalCon_def split: if_splits prod.splits bool.splits dest: e')
  show ?ok if "t = snd (quic_EnqueueInbound now sk addr port s)" for now sk addr port
    using that by (simp add: quic_EnqueueInbound_def e)
  show ?ok if "t = quic_handleTunConn s"
    using that by (auto simp: quic_handleTunConn_def split: option.splits)
  show ?ok if "(es, t) = quic_session_step i ev s" for i ev
  proof -
    obtain fs h' s' where st: "quic_handleSession ev (qs_sessions s ! i) s = (fs, h', s')" by (metis prod.exhaust)
    then have "qs_config s' = qs_config s" by (cases rule: quic_handleSession_cases) auto
    with st that show ?thesis by (simp add: quic_session_step_def)
  qed
qed (auto simp: quic_TunnelListener_def quic_Restart_def)

text \<open>The capacity of the queue of a target is the \<^verbatim>\<open>channel_size\<close> of its server, for good.\<close>

lemma rt_reachable_bound: "rt_reachable c r \<Longrightarrow> rt_bound r = nat (srv_ChannelSize c)"
proof -
  have tcp_size: "tcp_reachable g s \<Longrightarrow> tcp_ChannelSize (tt_config s) = tcp_ChannelSize g" for g s
    by (induction rule: tcp_reachable.induct) (auto simp: NewTCPServer_def dest: tcp_step_size)
  have t: "ch_cap (tt_localChannel s) = nat (tcp_ChannelSize g)" if "tcp_reachable g s" for g s
    using tcp_reachable_inv [OF that] tcp_size [OF that] by (simp add: tcp_inv_def chan_ok_def Let_def)
  have mux_size: "mux_reachable g s \<Longrightarrow> tm_ChannelSize (mx_config s) = tm_ChannelSize g" for g s
    by (induction rule: mux_reachable.induct) (auto simp: NewTcpMuxServer_def dest: mux_step_size)
  have m: "ch_cap (mx_localChannel s) = nat (tm_ChannelSize g)" if "mux_reachable g s" for g s
    using mux_reachable_inv [OF that] mux_size [OF that] by (simp add: mux_inv_simps chan_ok_def)
  have ws_size: "ws_reachable g s \<Longrightarrow> ws_ChannelSize (ws_config s) = ws_ChannelSize g" for g s
    by (induction rule: ws_reachable.induct) (auto simp: NewWSServer_def dest: ws_step_size)
  have w: "ch_cap (ws_localChannel s) = nat (ws_ChannelSize g)" if "ws_reachable g s" for g s
    using ws_reachable_inv [OF that] ws_size [OF that] by (simp add: ws_inv_simps chan_ok_def)
  have wsmux_size: "wsmux_reachable g s \<Longrightarrow> wm_ChannelSize (wm_config s) = wm_ChannelSize g" for g s
    by (induction rule: wsmux_reachable.induct) (auto simp: NewWSMuxServer_def dest: wsmux_step_size)
  have x: "ch_cap (mx_localChannel s) = nat (wm_ChannelSize g)" if "wsmux_reachable g s" for g s
    using wsmux_reachable_inv [OF that] wsmux_size [OF that] by (simp add: wsmux_inv_def core_inv_def chan_ok_def)
  have quic_size: "quic_reachable g s \<Longrightarrow> qs_ChannelSize (qs_config s) = qs_ChannelSize g" for g s
    by (induction rule: quic_reachable.induct) (auto simp: NewQuicServer_def dest: quic_step_size)
  have q: "ch_cap (qs_localChan s) = nat (qs_ChannelSize g)" if "quic_reachable g s" for g s
    using quic_reachable_inv [OF that] quic_size [OF that] by (simp add: quic_inv_simps chan_ok_def)
  assume "rt_reachable c r"
  then show ?thesis
    by (cases r) (auto simp: rt_reachable_def server_tcp_config_def server_tcpmux_config_def server_ws_config_def
        server_wsmux_config_def server_quic_config_def dest!: t m w x q)
qed

lemma rt_reachable_queue: "rt_reachable c r \<Longrightarrow> length (rt_queue r) \<le> rt_bound r"
proof -
  have t: "length (ch_buf (tt_localChannel s)) \<le> ch_cap (tt_localChannel s)" if "tcp_reachable g s" for g s
    using tcp_reachable_inv [OF that] by (simp add: tcp_inv_def chan_ok_def Let_def)
  have m: "length (ch_buf (mx_localChannel s)) \<le> ch_cap (mx_localChannel s)" if "mux_reachable g s" for g s
    using mux_reachable_inv [OF that] by (simp add: mux_inv_simps chan_ok_def)
  have w: "length (ch_buf (ws_localChannel s)) \<le> ch_cap (ws_localChannel s)" if "ws_reachable g s" for g s
    using ws_reachable_inv [OF that] by (simp add: ws_inv_simps chan_ok_def)
  have x: "length (ch_buf (mx_localChannel s)) \<le> ch_cap (mx_localChannel s)" if "wsmux_reachable g s" for g s
    using wsmux_reachable_inv [OF that] by (simp add: wsmux_inv_def core_inv_def chan_ok_def)
  have q: "length (ch_buf (qs_localChan s)) \<le> ch_cap (qs_localChan s)" if "quic_reachable g s" for g s
    using quic_reachable_inv [OF that] by (simp add: quic_inv_simps chan_ok_def)
  assume "rt_reachable c r"
  then show ?thesis by (cases r) (auto simp: rt_reachable_def dest: t m w x q)
qed

end
