(* ===== verification/Program_Spec.thy ===== *)
theory Program_Spec
  imports Program_Queues
begin

text \<open>
  The whole program: what \<^verbatim>\<open>Run\<close> does with a configuration file, and what holds in every state of a
  server process after it, from a route of the file to the queue of a runtime of any transport.
\<close>

section \<open>The configuration that takes effect\<close>

definition configured :: "(string \<Rightarrow> bool) \<Rightarrow> (string \<Rightarrow> Duration option) \<Rightarrow> pick_host
    \<Rightarrow> string + Config \<times> string list list \<Rightarrow> fatal_exit + Config" where
  "configured level_ok parse_dur pick decoded =
     (case loadConfig decoded of
        Inl e \<Rightarrow> Inl (LoadFailed e)
      | Inr raw \<Rightarrow>
          (case validateConfig parse_dur pick (applyDefaults level_ok raw) of
             Inl e \<Rightarrow> Inl (InvalidConfig e)
           | Inr cfg \<Rightarrow> Inr cfg))"

lemma configured_Inr:
  assumes "configured level_ok parse_dur pick decoded = Inr cfg"
  obtains raw where "loadConfig decoded = Inr raw"
    and "validateConfig parse_dur pick (applyDefaults level_ok raw) = Inr cfg"
  using assms that by (auto simp: configured_def split: sum.splits)

lemma Run_cases:
  "Run level_ok parse_dur pick listens decoded =
     (case configured level_ok parse_dur pick decoded of
        Inl x \<Rightarrow> ([FatalExit x], NewRegistry)
      | Inr cfg \<Rightarrow>
          let tasks = map Maintain (StartRuntimeMaintenance (cf_Runtime cfg)) in
          if cf_Servers cfg \<noteq> [] then (case run_servers listens cfg of (es, registry) \<Rightarrow> (tasks @ es, registry))
          else if cf_Clients cfg \<noteq> [] then
            (tasks @ start_clients 0 (cf_Clients cfg)
               @ (if \<exists>c \<in> set (cf_Clients cfg). cl_RemoteAddr c \<noteq> [] then [] else [FatalExit NoValidClient]), NewRegistry)
          else (tasks @ [FatalExit NothingConfigured], NewRegistry))"
  by (auto simp: Run_def configured_def Let_def split: sum.split prod.split)

lemma configured_names:
  assumes "configured level_ok parse_dur pick decoded = Inr cfg"
  shows "distinct (map srv_Name (cf_Servers cfg))"
  using assms by (rule configured_Inr)
    (auto simp: validateConfig_Inr valid_config_def names_ok_def resolve_config_def comp_def)

lemma configured_server:
  assumes "configured level_ok parse_dur pick decoded = Inr cfg" and "c \<in> set (cf_Servers cfg)" and "level_ok ''info''"
  shows "server_ok level_ok c" and "1024 \<le> srv_TCPCopyBufferBytes c \<and> srv_TCPCopyBufferBytes c \<le> 1048576"
proof -
  from assms(1) obtain raw where v: "validateConfig parse_dur pick (applyDefaults level_ok raw) = Inr cfg"
    by (rule configured_Inr)
  with assms(2) obtain d b where d: "d \<in> set (cf_Servers (applyDefaults level_ok raw))" "c = d\<lparr>srv_TCPCopyBufferBytes := b\<rparr>"
    by (auto simp: validateConfig_Inr resolve_config_def)
  have "server_ok level_ok d"
    using applyDefaults_config_ok [of level_ok raw] assms(3) d(1) by (auto simp: config_ok_def list_all_iff)
  with d(2) show "server_ok level_ok c" by (simp add: server_ok_def)
  have ok: "sizes_ok (applyDefaults level_ok raw)" "cfg = resolve_config parse_dur (applyDefaults level_ok raw)"
    using v by (simp_all add: validateConfig_Inr valid_config_def)
  have copy: "1024 \<le> result 0 (parseTCPCopyBuffer x) \<and> result 0 (parseTCPCopyBuffer x) \<le> 1048576"
    if "parses (parseTCPCopyBuffer x)" for x
    using that parseTCPCopyBuffer_Inr [of x] by (cases "parseTCPCopyBuffer x") auto
  from ok assms(2) show "1024 \<le> srv_TCPCopyBufferBytes c \<and> srv_TCPCopyBufferBytes c \<le> 1048576"
    by (auto simp: sizes_ok_def list_all_iff resolve_config_def copy)
qed

section \<open>The registry in every state\<close>

lemma empty_registry_ok: "registry_ok [] NewRegistry"
  by (simp add: registry_ok_def NewRegistry_def)

lemma program_registry:
  assumes "configured level_ok parse_dur pick decoded = Inr cfg"
    and "program_reachable (Run level_ok parse_dur pick listens decoded) reg"
  shows "registry_ok (cf_Servers cfg) reg"
  using assms(2)
proof (rule program_reachable_ok)
  show "registry_ok (cf_Servers cfg) (snd (Run level_ok parse_dur pick listens decoded))"
    using run_registry_ok [OF configured_names [OF assms(1)], of listens] empty_registry_ok
    by (auto simp: Run_cases assms(1) Let_def split: prod.split)
qed

lemma program_no_config:
  assumes "configured level_ok parse_dur pick decoded = Inl x"
    and "program_reachable (Run level_ok parse_dur pick listens decoded) reg"
  shows "reg n = None"
  using program_reachable_ok [OF assms(2), of "[]"] empty_registry_ok
  by (auto simp: Run_cases assms(1) registry_ok_def)

definition known_transport :: "TransportType \<Rightarrow> bool" where
  "known_transport t \<longleftrightarrow> t \<in> {TCP, TCPMUX, WS, WSS, WSMUX, WSSMUX, QUIC, UDP}"

lemma known_target: "known_transport (srv_Transport c) \<Longrightarrow> srv_Transport c \<noteq> UDP \<Longrightarrow> Runtime (NewServer c) \<noteq> None"
  by (auto simp: known_transport_def Runtime_def NewServer_def build_def Let_def transport_defs)

text \<open>The server of a route is registered, and its runtime is in a state its transport can reach.\<close>

lemma route_registered:
  assumes "configured level_ok parse_dur pick decoded = Inr cfg"
    and "program_reachable (Run level_ok parse_dur pick listens decoded) reg"
    and "c \<in> set (cf_Servers cfg)" and "srv_Transport c \<noteq> UDP" and "known_transport (srv_Transport c)"
  obtains r where "reg (srv_Name c) = Some r" and "rt_reachable c r"
proof -
  have ok: "registry_ok (cf_Servers cfg) reg" using assms(1,2) by (rule program_registry)
  with assms(3) known_target [OF assms(5,4)] obtain r where r: "reg (srv_Name c) = Some r"
    unfolding registry_ok_def by blast
  with ok obtain d where d: "d \<in> set (cf_Servers cfg)" "srv_Name d = srv_Name c" "rt_reachable d r"
    unfolding registry_ok_def by blast
  with configured_names [OF assms(1)] assms(3) have "d = c" by (auto simp: distinct_map inj_on_def)
  with d r that show thesis by blast
qed

lemma configured_sni_server:
  assumes "configured level_ok parse_dur pick decoded = Inr cfg" and "g \<in> set (cf_SNIGateways cfg)"
    and "q \<in> set (sg_Routes g)"
  obtains c where "c \<in> set (cf_Servers cfg)" and "srv_Name c = TrimSpace (sr_Server q)" and "srv_Transport c \<noteq> UDP"
proof -
  from assms(1) obtain raw where v: "validateConfig parse_dur pick (applyDefaults level_ok raw) = Inr cfg"
    by (rule configured_Inr)
  from v assms(2) obtain g0 where g0: "g0 \<in> set (cf_SNIGateways (applyDefaults level_ok raw))" "g = sni_resolved g0"
    by (auto simp: validateConfig_Inr resolve_config_def)
  with v assms(3) have "route_ok (servers_by_name (applyDefaults level_ok raw)) (sni_key q) (sr_Server q) (sr_Target q)"
    "names_ok (applyDefaults level_ok raw)"
    by (auto simp: validateConfig_Inr valid_config_def gateways_ok_def sni_routes_ok_def list_all_iff sni_resolved_def)
  from resolved_entry [OF this] resolved_servers [of _ "applyDefaults level_ok raw" parse_dur] v that
  show thesis by (fastforce simp: validateConfig_Inr)
qed

lemma configured_http_server:
  assumes "configured level_ok parse_dur pick decoded = Inr cfg" and "g \<in> set (cf_HTTPGateways cfg)"
    and "q \<in> set (hg_Routes g)"
  obtains c where "c \<in> set (cf_Servers cfg)" and "srv_Name c = TrimSpace (hr_Server q)" and "srv_Transport c \<noteq> UDP"
proof -
  from assms(1) obtain raw where v: "validateConfig parse_dur pick (applyDefaults level_ok raw) = Inr cfg"
    by (rule configured_Inr)
  from v assms(2) obtain g0 where g0: "g0 \<in> set (cf_HTTPGateways (applyDefaults level_ok raw))" "g = http_resolved g0"
    by (auto simp: validateConfig_Inr resolve_config_def)
  with v assms(3) have "route_ok (servers_by_name (applyDefaults level_ok raw)) (http_key q) (hr_Server q) (hr_Target q)"
    "names_ok (applyDefaults level_ok raw)"
    by (auto simp: validateConfig_Inr valid_config_def gateways_ok_def http_routes_ok_def list_all_iff http_resolved_def)
  from resolved_entry [OF this] resolved_servers [of _ "applyDefaults level_ok raw" parse_dur] v that
  show thesis by (fastforce simp: validateConfig_Inr)
qed

section \<open>The effects of Run\<close>

text \<open>The clients that are started, in order, and whether a fatal error ended the process.\<close>

fun clients_started :: "run_effect list \<Rightarrow> ClientConfig list" where
  "clients_started [] = []"
| "clients_started (StartClient c # es) = c # clients_started es"
| "clients_started (_ # es) = clients_started es"

fun ends_fatally :: "run_effect list \<Rightarrow> bool" where
  "ends_fatally [] = False"
| "ends_fatally (FatalExit x # es) = True"
| "ends_fatally (_ # es) = ends_fatally es"

lemma clients_started_append [simp]: "clients_started (es @ fs) = clients_started es @ clients_started fs"
  by (induction es rule: clients_started.induct) auto

lemma ends_fatally_append [simp]: "ends_fatally (es @ fs) \<longleftrightarrow> ends_fatally es \<or> ends_fatally fs"
  by (induction es rule: ends_fatally.induct) auto

lemma quiet_maps [simp]:
  "clients_started (map Maintain ts) = []" "\<not> ends_fatally (map Maintain ts)"
  "clients_started (map (\<lambda>c. StartServer (NewServer c)) ss) = []" "\<not> ends_fatally (map (\<lambda>c. StartServer (NewServer c)) ss)"
  by (induction ts; simp)+ (induction ss; simp)+

lemma start_clients_effects [simp]:
  "clients_started (start_clients i cs) = filter (\<lambda>c. cl_RemoteAddr c \<noteq> []) cs" "\<not> ends_fatally (start_clients i cs)"
  by (induction cs arbitrary: i) simp_all

lemma start_sni_fatal:
  "start_sni_gateways listens gs = (es, ok) \<Longrightarrow> (ends_fatally es \<longleftrightarrow> \<not> ok) \<and> clients_started es = []
     \<and> (ok \<longleftrightarrow> (\<forall>g \<in> set gs. listens (sg_ListenAddr g)))"
  by (induction gs arbitrary: es ok)
    (auto simp: Let_def Gateway_Start_def NewGateway_def gatewayRuntimeConfig_def split: if_splits prod.splits)

lemma start_http_fatal:
  "(ends_fatally (start_http_gateways listens gs) \<longleftrightarrow> (\<exists>g \<in> set gs. \<not> listens (hg_ListenAddr g)))
     \<and> clients_started (start_http_gateways listens gs) = []"
  by (induction gs) (auto simp: Let_def HTTPGateway_Start_def NewHTTPGateway_def httpGatewayRuntimeConfig_def)

lemma run_servers_fatal:
  "(ends_fatally (fst (run_servers listens cfg)) \<longleftrightarrow> (\<exists>g \<in> set (cf_SNIGateways cfg). \<not> listens (sg_ListenAddr g))
      \<or> (\<exists>g \<in> set (cf_HTTPGateways cfg). \<not> listens (hg_ListenAddr g)))
     \<and> clients_started (fst (run_servers listens cfg)) = []"
proof -
  obtain gs ok where g: "start_sni_gateways listens (cf_SNIGateways cfg) = (gs, ok)" by (metis prod.exhaust)
  from start_sni_fatal [OF g] start_http_fatal [of listens "cf_HTTPGateways cfg"] show ?thesis
    by (auto simp: run_servers_effects g)
qed

text \<open>Nothing happens after a fatal error.\<close>

fun fatal_last :: "run_effect list \<Rightarrow> bool" where
  "fatal_last [] = True"
| "fatal_last (FatalExit x # es) = (es = [])"
| "fatal_last (_ # es) = fatal_last es"

lemma fatal_last_append: "\<not> ends_fatally es \<Longrightarrow> fatal_last (es @ fs) = fatal_last fs"
  by (induction es rule: fatal_last.induct) auto

lemma fatal_last_quiet: "\<not> ends_fatally es \<Longrightarrow> fatal_last es"
  by (induction es rule: fatal_last.induct) auto

lemma start_sni_last: "start_sni_gateways listens gs = (es, ok) \<Longrightarrow> fatal_last es"
  by (induction gs arbitrary: es ok) (auto simp: Let_def split: if_splits prod.splits)

lemma start_http_last: "fatal_last (start_http_gateways listens gs)"
  by (induction gs) (auto simp: Let_def)

lemma run_servers_last: "fatal_last (fst (run_servers listens cfg))"
proof -
  obtain gs ok where g: "start_sni_gateways listens (cf_SNIGateways cfg) = (gs, ok)" by (metis prod.exhaust)
  from start_sni_fatal [OF g] start_sni_last [OF g] start_http_last [of listens "cf_HTTPGateways cfg"] show ?thesis
    by (cases ok) (simp_all add: run_servers_effects g fatal_last_append)
qed

lemma Run_starts:
  assumes "configured level_ok parse_dur pick decoded = Inr cfg" and "c \<in> set (cf_Servers cfg)"
  shows "StartServer (NewServer c) \<in> set (fst (Run level_ok parse_dur pick listens decoded))"
proof -
  obtain es reg where r: "run_servers listens cfg = (es, reg)" by (metis prod.exhaust)
  have "StartServer (NewServer c) \<in> set es"
    using assms(2) run_servers_effects [of listens cfg] by (simp add: r)
  moreover have "cf_Servers cfg \<noteq> []" using assms(2) by auto
  ultimately show ?thesis by (simp add: Run_cases assms(1) Let_def r)
qed

section \<open>A running example\<close>

abbreviation demo_run :: "run_effect list \<times> runtime registry" where
  "demo_run \<equiv> Run (\<lambda>_. True) (\<lambda>_. None) hd (\<lambda>_. True) (Inr (demo_raw, [[''x'', ''y'']]))"

lemma demo_configured:
  "configured (\<lambda>_. True) (\<lambda>_. None) hd (Inr (demo_raw, [[''x'', ''y'']])) = Inr demo_resolved"
  using demo_validated by (simp add: configured_def loadConfig_def demo_config_def legacyServerSNIFields_def)

text \<open>Its server \<open>b\<close>, once its external client has connected.\<close>

definition demo_b :: ServerConfig where
  "demo_b = cf_Servers demo_resolved ! 1"

definition demo_b_ready :: TcpMuxTransport where
  "demo_b_ready = snd (mux_channelHandshake True (snd (deliverTunnelConn None \<lparr>mq_conn = demo_peer, mq_tcp = True\<rparr>
     (snd (mux_Start_begin (NewTcpMuxServer (server_tcpmux_config demo_b)))))))"

lemma demo_b_props: "demo_b \<in> set (cf_Servers demo_resolved)" "srv_Name demo_b = ''b''" "srv_Transport demo_b = TCPMUX"
  "srv_Token demo_b = ''musix''" "srv_ChannelSize demo_b = 2048"
  by (simp_all add: demo_b_def resolve_config_def demo_config_def demo_raw_def applyDefaults_def default_server_def
      zero_server_def nonempty_or_def positive_or_def)

lemma demo_known: "\<forall>c \<in> set (cf_Servers demo_resolved). known_transport (srv_Transport c)"
  by (simp add: resolve_config_def demo_config_def demo_raw_def applyDefaults_def default_server_def known_transport_def)

lemma demo_sizes: "c \<in> set (cf_Servers demo_resolved) \<Longrightarrow> 0 < srv_ChannelSize c"
  using configured_server(1) [OF demo_configured] by (simp add: server_ok_def)

lemma demo_b_ready_props: "mx_ready demo_b_ready" "ch_buf (mx_localChannel demo_b_ready) = []"
proof -
  obtain c where "handshake_conn True ''musix'' demo_peer = Some c" using demo_peer_ready by blast
  then show "mx_ready demo_b_ready" "ch_buf (mx_localChannel demo_b_ready) = []"
    by (simp_all add: demo_b_ready_def mux_Start_begin_def NewTcpMuxServer_def deliverTunnelConn_def mux_channelHandshake_def
        server_tcpmux_config_def demo_b_props make_chan_def)
qed

lemma demo_program: "\<exists>reg. program_reachable demo_run reg \<and> reg ''b'' = Some (RtTCPMUX demo_b_ready)"
proof -
  let ?s = "NewTcpMuxServer (server_tcpmux_config demo_b)"
  let ?t = "snd (mux_Start_begin ?s)"
  let ?u = "snd (deliverTunnelConn None \<lparr>mq_conn = demo_peer, mq_tcp = True\<rparr> ?t)"
  have go: "program_reachable demo_run reg \<Longrightarrow> reg ''b'' = Some (RtTCPMUX x) \<Longrightarrow> mux_step x (es, y)
      \<Longrightarrow> \<exists>reg. program_reachable demo_run reg \<and> reg ''b'' = Some (RtTCPMUX y)" for reg x y es
    using program_reachable.step [OF _ program_step.intros(1) [OF _ rt_step.tcpmux]] by fastforce
  have "snd demo_run ''b'' = Runtime (NewServer demo_b)"
  proof -
    have d: "distinct (map srv_Name (cf_Servers demo_resolved))" by (rule configured_names [OF demo_configured])
    have m: "map_of (map (\<lambda>c. (srv_Name c, c)) (cf_Servers demo_resolved)) ''b'' = Some demo_b"
      using d demo_b_props(1,2) by (intro map_of_is_SomeI) (auto simp: comp_def image_iff intro!: bexI [of _ demo_b])
    have n: "cf_Servers demo_resolved \<noteq> []" using demo_b_props(1) by auto
    have "snd demo_run = snd (run_servers (\<lambda>_. True) demo_resolved)"
      using n by (simp add: Run_cases demo_configured Let_def split: prod.split)
    then show ?thesis
      by (simp add: run_servers_def start_servers registered [OF d] m NewRegistry_def split: prod.split option.split)
  qed
  then have 0: "snd demo_run ''b'' = Some (RtTCPMUX ?s)"
    by (simp add: Runtime_def NewServer_def build_def demo_b_props transport_defs)
  have e: "mx_controlChannel ?s = None" "mx_handshakeChannel ?s = Idle" by (simp_all add: NewTcpMuxServer_def)
  from go [OF program_reachable.start 0 mux_step.intros(3) [OF e]] obtain r1 where
    1: "program_reachable demo_run r1" "r1 ''b'' = Some (RtTCPMUX ?t)" by blast
  obtain fs where "deliverTunnelConn None \<lparr>mq_conn = demo_peer, mq_tcp = True\<rparr> ?t = (fs, ?u)" by (metis prod.collapse)
  then have "mux_step ?t (fs, ?u)" using mux_step.intros(2) by metis
  from go [OF 1 this] obtain r2 where 2: "program_reachable demo_run r2" "r2 ''b'' = Some (RtTCPMUX ?u)" by blast
  obtain gs where "mux_channelHandshake True ?u = (gs, demo_b_ready)" by (metis demo_b_ready_def prod.collapse)
  then have "mux_step ?u (gs, demo_b_ready)" using mux_step.intros(4) by metis
  from go [OF 2 this] show ?thesis .
qed

section \<open>Properties\<close>

text \<open>C1: from the configuration file to the queue of a server, for the whole program.  After \<^verbatim>\<open>Run\<close>
  with a file that is accepted and names known transports, in every state the servers and gateways
  reach, a client that sends the ClientHello of a name of an SNI route, in any fragmentation, is
  queued at the server of the route exactly when its runtime, of whatever transport, is connected
  and its queue is shorter than its \<^verbatim>\<open>channel_size\<close>; otherwise the connection is closed.\<close>

theorem program_sni_route:
  assumes "configured level_ok parse_dur pick decoded = Inr cfg"
    and "\<forall>c \<in> set (cf_Servers cfg). known_transport (srv_Transport c)"
    and "program_reachable (Run level_ok parse_dur pick listens decoded) reg"
    and "g \<in> set (cf_SNIGateways cfg)" and "q \<in> set (sg_Routes g)"
    and "ac_peer a (sni_timeout (sni_gateway g)) = Inr c" and "no_error c"
    and "pending c = concat (map tls_record rs) @ rest" and "list_all record_ok rs"
    and "length (concat (map tls_record rs)) \<le> maxClientHelloSize"
    and "concat (map snd rs) = handshake_bytes m" and "parseSNIFromClientHello m = Inr host"
    and "NormalizeSNIHost host = normalizeSNIHost (sr_SNI q)"
  shows "\<exists>s r. s \<in> set (cf_Servers cfg) \<and> srv_Name s = TrimSpace (sr_Server q)
    \<and> reg (srv_Name s) = Some r \<and> rt_reachable s r
    \<and> fst (sni_handleConn rt_IsReady rt_EnqueueInbound now (sni_gateway g) a reg)
        = (if rt_IsReady r \<and> length (rt_queue r) < nat (srv_ChannelSize s) then EnqueuedAt (srv_Name s) else ClosedConn)"
proof -
  from assms(1) obtain raw where v: "validateConfig parse_dur pick (applyDefaults level_ok raw) = Inr cfg"
    by (rule configured_Inr)
  obtain s where s: "s \<in> set (cf_Servers cfg)" "srv_Name s = TrimSpace (sr_Server q)" "srv_Transport s \<noteq> UDP"
    by (rule configured_sni_server [OF assms(1,4,5)])
  obtain r where r: "reg (srv_Name s) = Some r" "rt_reachable s r"
    using assms(2) s(1) by (auto intro: route_registered [OF assms(1,3) s(1,3)])
  have "gw_Routes (gt_config (sni_gateway g)) (NormalizeSNIHost host)
      = Some \<lparr>gr_Server = srv_Name s, gr_Target = TrimSpace (sr_Target q)\<rparr>"
    using validated_sni_map [OF v assms(4,5)] assms(13) s(2) by (simp add: NewGateway_routes sni_entry_def)
  from program_target.dispatch_exact [where routes = "gw_Routes (gt_config (sni_gateway g))", OF this, of reg r now]
    r rt_reachable_queue [OF r(2)] rt_reachable_bound [OF r(2)]
  have d: "fst (dispatch rt_IsReady rt_EnqueueInbound now (gw_Routes (gt_config (sni_gateway g))) (NormalizeSNIHost host) fb a c' reg)
      = (if rt_IsReady r \<and> length (rt_queue r) < nat (srv_ChannelSize s) then EnqueuedAt (srv_Name s) else ClosedConn)"
    for fb c' by simp
  have "fst (sni_handleConn rt_IsReady rt_EnqueueInbound now (sni_gateway g) a reg)
      = (if rt_IsReady r \<and> length (rt_queue r) < nat (srv_ChannelSize s) then EnqueuedAt (srv_Name s) else ClosedConn)"
    by (rule program_target.sni_dispatched [OF assms(6-12), of now reg]) (simp only: d)
  with s r show ?thesis by blast
qed

theorem program_sni_route_witness:
  "\<exists>reg. program_reachable demo_run reg
     \<and> fst (sni_handleConn rt_IsReady rt_EnqueueInbound 0 (sni_gateway demo_sni) demo_tls_client reg) = EnqueuedAt ''b''"
proof -
  obtain reg where reg: "program_reachable demo_run reg" "reg ''b'' = Some (RtTCPMUX demo_b_ready)"
    using demo_program by blast
  have "ac_peer demo_tls_client (sni_timeout (sni_gateway demo_sni)) = Inr demo_conn"
    by (simp add: demo_tls_client_def)
  from program_sni_route [OF demo_configured demo_known reg(1) demo_sni_route this demo_conn_ok(2,1) demo_records_ok(3,2,1)
      demo_parse, of 0] reg(2) demo_b_ready_props
  have "fst (sni_handleConn rt_IsReady rt_EnqueueInbound 0 (sni_gateway demo_sni) demo_tls_client reg) = EnqueuedAt ''b''"
    by (auto simp: demo_norms demo_normal mux_IsReady_def demo_sizes)
  with reg(1) show ?thesis by blast
qed

text \<open>C2: the same for the routes of the HTTP gateways and the Host of a request.\<close>

theorem program_http_route:
  assumes "configured level_ok parse_dur pick decoded = Inr cfg"
    and "\<forall>c \<in> set (cf_Servers cfg). known_transport (srv_Transport c)"
    and "program_reachable (Run level_ok parse_dur pick listens decoded) reg"
    and "g \<in> set (cf_HTTPGateways cfg)" and "q \<in> set (hg_Routes g)"
    and "ac_peer a (http_timeout (http_gateway g)) = Inr c" and "no_error c"
    and "http_host (effective_max (hw_MaxHeaderBytes (ht_config (http_gateway g)))) (pending c)
      = Some (NormalizeHTTPHost (hr_Host q))"
  shows "\<exists>s r. s \<in> set (cf_Servers cfg) \<and> srv_Name s = TrimSpace (hr_Server q)
    \<and> reg (srv_Name s) = Some r \<and> rt_reachable s r
    \<and> fst (http_handleConn rt_IsReady rt_EnqueueInbound now (http_gateway g) a reg)
        = (if rt_IsReady r \<and> length (rt_queue r) < nat (srv_ChannelSize s) then EnqueuedAt (srv_Name s) else ClosedConn)"
proof -
  from assms(1) obtain raw where v: "validateConfig parse_dur pick (applyDefaults level_ok raw) = Inr cfg"
    by (rule configured_Inr)
  obtain s where s: "s \<in> set (cf_Servers cfg)" "srv_Name s = TrimSpace (hr_Server q)" "srv_Transport s \<noteq> UDP"
    by (rule configured_http_server [OF assms(1,4,5)])
  obtain r where r: "reg (srv_Name s) = Some r" "rt_reachable s r"
    using assms(2) s(1) by (auto intro: route_registered [OF assms(1,3) s(1,3)])
  have "hw_Routes (ht_config (http_gateway g)) (NormalizeHTTPHost (hr_Host q))
      = Some \<lparr>gr_Server = srv_Name s, gr_Target = TrimSpace (hr_Target q)\<rparr>"
    using validated_http_map [OF v assms(4,5)] s(2) by (simp add: NewHTTPGateway_routes http_entry_def)
  from program_target.dispatch_exact [where routes = "hw_Routes (ht_config (http_gateway g))", OF this, of reg r now]
    r rt_reachable_queue [OF r(2)] rt_reachable_bound [OF r(2)]
  have d: "fst (dispatch rt_IsReady rt_EnqueueInbound now (hw_Routes (ht_config (http_gateway g)))
        (NormalizeHTTPHost (hr_Host q)) fb a c' reg)
      = (if rt_IsReady r \<and> length (rt_queue r) < nat (srv_ChannelSize s) then EnqueuedAt (srv_Name s) else ClosedConn)"
    for fb c' by simp
  have "fst (http_handleConn rt_IsReady rt_EnqueueInbound now (http_gateway g) a reg)
      = (if rt_IsReady r \<and> length (rt_queue r) < nat (srv_ChannelSize s) then EnqueuedAt (srv_Name s) else ClosedConn)"
    by (rule program_target.http_dispatched [OF assms(6-8), of now reg]) (simp only: d)
  with s r show ?thesis by blast
qed

theorem program_http_route_witness:
  "\<exists>reg. program_reachable demo_run reg
     \<and> fst (http_handleConn rt_IsReady rt_EnqueueInbound 0 (http_gateway demo_hg) demo_http_client reg) = EnqueuedAt ''b''"
proof -
  obtain reg where reg: "program_reachable demo_run reg" "reg ''b'' = Some (RtTCPMUX demo_b_ready)"
    using demo_program by blast
  have c: "ac_peer demo_http_client (http_timeout (http_gateway demo_hg)) = Inr demo_http"
    by (simp add: demo_http_client_def)
  have h: "http_host (effective_max (hw_MaxHeaderBytes (ht_config (http_gateway demo_hg)))) (pending demo_http)
      = Some (NormalizeHTTPHost (hr_Host \<lparr>hr_Host = ''ex.com:80'', hr_Server = ''b'', hr_Target = ''80''\<rparr>))"
    using demo_http_ok by (simp add: demo_http_route(3) demo_norms)
  from program_http_route [OF demo_configured demo_known reg(1) demo_http_route(1,2) c demo_http_ok(1) h, of 0]
    reg(2) demo_b_ready_props
  have "fst (http_handleConn rt_IsReady rt_EnqueueInbound 0 (http_gateway demo_hg) demo_http_client reg) = EnqueuedAt ''b''"
    by (auto simp: demo_norms mux_IsReady_def demo_sizes)
  with reg(1) show ?thesis by blast
qed

text \<open>C3: what becomes of any connection to an SNI gateway, whatever the client sends and in front of
  runtimes of any transport: it is closed, and then no queue changed; or it is appended to the queue
  of exactly one server, which was ready, and the queued connection delivers every byte the client
  sent, from the first byte of its ClientHello on.\<close>

theorem program_sni_connection:
  assumes "ac_peer a (sni_timeout g) = Inr c"
  shows "case sni_handleConn rt_IsReady rt_EnqueueInbound now g a reg of
      (ClosedConn, reg') \<Rightarrow> reg' = reg
    | (EnqueuedAt srv, reg') \<Rightarrow>
        \<exists>s t l. reg srv = Some s \<and> rt_IsReady s \<and> reg' = reg(srv \<mapsto> t) \<and> rt_queue t = rt_queue s @ [l]
          \<and> sk_id (lc_conn l) = ac_id a \<and> net_pending (sk_in (lc_conn l)) = pending c"
  using program_target.sni_closed [of now g a reg] program_target.sni_enqueued [OF _ assms, where now = now and reg = reg]
  by (auto split: prod.splits outcome.splits)

theorem program_sni_connection_witness:
  "case sni_handleConn rt_IsReady rt_EnqueueInbound 0 (sni_gateway demo_sni) demo_tls_client
       [''b'' \<mapsto> RtTCPMUX demo_b_ready] of
     (ClosedConn, reg') \<Rightarrow> reg' = [''b'' \<mapsto> RtTCPMUX demo_b_ready]
   | (EnqueuedAt srv, reg') \<Rightarrow> \<exists>t l. reg' srv = Some t \<and> l \<in> set (rt_queue t) \<and> net_pending (sk_in (lc_conn l)) = pending demo_conn"
proof -
  have "ac_peer demo_tls_client (sni_timeout (sni_gateway demo_sni)) = Inr demo_conn"
    by (simp add: demo_tls_client_def)
  from program_sni_connection [OF this, where now = 0 and reg = "[''b'' \<mapsto> RtTCPMUX demo_b_ready]"] show ?thesis
    by (auto split: prod.splits outcome.splits)
qed

text \<open>C4: the same for an HTTP gateway, where the bytes replayed are the header and what was read
  of the body with it.\<close>

theorem program_http_connection:
  assumes "ac_peer a (http_timeout g) = Inr c"
  shows "case http_handleConn rt_IsReady rt_EnqueueInbound now g a reg of
      (ClosedConn, reg') \<Rightarrow> reg' = reg
    | (EnqueuedAt srv, reg') \<Rightarrow>
        \<exists>s t l. reg srv = Some s \<and> rt_IsReady s \<and> reg' = reg(srv \<mapsto> t) \<and> rt_queue t = rt_queue s @ [l]
          \<and> sk_id (lc_conn l) = ac_id a \<and> net_pending (sk_in (lc_conn l)) = pending c"
  using program_target.http_closed [of now g a reg] program_target.http_enqueued [OF _ assms, where now = now and reg = reg]
  by (auto split: prod.splits outcome.splits)

theorem program_http_connection_witness:
  "case http_handleConn rt_IsReady rt_EnqueueInbound 0 (http_gateway demo_hg) demo_http_client
       [''b'' \<mapsto> RtTCPMUX demo_b_ready] of
     (ClosedConn, reg') \<Rightarrow> reg' = [''b'' \<mapsto> RtTCPMUX demo_b_ready]
   | (EnqueuedAt srv, reg') \<Rightarrow> \<exists>t l. reg' srv = Some t \<and> l \<in> set (rt_queue t) \<and> net_pending (sk_in (lc_conn l)) = pending demo_http"
proof -
  have "ac_peer demo_http_client (http_timeout (http_gateway demo_hg)) = Inr demo_http"
    by (simp add: demo_http_client_def)
  from program_http_connection [OF this, where now = 0 and reg = "[''b'' \<mapsto> RtTCPMUX demo_b_ready]"] show ?thesis
    by (auto split: prod.splits outcome.splits)
qed

text \<open>C5: the typing of the registry.  In every state that a process reaches after \<^verbatim>\<open>Run\<close>, while its
  runtimes take steps and its gateways hand them connections, what is registered under a name is
  the runtime of a server that was started under that name: of the transport its configuration
  asks for, in a state that transport can reach with that configuration, which satisfies the contract
  of the defaults; its queue has the configured, positive capacity and keeps it, and its copy buffer is
  between 1 KB and 1 MB.\<close>

theorem program_runtimes_typed:
  assumes "level_ok ''info''" and "program_reachable (Run level_ok parse_dur pick listens decoded) reg"
    and "reg name = Some r"
  shows "\<exists>c. StartServer (NewServer c) \<in> set (fst (Run level_ok parse_dur pick listens decoded)) \<and> srv_Name c = name
    \<and> rt_reachable c r \<and> server_ok level_ok c
    \<and> rt_bound r = nat (srv_ChannelSize c) \<and> 0 < rt_bound r \<and> length (rt_queue r) \<le> rt_bound r
    \<and> 1024 \<le> srv_TCPCopyBufferBytes c \<and> srv_TCPCopyBufferBytes c \<le> 1048576"
proof (cases "configured level_ok parse_dur pick decoded")
  case (Inl x)
  with program_no_config [OF Inl assms(2)] assms(3) show ?thesis by simp
next
  case (Inr cfg)
  from program_registry [OF Inr assms(2)] assms(3) obtain c where
    c: "c \<in> set (cf_Servers cfg)" "srv_Name c = name" "rt_reachable c r" unfolding registry_ok_def by blast
  note s = Run_starts [OF Inr c(1), of listens]
  have "0 < srv_ChannelSize c" using configured_server(1) [OF Inr c(1) assms(1)] by (simp add: server_ok_def)
  with s c configured_server [OF Inr c(1) assms(1)] rt_reachable_bound [OF c(3)] rt_reachable_queue [OF c(3)]
  show ?thesis by auto
qed

theorem program_runtimes_typed_witness:
  "\<exists>reg c. program_reachable demo_run reg \<and> reg ''b'' = Some (RtTCPMUX demo_b_ready)
     \<and> rt_reachable c (RtTCPMUX demo_b_ready) \<and> srv_Transport c = TCPMUX \<and> 0 < srv_ChannelSize c"
proof -
  obtain reg where reg: "program_reachable demo_run reg" "reg ''b'' = Some (RtTCPMUX demo_b_ready)"
    using demo_program by blast
  from program_runtimes_typed [OF _ reg] obtain c where
    "rt_reachable c (RtTCPMUX demo_b_ready)" "server_ok (\<lambda>_. True) c" by auto
  with reg show ?thesis by (auto simp: rt_reachable_def server_ok_def)
qed

text \<open>C8: when and only when \<^verbatim>\<open>Run\<close> ends the process, and nothing happens after that: when the file does not
  load or is not valid; when with servers some gateway cannot listen; when without servers no client
  has a remote address.\<close>

theorem Run_fatal:
  "fatal_last (fst (Run level_ok parse_dur pick listens decoded))
   \<and> (ends_fatally (fst (Run level_ok parse_dur pick listens decoded)) \<longleftrightarrow>
       (case configured level_ok parse_dur pick decoded of
          Inl _ \<Rightarrow> True
        | Inr cfg \<Rightarrow>
            if cf_Servers cfg \<noteq> [] then (\<exists>g \<in> set (cf_SNIGateways cfg). \<not> listens (sg_ListenAddr g))
              \<or> (\<exists>g \<in> set (cf_HTTPGateways cfg). \<not> listens (hg_ListenAddr g))
            else (\<forall>c \<in> set (cf_Clients cfg). cl_RemoteAddr c = [])))"
proof (cases "configured level_ok parse_dur pick decoded")
  case (Inl x)
  then show ?thesis by (simp add: Run_cases)
next
  case (Inr cfg)
  obtain es reg where r: "run_servers listens cfg = (es, reg)" by (metis prod.exhaust)
  from run_servers_fatal [of listens cfg] run_servers_last [of listens cfg] r Inr show ?thesis
    by (auto simp: Run_cases Let_def fatal_last_append fatal_last_quiet)
qed

theorem Run_fatal_witness:
  "ends_fatally (fst (Run (\<lambda>_. True) (\<lambda>_. None) hd (\<lambda>a. a \<noteq> '':43'') (Inr (demo_raw, [[''x'', ''y'']]))))
   \<and> \<not> ends_fatally (fst demo_run)"
proof -
  have s: "cf_Servers demo_resolved \<noteq> []" using demo_b_props(1) by auto
  have g: "sg_ListenAddr demo_sni = '':43''"
    by (simp add: resolve_config_def demo_config_def demo_raw_def applyDefaults_def sni_resolved_def default_sni_gateway_def)
  show ?thesis
    using Run_fatal [of "\<lambda>_. True" "\<lambda>_. None" hd "\<lambda>a. a \<noteq> '':43''" "Inr (demo_raw, [[''x'', ''y'']])"]
      Run_fatal [of "\<lambda>_. True" "\<lambda>_. None" hd "\<lambda>_. True" "Inr (demo_raw, [[''x'', ''y'']])"] s g demo_sni_route(1)
    by (auto simp: demo_configured)
qed

text \<open>C9: a process is a server or a client.  With a server in the file no client is started; without,
  exactly the clients with a remote address are started, in the order of the file.\<close>

theorem Run_clients:
  assumes "configured level_ok parse_dur pick decoded = Inr cfg"
  shows "clients_started (fst (Run level_ok parse_dur pick listens decoded))
    = (if cf_Servers cfg \<noteq> [] then [] else filter (\<lambda>c. cl_RemoteAddr c \<noteq> []) (cf_Clients cfg))"
proof -
  obtain es reg where r: "run_servers listens cfg = (es, reg)" by (metis prod.exhaust)
  from run_servers_fatal [of listens cfg] r assms show ?thesis by (simp add: Run_cases Let_def)
qed

theorem Run_clients_witness:
  "clients_started (fst demo_run) = [] \<and> cf_Clients demo_resolved \<noteq> []"
  using Run_clients [OF demo_configured, of "\<lambda>_. True"] demo_b_props(1)
  by (auto simp: resolve_config_def demo_config_def demo_raw_def applyDefaults_def)

text \<open>A transport nobody knows passes the validation; its server is started, with a start function that
  ends the process.\<close>

lemma unknown_transport_started:
  assumes "configured level_ok parse_dur pick decoded = Inr cfg" and "c \<in> set (cf_Servers cfg)"
    and "\<not> known_transport (srv_Transport c)"
  shows "StartServer \<lparr>sv_config = c, sv_build = RtInvalid (srv_Transport c)\<rparr>
    \<in> set (fst (Run level_ok parse_dur pick listens decoded))"
proof -
  have "NewServer c = \<lparr>sv_config = c, sv_build = RtInvalid (srv_Transport c)\<rparr>"
    using assms(3) by (simp add: NewServer_def build_def known_transport_def Let_def)
  with Run_starts [OF assms(1,2), of listens] show ?thesis by simp
qed

end
