(* ===== verification/Tunnel_Spec.thy ===== *)
theory Tunnel_Spec
  imports Client_Spec Relay_Spec Tcpmux_Spec
begin

text \<open>
  The tunnel as a whole, for the TCP transport: the handle loop of the server and its relay, the
  tunnel connection, and the dialer of the client and its relay, composed.  Its specification is a direct connection
  between the user and the local service.
\<close>

section \<open>Reading does not write\<close>

lemma tcpc_target_out: "tcpc_target ok w = (es, w') \<Longrightarrow> w_out w' = w_out w \<and> w_fail w' = w_fail w"
  using ReceiveTransport_out [of w] by (auto simp: tcpc_target_def split: prod.splits)

lemma pending_replay_net: "pending (replay nc) = net_pending nc"
  by (cases nc) auto

lemma relay_prefixes:
  "prefix (w_out (rl_to (TCPConnectionHandler n turns f t))) (w_out t @ pending (w_in f))
   \<and> prefix (w_out (rl_from (TCPConnectionHandler n turns f t))) (w_out f @ pending (w_in t))"
proof -
  have "relay_inv f t (TCPConnectionHandler n turns f t)"
    unfolding TCPConnectionHandler_def by (rule relay_inv_fold [OF relay_inv_start])
  then show ?thesis by (auto simp: relay_inv_def relay_hist_def)
qed

section \<open>Properties\<close>

text \<open>C6: the TCP tunnel refines a direct connection.  A local connection that the server pairs with a fresh
  tunnel connection is relayed there, and the client at the other end, once the target has arrived
  and been dialled, relays to the local service the target denotes.  Whatever the interleaving of the
  four copy loops, the buffer sizes and the segmentation, and wherever a side fails or closes: what the
  service receives is a prefix of what the user sends, for a connection of a gateway from the first
  inspected byte on, and what the user receives is a prefix of what the service sends.\<close>

theorem tcp_tunnel_transparent:
  assumes "pair_loop nows l ch = (cl, Paired tun, ch')" and "length (lc_remoteAddr l) < 65536"
    and "\<And>q. q \<in> set (ch_buf ch) \<Longrightarrow> w_out (tn_wire q) = [] \<and> w_fail (tn_wire q) = None"
    and "w_in user = replay (sk_in (lc_conn l))" and "w_out user = []"
    and "server = TCPConnectionHandler n turns user (tn_wire tun)"
    and "receives w (w_out (tn_wire tun) @ arrived)" and "w_out w = []"
    and "prefix (w_out (tn_wire tun) @ arrived) (w_out (rl_to server))"
    and "tcpc_target True w = (es, w')" and "w_out service = []"
    and "client = TCPConnectionHandler m turns' w' service"
    and "prefix (pending (w_in (tn_wire tun))) (w_out (rl_from client))"
  shows "es = (case ResolveRemoteAddr (lc_remoteAddr l) of None \<Rightarrow> [CloseTunnelConn] | Some (port, addr) \<Rightarrow> [RelayTo port addr])
    \<and> prefix (w_out (rl_to client)) (net_pending (sk_in (lc_conn l)))
    \<and> prefix (w_out (rl_from server)) (pending (w_in service))"
proof -
  from tcp_arrives [OF assms(1-3,7), of True] assms(10) have
    t: "es = (case ResolveRemoteAddr (lc_remoteAddr l) of None \<Rightarrow> [CloseTunnelConn] | Some (port, addr) \<Rightarrow> [RelayTo port addr])"
    and r: "receives w' arrived" by (auto split: option.splits)
  have w': "w_out w' = []" using tcpc_target_out [OF assms(10)] assms(8) by simp
  note S = relay_prefixes [of n turns user "tn_wire tun", folded assms(6)]
    and C = relay_prefixes [of m turns' w' service, folded assms(12)]
  from assms(9) S have "prefix (w_out (tn_wire tun) @ arrived) (w_out (tn_wire tun) @ pending (w_in user))"
    by (blast intro: prefix_order.trans)
  then have "prefix arrived (net_pending (sk_in (lc_conn l)))" by (simp add: assms(4) pending_replay_net)
  moreover have "prefix (w_out (rl_to client)) arrived" using C r assms(11) by (simp add: receives_def)
  moreover have "prefix (w_out (rl_from server)) (pending (w_in (tn_wire tun)))" using S assms(5) by simp
  moreover have "prefix (w_out (rl_from client)) (pending (w_in service))" using C w' by simp
  ultimately show ?thesis using t assms(13) by (blast intro: prefix_order.trans)
qed

text \<open>A user who says something, through the server's queue and a pooled connection to port 443.\<close>

definition demo_entry :: LocalTCPConn where
  "demo_entry = \<lparr>lc_conn = \<lparr>sk_id = 7, sk_in = RawConn [(''hi'', None)], sk_port = Some 80\<rparr>,
     lc_remoteAddr = ''443'', lc_timeCreated = 0, lc_reportPort = 0\<rparr>"

definition demo_tunnels :: "tunnel_conn chan" where
  "demo_tunnels = \<lparr>ch_buf = [\<lparr>tn_id = 1, tn_ip = None, tn_wire = fresh_wire []\<rparr>], ch_cap = 2\<rparr>"

abbreviation demo_far_end :: wire where
  "demo_far_end \<equiv> fresh_wire [(frame (''443'', SG_TCP) @ ''hi'', None)]"

lemma demo_paired:
  obtains tun where "pair_loop [0] demo_entry demo_tunnels = ([], Paired tun, \<lparr>ch_buf = [], ch_cap = 2\<rparr>)"
    and "w_out (tn_wire tun) = frame (''443'', SG_TCP)" and "w_in (tn_wire tun) = []" and "w_fail (tn_wire tun) = None"
  by (rule that [of "\<lparr>tn_id = 1, tn_ip = None, tn_wire = (fresh_wire [])\<lparr>w_out := frame (''443'', SG_TCP)\<rparr>\<rparr>"])
    (simp_all add: demo_entry_def demo_tunnels_def try_recv_def SendBinaryTransportString_def send_usable usable_def
      fresh_wire_def frame_def)

lemma demo_fresh: "q \<in> set (ch_buf demo_tunnels) \<Longrightarrow> w_out (tn_wire q) = [] \<and> w_fail (tn_wire q) = None"
  by (simp add: demo_tunnels_def fresh_wire_def)

lemma demo_entry_props: "length (lc_remoteAddr demo_entry) < 65536" "replay (sk_in (lc_conn demo_entry)) = [(''hi'', None)]"
  "net_pending (sk_in (lc_conn demo_entry)) = ''hi''"
  by (simp_all add: demo_entry_def)

theorem tcp_tunnel_transparent_witness:
  "\<exists>tun es w'. pair_loop [0] demo_entry demo_tunnels = ([], Paired tun, \<lparr>ch_buf = [], ch_cap = 2\<rparr>)
     \<and> tcpc_target True demo_far_end = (es, w')
     \<and> prefix (w_out (rl_to (TCPConnectionHandler 0 [True, False, True] w' (fresh_wire [])))) ''hi''"
proof -
  obtain tun where t: "pair_loop [0] demo_entry demo_tunnels = ([], Paired tun, \<lparr>ch_buf = [], ch_cap = 2\<rparr>)"
    "w_out (tn_wire tun) = frame (''443'', SG_TCP)" "w_in (tn_wire tun) = []" "w_fail (tn_wire tun) = None"
    by (rule demo_paired)
  obtain es w' where c: "tcpc_target True demo_far_end = (es, w')" by (metis prod.exhaust)
  let ?user = "fresh_wire [(''hi'', None)]"
  let ?server = "TCPConnectionHandler 0 (replicate 5 True @ []) ?user (tn_wire tun)"
  have "w_out (rl_to ?server) = w_out (tn_wire tun) @ ''hi''"
    using relay_first [of ?user "tn_wire tun" 5 0 "[]"] t(4) by (simp add: fresh_wire_def script_size_def)
  then have p: "prefix (w_out (tn_wire tun) @ ''hi'') (w_out (rl_to ?server))" by simp
  have r: "receives demo_far_end (w_out (tn_wire tun) @ ''hi'')" using t(2) by (simp add: receives_def fresh_wire_def)
  have u: "w_in ?user = replay (sk_in (lc_conn demo_entry))" "w_out ?user = []" "w_out demo_far_end = []"
    by (simp_all add: fresh_wire_def demo_entry_props)
  have b: "prefix (pending (w_in (tn_wire tun))) (w_out (rl_from (TCPConnectionHandler 0 [True, False, True] w' (fresh_wire []))))"
    using t(3) by simp
  from tcp_tunnel_transparent [OF t(1) demo_entry_props(1) demo_fresh u(1,2) refl r u(3) p c _ refl b] t(1) c
  show ?thesis by (auto simp: demo_entry_props fresh_wire_def)
qed



end
