(* ===== verification/Spec2Isabelle.thy ===== *)
theory Spec2Isabelle
  imports Gateway_Spec Tcpmux_Spec Ws_Spec Wsmux_Server Quic_Spec Udp_Order Client_Spec Quic_Client Accept_Udp_Spec Relay_Spec Usage Startup Program_Spec Tunnel_Spec
begin

text \<open>
  BackhaulPlus is a reverse tunnel.  A server process (\<^verbatim>\<open>src/internal/server\<close>) listens for users
  on its \<^verbatim>\<open>ports\<close> and for tunnel connections of an external client (\<^verbatim>\<open>src/internal/client\<close>)
  on \<^verbatim>\<open>bind_addr\<close>; a user connection is queued, a tunnel connection is requested over the
  control channel, and the two are relayed.  Gateways (\<^verbatim>\<open>[[sni_gateway]]\<close>, \<^verbatim>\<open>[[http_gateway]]\<close>)
  accept users on one public port, inspect the first bytes and queue the connection at the
  server named by the matching route.  \<^verbatim>\<open>src/cmd\<close> reads the configuration, applies defaults,
  validates it and starts servers, gateways or clients.

  The theories, in the order of their imports, and what they model:

  \<^item> \<open>Go_Lib\<close>: Go's strings, integers and loops as far as the program uses them.
  \<^item> \<open>Config\<close>, \<open>Defaults\<close>: \<^verbatim>\<open>internal/config/config.go\<close> and \<^verbatim>\<open>cmd/defaults.go\<close>.  A struct is a
    record, a map a partial function.  The lemmas give the contract of a defaulted configuration.
  \<^item> \<open>Byte_Size\<close>, \<open>Listen_Addr\<close>, \<open>Listen_Check\<close>, \<open>Validate\<close>, \<open>Validate_Spec\<close>: \<^verbatim>\<open>cmd/validate.go\<close>.
    \<open>Listen_Check\<close> relates the two maps of \<^verbatim>\<open>validateListeners\<close> to the list of all addresses that are
    opened; \<open>Validate_Spec\<close> proves \<^verbatim>\<open>validateConfig\<close> equal to a loop-free specification.
  \<^item> \<open>Conn\<close>, \<open>Prefixed_Conn\<close>: reading a \<^verbatim>\<open>net.Conn\<close> (the locale \<open>byte_reader\<close> is the contract of a
    reader, interpreted on both) and \<^verbatim>\<open>transport/prefixed_conn.go\<close>.
  \<^item> \<open>Sni\<close>, \<open>Sni_Spec\<close>, \<open>Http_Preread\<close>, \<open>Http_Spec\<close>: \<^verbatim>\<open>transport/sni.go\<close> and
    \<^verbatim>\<open>transport/http_preread.go\<close>, first the program, then its correctness.
  \<^item> \<open>Wire\<close>: \<^verbatim>\<open>internal/utils/binary.go\<close> and \<^verbatim>\<open>signals.go\<close>, the control protocol.
  \<^item> \<open>Inbound\<close>: channels (the locale \<open>fifo_channel\<close>), \<^verbatim>\<open>transport/shared.go\<close>, and the interface
    \<^verbatim>\<open>InboundTarget\<close> of \<^verbatim>\<open>transport/registry.go\<close> as the locale \<open>inbound_target\<close>.
  \<^item> \<open>Port_Mappings\<close>: \<^verbatim>\<open>parsePortMappings\<close>, the same text in five runtimes, against what the
    validation accepts.
  \<^item> \<open>Tcp_Server\<close>, \<open>Tcp_Spec\<close>: \<^verbatim>\<open>transport/tcp.go\<close>.  Each goroutine body is a function of what it
    waited for; \<open>tcp_step\<close> interleaves them and \<open>tcp_reachable\<close> gives the reachable states.
    \<open>tcp_target\<close> interprets \<open>inbound_target\<close>.
  \<^item> \<open>Mux_Sessions\<close>, \<open>Mux_Sessions_Spec\<close>: \<^verbatim>\<open>handleSession\<close> of the multiplexed runtimes, a state
    machine per goroutine; \<open>session_pool\<close> (in \<open>Inbound\<close>) says what a pool of them conserves.
  \<^item> \<open>Tcpmux_Server\<close>, \<open>Tcpmux_Spec\<close>: \<^verbatim>\<open>transport/tcpmux.go\<close>, with its several control channels.
  \<^item> \<open>Websocket\<close>, \<open>Ws_Server\<close>, \<open>Ws_Spec\<close>, \<open>Wsmux_Server\<close>: \<^verbatim>\<open>transport/ws.go\<close> and \<^verbatim>\<open>wsmux.go\<close>; the
    websocket library is a channel of messages.
  \<^item> \<open>Quic_Server\<close>, \<open>Quic_Spec\<close>: \<^verbatim>\<open>transport/quic.go\<close>.
  \<^item> \<open>Payload\<close>, \<open>Udp_Server\<close>, \<open>Udp_Spec\<close>, \<open>Udp_Order\<close>: \<^verbatim>\<open>transport/udp.go\<close>.  \<open>Udp_Spec\<close> proves the
    invariant of its shared channels, \<open>Udp_Order\<close> what every run sent over a tunnel connection.
  \<^item> \<open>Accept_Udp\<close>, \<open>Accept_Udp_Spec\<close>: \<^verbatim>\<open>accept_udp.go\<close> of server and client, UDP over the TCP tunnel: the
    framing (round trips between the two sides), and the goroutines of a port, interleaved by \<open>au_step\<close>.
  \<^item> \<open>Client_Common\<close>, \<open>Client_Pool\<close>, \<open>Tcp_Client\<close>, \<open>Ws_Client\<close>, \<open>Quic_Client\<close>, \<open>Client_Spec\<close>: the runtimes of
    \<^verbatim>\<open>internal/client/transport\<close>.  \<open>Client_Pool\<close> holds what five of them share, the pool of tunnel
    connections; the locale \<open>pooled_client\<close> is its contract, interpreted on each runtime.
    \<open>Client_Spec\<close> composes client and server: the handshake, the control channel, the targets.
  \<^item> \<open>Relay\<close>, \<open>Relay_Spec\<close>: the copy loops of \<^verbatim>\<open>internal/utils\<close> (\<^verbatim>\<open>tcpConnHandler.go\<close>,
    \<^verbatim>\<open>quicConnHandler.go\<close>, \<^verbatim>\<open>wsConnHandler.go\<close>), two of them interleaved turn by turn: what they deliver,
    that they end, and what closing one direction costs.
  \<^item> \<open>Tunnel_Spec\<close>: the TCP tunnel end to end, the server's pairing and relay composed with the client's
    dialer and relay; its specification is a direct connection between user and service.
  \<^item> \<open>Gateway\<close>, \<open>Gateway_Spec\<close>: \<^verbatim>\<open>transport/gateway.go\<close>, \<^verbatim>\<open>http_gateway.go\<close>, \<^verbatim>\<open>registry.go\<close> and the
    translation of their configuration in \<^verbatim>\<open>cmd/cmd.go\<close>.  The lemmas on \<^verbatim>\<open>handleConn\<close> are proved
    once in \<open>inbound_target\<close>.
  \<^item> \<open>Usage\<close>, \<open>Maintenance\<close>, \<open>Startup\<close>: \<^verbatim>\<open>internal/web/sniffer.go\<close> (the counters of a port and the file they
    are added to), \<^verbatim>\<open>internal/maintenance\<close>, and \<^verbatim>\<open>cmd/optimization.go\<close> with \<^verbatim>\<open>internal/utils/logger.go\<close>.
  \<^item> \<open>Program\<close>: \<^verbatim>\<open>cmd/cmd.go\<close>, \<^verbatim>\<open>internal/server/server.go\<close>, \<^verbatim>\<open>internal/client/client.go\<close> and the reloading in
    \<^verbatim>\<open>main.go\<close>.  \<open>Run\<close> is the list of its effects with the registry it fills.
  \<^item> \<open>Program_Run\<close>, \<open>Program_Queues\<close>, \<open>Program_Spec\<close>: the running server process.  \<open>runtime\<close> is the sum of all
    transports and \<open>program_target\<close> interprets \<open>inbound_target\<close> on it; \<open>program_reachable\<close> closes the
    registry of \<open>Run\<close> under the steps of every runtime and of the gateways.  \<open>registry_ok\<close> is its
    invariant; the properties go from a route of the configuration file to the queue of a runtime of
    any transport, in every reachable state.

  Bytes and texts are lists of characters, one character a byte.  Letters and white space are
  those of ASCII.  What a peer sends is a script of segments with the error each read may return,
  so that timeouts, resets and every segmentation are covered.  Nothing runs on fuel: every loop
  is a total function, by a measure on the unread input or on the missing bytes.

  Parameters stand for code outside the repository: \<^verbatim>\<open>logrus.ParseLevel\<close>, \<^verbatim>\<open>time.ParseDuration\<close>, the
  TOML decoder, \<^verbatim>\<open>sysctl\<close> and the limits of the process, whether an address can be bound or dialled,
  what the websocket, smux and QUIC libraries return; and for what the language leaves open, the
  order of iterating a map and of the steps of goroutines.

  Not modelled, because nothing of the tunnels depends on it: what is written to the log at run time
  (only the form of a line), socket options, TLS configuration, the listeners and timers as such (they are
  events of the steps), the pprof listeners, signals and command line flags, the re-execution of the
  process, the statistics of the machine and the HTML of the monitor page, which third-party
  libraries gather and render, and \<^verbatim>\<open>utils/runtime.go\<close> and \<^verbatim>\<open>utils/httpserver.go\<close>, which nothing calls.
  A restart of a runtime is one step: that goroutines of before a restart go on for a moment is
  modelled where they keep state (sessions, keep-alives, copy loops).
\<close>

end
